(* ===== verification/Prelude.thy ===== *)
theory Prelude
  imports Main "HOL-Library.Word"
begin

section \<open>Shared vocabulary of the development\<close>

text \<open>
  The parts of the Go language and of its standard library that every component uses:
  machine integers, instants and durations (package \<open>time\<close>), maps and the iteration over
  them, decimal rendering (\<open>fmt\<close> with the verb d), and the fact collections that carry
  the component proofs.
\<close>

subsection \<open>Fact collections\<close>

text \<open>
  \<open>go_simps\<close> holds the unfolding rules of the language primitives, \<open>inv_intros\<close> the
  preservation lemmas of the component invariants, \<open>frame_simps\<close> the equations saying
  which part of the state an operation leaves alone.
\<close>

named_theorems go_simps
named_theorems inv_intros
named_theorems frame_simps

subsection \<open>Machine integers\<close>

type_synonym i32 = "32 word"
type_synonym i64 = "64 word"
type_synonym u32 = "32 word"
type_synonym u64 = "64 word"
type_synonym byte = "8 word"

text \<open>
  \<open>int32\<close> and \<open>int64\<close> are words read through \<^term>\<open>sint\<close>; the comparison operators of
  the source on them are the signed ones.
\<close>

definition max_i32 :: i32 where
  "max_i32 = 2147483647"

lemma sint_i32_bounds: "- (2 ^ 31) \<le> sint (x :: i32)" "sint (x :: i32) < 2 ^ 31"
  using sint_ge [of x] sint_lt [of x] by simp_all

lemma sint_i64_bounds: "- (2 ^ 63) \<le> sint (x :: i64)" "sint (x :: i64) < 2 ^ 63"
  using sint_ge [of x] sint_lt [of x] by simp_all

lemma sint_eq_0_iff [simp]: "sint (x :: 'a::len word) = 0 \<longleftrightarrow> x = 0"
  by (metis signed_0 signed_word_eqI)

text \<open>Adding one to a signed word: exact below the maximum.\<close>

lemma sint_add_one:
  assumes "sint (x :: i32) < 2 ^ 31 - 1"
  shows "sint (1 + x) = 1 + sint x"
proof -
  have "sint (1 + x) = signed_take_bit 31 (sint (1::i32) + sint x)"
    by (simp add: sint_word_ariths)
  also have "\<dots> = 1 + sint x"
    using assms sint_i32_bounds [of x] by (simp add: signed_take_bit_int_eq_self)
  finally show ?thesis .
qed

subsection \<open>Time\<close>

text \<open>
  \<open>time.Time\<close> is the number of nanoseconds since Go's zero time (1 January of year 1 UTC), so
  that the zero value of the type is 0 and \<open>IsZero\<close> tests for it; \<open>time.Duration\<close> is an
  \<open>int64\<close> count of nanoseconds. \<open>Time.Sub\<close> saturates at the extreme durations.
\<close>

type_synonym time = int
type_synonym duration = int

definition Nanosecond :: duration where "Nanosecond = 1"
definition Second :: duration where "Second = 1000000000"
definition Minute :: duration where "Minute = 60 * Second"

definition maxDuration :: duration where "maxDuration = 2 ^ 63 - 1"
definition minDuration :: duration where "minDuration = - (2 ^ 63)"

definition time_Sub :: "time \<Rightarrow> time \<Rightarrow> duration" where
  "time_Sub t u = max minDuration (min maxDuration (t - u))"

definition time_IsZero :: "time \<Rightarrow> bool" where
  "time_IsZero t \<longleftrightarrow> t = 0"

definition time_Before :: "time \<Rightarrow> time \<Rightarrow> bool" where
  "time_Before t u \<longleftrightarrow> t < u"

definition time_After :: "time \<Rightarrow> time \<Rightarrow> bool" where
  "time_After t u \<longleftrightarrow> u < t"

text \<open>The Unix epoch, which is what \<open>AsTime\<close> returns for a nil protobuf timestamp.\<close>

definition unixEpoch :: time where
  "unixEpoch = 62135596800 * Second"

lemmas time_simps = time_Sub_def time_IsZero_def time_Before_def time_After_def
  maxDuration_def minDuration_def Second_def Minute_def

lemma time_Sub_le_iff:
  "\<bar>d\<bar> < maxDuration \<Longrightarrow> time_Sub t u \<le> d \<longleftrightarrow> t - u \<le> d"
  by (auto simp: time_Sub_def maxDuration_def minDuration_def min_def max_def)

lemma time_Sub_less_iff:
  "\<bar>d\<bar> < maxDuration \<Longrightarrow> time_Sub t u < d \<longleftrightarrow> t - u < d"
  by (auto simp: time_Sub_def maxDuration_def minDuration_def min_def max_def)

lemma time_Sub_self [simp]: "time_Sub t t = 0"
  by (simp add: time_simps)

subsection \<open>Maps and the iteration over them\<close>

text \<open>
  A Go map is a partial function. \<open>for k, v := range m\<close> visits every key once, in an order the
  language leaves open: the order is an argument \<open>ks\<close> of every definition that iterates, and
  \<open>iter_order m ks\<close> says that it is one of the orders the runtime may choose.
\<close>

definition iter_order :: "('k \<Rightarrow> 'v option) \<Rightarrow> 'k list \<Rightarrow> bool" where
  "iter_order m ks \<longleftrightarrow> distinct ks \<and> set ks = dom m"

fun go_range :: "('k \<Rightarrow> 'v option) \<Rightarrow> 'k list \<Rightarrow> ('k \<times> 'v) list" where
  "go_range m [] = []"
| "go_range m (k # ks) =
     (case m k of None \<Rightarrow> go_range m ks | Some v \<Rightarrow> (k, v) # go_range m ks)"

definition go_values :: "('k \<Rightarrow> 'v option) \<Rightarrow> 'k list \<Rightarrow> 'v list" where
  "go_values m ks = map snd (go_range m ks)"

lemma set_go_range: "set (go_range m ks) = {(k, v). k \<in> set ks \<and> m k = Some v}"
  by (induction ks) (auto split: option.splits)

lemma mem_go_range_iter:
  "iter_order m ks \<Longrightarrow> (k, v) \<in> set (go_range m ks) \<longleftrightarrow> m k = Some v"
  by (auto simp: set_go_range iter_order_def dom_def)

lemma set_go_values_iter: "iter_order m ks \<Longrightarrow> set (go_values m ks) = ran m"
  unfolding go_values_def ran_def
  by (auto simp: mem_go_range_iter image_iff) (metis mem_go_range_iter snd_conv)

lemma map_fst_go_range: "set ks \<subseteq> dom m \<Longrightarrow> map fst (go_range m ks) = ks"
  by (induction ks) auto

lemma map_fst_go_range_iter: "iter_order m ks \<Longrightarrow> map fst (go_range m ks) = ks"
  by (simp add: map_fst_go_range iter_order_def)

lemma length_go_range_iter: "iter_order m ks \<Longrightarrow> length (go_range m ks) = length ks"
  by (metis length_map map_fst_go_range_iter)

lemma iter_order_exists: "finite (dom m) \<Longrightarrow> \<exists>ks. iter_order m ks"
  using finite_distinct_list [of "dom m"] by (auto simp: iter_order_def)

lemma iter_order_empty [simp]: "iter_order Map.empty ks \<longleftrightarrow> ks = []"
  by (auto simp: iter_order_def)

lemma iter_order_perm:
  "iter_order m ks \<Longrightarrow> distinct ls \<Longrightarrow> set ls = set ks \<Longrightarrow> iter_order m ls"
  by (simp add: iter_order_def)

subsection \<open>Decimal rendering\<close>

fun show_nat :: "nat \<Rightarrow> string" where
  "show_nat n = (if n < 10 then [char_of (48 + n)]
                 else show_nat (n div 10) @ [char_of (48 + n mod 10)])"

declare show_nat.simps [simp del]

definition show_int :: "int \<Rightarrow> string" where
  "show_int i = (if i < 0 then ''-'' @ show_nat (nat (- i)) else show_nat (nat i))"

lemma show_nat_nonempty: "show_nat n \<noteq> []"
  by (subst show_nat.simps) simp

lemma show_int_nonempty: "show_int i \<noteq> []"
  by (simp add: show_int_def show_nat_nonempty)

subsection \<open>Options and lists\<close>

lemma map_upd_same_eq: "m k = Some v \<Longrightarrow> m(k \<mapsto> v) = m"
  by (auto simp: fun_eq_iff)

lemma last_drop_append:
  "length xs \<le> n \<Longrightarrow> drop n (xs @ ys) = drop (n - length xs) ys"
  by simp

end
