(* ===== verification/Float64.thy ===== *)
theory Float64
  imports Prelude Complex_Main "HOL-Library.Log_Nat" "HOL-Library.Signed_Division"
begin

section \<open>Go's float64: IEEE 754 binary64\<close>

text \<open>
  The scheduler computes its placement and autoscale scores in \<open>float64\<close>. The arithmetic is
  modelled exactly: a finite value is the rational it denotes, every operation computes the exact
  rational result and rounds it to the nearest binary64 value, ties to even, with gradual
  underflow and overflow to the infinities; NaN compares false with everything. The two zeros are
  one value here: the source never divides by a float that can be a negative zero and never looks
  at the sign of a zero.

  The interface \<open>monotone_rounding\<close> collects what the score proofs use of the rounding; it is
  interpreted on the binary64 rounding below.
\<close>

subsection \<open>Rounding to 53 significant bits\<close>

text \<open>Round half to even, on rationals.\<close>

definition round_even :: "rat \<Rightarrow> int" where
  "round_even y =
     (let f = \<lfloor>y\<rfloor>; d = y - of_int f in
      if d < 1 / 2 then f else if d > 1 / 2 then f + 1 else if even f then f else f + 1)"

text \<open>The exponent of the leading bit of a positive rational: \<open>2^k \<le> x < 2^(k+1)\<close>.\<close>

definition lead_exp :: "rat \<Rightarrow> int" where
  "lead_exp x =
     (let (a, b) = quotient_of x; k = bitlen a - bitlen b in
      if 2 powi k \<le> x then k else k - 1)"

text \<open>The exponent of the unit in the last place: 52 below the leading bit, at least -1074.\<close>

definition ulp_exp :: "rat \<Rightarrow> int" where
  "ulp_exp x = max (lead_exp \<bar>x\<bar> - 52) (-1074)"

definition rnd :: "rat \<Rightarrow> rat" where
  "rnd x = (if x = 0 then 0
            else let u = 2 powi (ulp_exp x) in of_int (round_even (x / u)) * u)"

text \<open>For evaluation: the same rounding with the power of two kept as an integer denominator.\<close>

definition rnd_at :: "int \<Rightarrow> rat \<Rightarrow> rat" where
  "rnd_at e x =
     (if 0 \<le> e then of_int (round_even (x / of_int (2 ^ nat e)) * 2 ^ nat e)
      else of_int (round_even (x * of_int (2 ^ nat (- e)))) / of_int (2 ^ nat (- e)))"

lemma rnd_code [code]: "rnd x = (if x = 0 then 0 else rnd_at (ulp_exp x) x)"
proof (cases "0 \<le> ulp_exp x")
  case True
  then have "(2::rat) powi (ulp_exp x) = of_int (2 ^ nat (ulp_exp x))" by (simp add: power_int_def)
  then show ?thesis using True by (simp only: rnd_def rnd_at_def Let_def of_int_mult if_True)
next
  case False
  then have "(2::rat) powi (ulp_exp x) = inverse (of_int (2 ^ nat (- ulp_exp x)))"
    by (simp add: power_int_def power_one_over inverse_eq_divide)
  then show ?thesis
    using False by (simp only: rnd_def rnd_at_def Let_def divide_inverse inverse_inverse_eq if_False)
qed

lemma round_even_bounds: "\<lfloor>y\<rfloor> \<le> round_even y" "round_even y \<le> \<lfloor>y\<rfloor> + 1"
  by (simp_all add: round_even_def Let_def)

lemma round_even_of_int [simp]: "round_even (of_int n) = n"
  by (simp add: round_even_def)

lemma round_even_mono:
  assumes "x \<le> y"
  shows "round_even x \<le> round_even y"
proof (cases "\<lfloor>x\<rfloor> = \<lfloor>y\<rfloor>")
  case True
  then show ?thesis using assms by (auto simp: round_even_def Let_def)
next
  case False
  then have "\<lfloor>x\<rfloor> + 1 \<le> \<lfloor>y\<rfloor>" using floor_mono [OF assms] by simp
  then show ?thesis using round_even_bounds [of x] round_even_bounds [of y] by linarith
qed

lemma round_even_ge: "of_int n \<le> y \<Longrightarrow> n \<le> round_even y"
  using round_even_mono [of "of_int n" y] by simp

lemma round_even_le: "y \<le> of_int n \<Longrightarrow> round_even y \<le> n"
  using round_even_mono [of y "of_int n"] by simp

lemma round_even_minus: "round_even (- y) = - round_even y"
proof (cases "y = of_int \<lfloor>y\<rfloor>")
  case True
  then obtain n where "y = of_int n" by blast
  then show ?thesis using round_even_of_int [of "- n"] by simp
next
  case False
  then have f: "\<lfloor>- y\<rfloor> = - \<lfloor>y\<rfloor> - 1"
    by (intro floor_unique) (use of_int_floor_le [of y] floor_correct [of y] in \<open>auto simp: less_le\<close>)
  show ?thesis by (auto simp: round_even_def Let_def f)
qed


subsection \<open>The leading bit\<close>

lemma two_powi_less_D:
  assumes "(2::rat) powi m < 2 powi n"
  shows "m < n"
proof (rule ccontr)
  assume "\<not> m < n"
  then have "(2::rat) powi n \<le> 2 powi m" by (intro power_int_increasing) auto
  with assms show False by simp
qed

lemma two_powi_mono: "m \<le> n \<Longrightarrow> (2::rat) powi m \<le> 2 powi n"
  by (rule power_int_increasing) auto

lemma bitlen_powi:
  assumes "0 < a"
  shows "2 powi (bitlen a - 1) \<le> (of_int a :: rat)" "(of_int a :: rat) < 2 powi (bitlen a)"
proof -
  have b: "1 \<le> bitlen a" using assms bitlen_nonneg [of a] bitlen_eq_zero_iff [of a] by linarith
  have "2 ^ nat (bitlen a - 1) \<le> a" "a < 2 ^ nat (bitlen a)"
    using bitlen_bounds [OF assms] by auto
  then have "(of_int (2 ^ nat (bitlen a - 1)) :: rat) \<le> of_int a"
    "(of_int a :: rat) < of_int (2 ^ nat (bitlen a))"
    by (simp_all only: of_int_le_iff of_int_less_iff)
  then show "2 powi (bitlen a - 1) \<le> (of_int a :: rat)" "(of_int a :: rat) < 2 powi (bitlen a)"
    using b by (simp_all add: power_int_nonneg_exp)
qed

lemma lead_exp_bounds:
  assumes "0 < x"
  shows "2 powi (lead_exp x) \<le> x" "x < 2 powi (lead_exp x + 1)"
proof -
  obtain a b where q: "quotient_of x = (a, b)" by (cases "quotient_of x")
  have x: "x = of_int a / of_int b" and b: "0 < b"
    using quotient_of_div [OF q] quotient_of_denom_pos [OF q] by auto
  then have a: "0 < a" using assms by (simp add: zero_less_divide_iff)
  let ?k = "bitlen a - bitlen b"
  have lo: "2 powi (?k - 1) < x"
  proof -
    have "2 powi (?k - 1) = (2 powi (bitlen a - 1) :: rat) / 2 powi (bitlen b)"
      by (simp flip: power_int_diff add: algebra_simps)
    also have "\<dots> < of_int a / of_int b"
      using bitlen_powi [OF a] bitlen_powi [OF b] b
      by (intro frac_less2) auto
    finally show ?thesis using x by simp
  qed
  have hi: "x < 2 powi (?k + 1)"
  proof -
    have "x < 2 powi (bitlen a) / 2 powi (bitlen b - 1)"
      unfolding x using bitlen_powi [OF a] bitlen_powi [OF b] b a
      by (intro frac_less) auto
    also have "\<dots> = 2 powi (?k + 1)"
      by (simp flip: power_int_diff add: algebra_simps)
    finally show ?thesis .
  qed
  show "2 powi (lead_exp x) \<le> x" "x < 2 powi (lead_exp x + 1)"
    using lo hi by (auto simp: lead_exp_def q Let_def)
qed

lemma lead_exp_unique:
  assumes "2 powi k \<le> x" "x < 2 powi (k + 1)"
  shows "lead_exp x = k"
proof -
  have "0 < (2::rat) powi k" by simp
  then have x: "0 < x" using assms(1) by (rule less_le_trans)
  have "(2::rat) powi k < 2 powi (lead_exp x + 1)"
    using assms(1) lead_exp_bounds(2) [OF x] by (rule le_less_trans)
  moreover have "(2::rat) powi (lead_exp x) < 2 powi (k + 1)"
    using lead_exp_bounds(1) [OF x] assms(2) by (rule le_less_trans)
  ultimately have "k < lead_exp x + 1" "lead_exp x < k + 1"
    by (blast dest: two_powi_less_D)+
  then show ?thesis by simp
qed

lemma lead_exp_mono:
  assumes "0 < x" "x \<le> y"
  shows "lead_exp x \<le> lead_exp y"
proof -
  have "2 powi (lead_exp x) \<le> y" using lead_exp_bounds(1) [OF assms(1)] assms(2) by simp
  also have "y < 2 powi (lead_exp y + 1)" using assms by (intro lead_exp_bounds) simp
  finally have "lead_exp x < lead_exp y + 1" by (rule two_powi_less_D)
  then show ?thesis by simp
qed

subsection \<open>Rounding is monotone, odd and exact on small integers\<close>

lemma rnd_0 [simp]: "rnd 0 = 0"
  by (simp add: rnd_def)

lemma rnd_minus: "rnd (- x) = - rnd x"
  by (simp add: rnd_def ulp_exp_def Let_def round_even_minus)

lemma ulp_exp_mono: "0 < x \<Longrightarrow> x \<le> y \<Longrightarrow> ulp_exp x \<le> ulp_exp y"
  using lead_exp_mono [of x y] by (simp add: ulp_exp_def)

lemma rnd_pos: "0 < x \<Longrightarrow> 0 \<le> rnd x"
  by (auto simp: rnd_def Let_def intro!: mult_nonneg_nonneg round_even_ge)

text \<open>The step from one binade to the next: the rounded values do not cross the power of two.\<close>

lemma rnd_le_binade:
  assumes "0 < x"
  shows "rnd x \<le> 2 powi (ulp_exp x + 53)"
proof -
  let ?u = "2 powi (ulp_exp x) :: rat"
  have u: "0 < ?u" by simp
  have "x < 2 powi (lead_exp x + 1)" using assms by (rule lead_exp_bounds)
  also have "\<dots> \<le> 2 powi (ulp_exp x + 53)"
    using assms by (intro two_powi_mono) (simp add: ulp_exp_def)
  also have "\<dots> = 2 ^ 53 * ?u" by (simp add: power_int_add)
  finally have "x / ?u \<le> of_int (2 ^ 53)" using u by (simp add: pos_divide_le_eq)
  then have "round_even (x / ?u) \<le> 2 ^ 53" by (rule round_even_le)
  then have "(of_int (round_even (x / ?u)) :: rat) \<le> of_int (2 ^ 53)"
    by (simp only: of_int_le_iff)
  then have "of_int (round_even (x / ?u)) * ?u \<le> of_int (2 ^ 53) * ?u"
    using u by (intro mult_right_mono) auto
  then show ?thesis using assms by (simp add: rnd_def Let_def power_int_add)
qed

lemma rnd_ge_binade:
  assumes "0 < x" "- 1074 < ulp_exp x"
  shows "2 powi (ulp_exp x + 52) \<le> rnd x"
proof -
  let ?u = "2 powi (ulp_exp x) :: rat"
  have u: "0 < ?u" by simp
  have "ulp_exp x + 52 = lead_exp x" using assms by (simp add: ulp_exp_def)
  then have "2 powi (ulp_exp x + 52) \<le> x" using lead_exp_bounds(1) [OF assms(1)] by simp
  then have "2 ^ 52 * ?u \<le> x" by (simp add: power_int_add)
  then have "of_int (2 ^ 52) \<le> x / ?u" using u by (simp add: pos_le_divide_eq)
  then have "2 ^ 52 \<le> round_even (x / ?u)" by (rule round_even_ge)
  then have "(of_int (2 ^ 52) :: rat) \<le> of_int (round_even (x / ?u))"
    by (simp only: of_int_le_iff)
  then have "of_int (2 ^ 52) * ?u \<le> of_int (round_even (x / ?u)) * ?u"
    using u by (intro mult_right_mono) auto
  then show ?thesis using assms by (simp add: rnd_def Let_def power_int_add)
qed

lemma rnd_mono_pos:
  assumes "0 < x" "x \<le> y"
  shows "rnd x \<le> rnd y"
proof (cases "ulp_exp x = ulp_exp y")
  case True
  let ?u = "2 powi (ulp_exp y) :: rat"
  have "x / ?u \<le> y / ?u" using assms by (simp add: divide_right_mono)
  then have "(of_int (round_even (x / ?u)) :: rat) \<le> of_int (round_even (y / ?u))"
    by (simp add: round_even_mono)
  then show ?thesis using assms True by (simp add: rnd_def Let_def)
next
  case False
  then have lt: "ulp_exp x < ulp_exp y" using ulp_exp_mono [OF assms] by simp
  moreover have "- 1074 \<le> ulp_exp x" by (simp add: ulp_exp_def)
  ultimately have gt: "- 1074 < ulp_exp y" by simp
  have "rnd x \<le> 2 powi (ulp_exp x + 53)" using assms(1) by (rule rnd_le_binade)
  also have "\<dots> \<le> 2 powi (ulp_exp y + 52)" using lt by (intro two_powi_mono) simp
  also have "\<dots> \<le> rnd y" using assms gt by (intro rnd_ge_binade) auto
  finally show ?thesis .
qed

theorem rnd_mono: "x \<le> y \<Longrightarrow> rnd x \<le> rnd y"
proof (cases "0 < x")
  case True
  then show "x \<le> y \<Longrightarrow> rnd x \<le> rnd y" by (rule rnd_mono_pos)
next
  case False
  assume xy: "x \<le> y"
  show ?thesis
  proof (cases "y < 0")
    case True
    then have "rnd (- y) \<le> rnd (- x)" using xy by (intro rnd_mono_pos) auto
    then show ?thesis by (simp add: rnd_minus)
  next
    case y: False
    have "rnd x \<le> 0"
      using False rnd_pos [of "- x"] by (cases "x = 0") (auto simp: rnd_minus)
    also have "0 \<le> rnd y" using y rnd_pos [of y] by (cases "y = 0") auto
    finally show ?thesis .
  qed
qed

text \<open>Integers below \<open>2^53\<close> in absolute value are floats.\<close>

lemma rnd_of_int:
  assumes "\<bar>n\<bar> < 2 ^ 53"
  shows "rnd (of_int n) = of_int n"
proof (cases "n = 0")
  case False
  let ?x = "of_int n :: rat"
  have pos: "0 < \<bar>?x\<bar>" using False by simp
  have "2 powi (lead_exp \<bar>?x\<bar>) \<le> \<bar>?x\<bar>" using pos by (rule lead_exp_bounds)
  also have "\<bar>?x\<bar> < of_int (2 ^ 53)"
    using assms by (simp only: of_int_abs [symmetric] of_int_less_iff)
  also have "\<dots> = 2 powi 53" by simp
  finally have "lead_exp \<bar>?x\<bar> < 53" by (rule two_powi_less_D)
  then have le: "ulp_exp ?x \<le> 0" by (simp add: ulp_exp_def)
  have "?x / 2 powi (ulp_exp ?x) = ?x * 2 powi (- ulp_exp ?x)"
    by (simp add: power_int_minus divide_inverse)
  also have "\<dots> = of_int (n * 2 ^ nat (- ulp_exp ?x))"
    using le by (simp add: power_int_nonneg_exp)
  finally have "round_even (?x / 2 powi (ulp_exp ?x)) = n * 2 ^ nat (- ulp_exp ?x)"
    by (metis round_even_of_int)
  then have "rnd ?x = of_int n * (2 ^ nat (- ulp_exp ?x) * 2 powi (ulp_exp ?x))"
    using False by (simp add: rnd_def Let_def)
  also have "(2::rat) ^ nat (- ulp_exp ?x) = 2 powi (- ulp_exp ?x)"
    using le by (simp add: power_int_nonneg_exp)
  finally show ?thesis by (simp flip: power_int_add)
qed simp

subsection \<open>The interface of a rounding\<close>

locale monotone_rounding =
  fixes R :: "rat \<Rightarrow> rat"
  assumes R_mono: "x \<le> y \<Longrightarrow> R x \<le> R y"
    and R_0: "R 0 = 0"
begin

lemma nonneg: "0 \<le> x \<Longrightarrow> 0 \<le> R x"
  using R_mono [of 0 x] by (simp add: R_0)

lemma between: "lo \<le> x \<Longrightarrow> x \<le> hi \<Longrightarrow> R lo \<le> R x \<and> R x \<le> R hi"
  by (simp add: R_mono)

text \<open>A weight times a ratio in \<open>[0,1]\<close> stays in \<open>[0, weight]\<close> when the weight is a float.\<close>

lemma weighted:
  assumes "R w = w" "0 \<le> w" "0 \<le> x" "x \<le> 1"
  shows "0 \<le> R (w * x) \<and> R (w * x) \<le> w"
proof -
  have "w * x \<le> w" using assms by (simp add: mult_left_le)
  then show ?thesis using R_mono [of "w * x" w] nonneg [of "w * x"] assms by simp
qed

lemma plus_bounds:
  assumes "0 \<le> a" "a \<le> A" "0 \<le> b" "b \<le> B"
  shows "0 \<le> R (a + b) \<and> R (a + b) \<le> R (A + B)"
  using assms by (intro conjI nonneg R_mono) auto

end

interpretation binary64: monotone_rounding rnd
  by unfold_locales (auto intro: rnd_mono)

subsection \<open>The values and their arithmetic\<close>

datatype f64 = Fin rat | PInf | NInf | NaN

text \<open>Rounding overflows when the rounded value is \<open>2^1024\<close> or more in absolute value.\<close>

definition f64_round :: "rat \<Rightarrow> f64" where
  "f64_round x =
     (let r = rnd x in
      if r \<noteq> 0 \<and> 1024 \<le> lead_exp \<bar>r\<bar> then (if 0 < r then PInf else NInf) else Fin r)"

text \<open>A decimal constant of the source, and the conversion \<open>float64(i)\<close> of an integer.\<close>

abbreviation f64_lit :: "rat \<Rightarrow> f64" where
  "f64_lit \<equiv> f64_round"

definition f64_of_int :: "int \<Rightarrow> f64" where
  "f64_of_int i = f64_round (of_int i)"

fun f64_neg :: "f64 \<Rightarrow> f64" where
  "f64_neg (Fin a) = Fin (- a)"
| "f64_neg PInf = NInf"
| "f64_neg NInf = PInf"
| "f64_neg NaN = NaN"

fun f64_add :: "f64 \<Rightarrow> f64 \<Rightarrow> f64" where
  "f64_add (Fin a) (Fin b) = f64_round (a + b)"
| "f64_add NaN _ = NaN"
| "f64_add _ NaN = NaN"
| "f64_add PInf NInf = NaN"
| "f64_add NInf PInf = NaN"
| "f64_add PInf _ = PInf"
| "f64_add _ PInf = PInf"
| "f64_add NInf _ = NInf"
| "f64_add _ NInf = NInf"

definition f64_signed_inf :: "rat \<Rightarrow> f64" where
  "f64_signed_inf s = (if 0 < s then PInf else if s < 0 then NInf else NaN)"

fun f64_mul :: "f64 \<Rightarrow> f64 \<Rightarrow> f64" where
  "f64_mul (Fin a) (Fin b) = f64_round (a * b)"
| "f64_mul NaN _ = NaN"
| "f64_mul _ NaN = NaN"
| "f64_mul (Fin a) PInf = f64_signed_inf a"
| "f64_mul (Fin a) NInf = f64_signed_inf (- a)"
| "f64_mul PInf (Fin b) = f64_signed_inf b"
| "f64_mul NInf (Fin b) = f64_signed_inf (- b)"
| "f64_mul PInf PInf = PInf"
| "f64_mul NInf NInf = PInf"
| "f64_mul PInf NInf = NInf"
| "f64_mul NInf PInf = NInf"

fun f64_div :: "f64 \<Rightarrow> f64 \<Rightarrow> f64" where
  "f64_div (Fin a) (Fin b) = (if b = 0 then f64_signed_inf a else f64_round (a / b))"
| "f64_div NaN _ = NaN"
| "f64_div _ NaN = NaN"
| "f64_div (Fin a) PInf = Fin 0"
| "f64_div (Fin a) NInf = Fin 0"
| "f64_div PInf (Fin b) = (if 0 \<le> b then PInf else NInf)"
| "f64_div NInf (Fin b) = (if 0 \<le> b then NInf else PInf)"
| "f64_div _ _ = NaN"

fun f64_less :: "f64 \<Rightarrow> f64 \<Rightarrow> bool" where
  "f64_less (Fin a) (Fin b) \<longleftrightarrow> a < b"
| "f64_less NaN _ \<longleftrightarrow> False"
| "f64_less _ NaN \<longleftrightarrow> False"
| "f64_less PInf _ \<longleftrightarrow> False"
| "f64_less _ PInf \<longleftrightarrow> True"
| "f64_less _ NInf \<longleftrightarrow> False"
| "f64_less NInf _ \<longleftrightarrow> True"

text \<open>
  The operators of the source on floats are those of the type classes: \<open>x + y\<close>, \<open>x * y\<close>,
  \<open>x / y\<close> and \<open>x < y\<close>; \<open>x \<le> y\<close> is false on NaN, like \<open><=\<close> in Go.
\<close>

instantiation f64 :: "{plus, minus, times, inverse, ord, zero, one}"
begin

definition "zero_f64 = Fin 0"
definition "one_f64 = Fin 1"
definition "plus_f64 = f64_add"
definition "minus_f64 x y = f64_add x (f64_neg y)"
definition "times_f64 = f64_mul"
definition "divide_f64 = f64_div"
definition "inverse_f64 x = f64_div (Fin 1) x"
definition "less_f64 = f64_less"
definition "less_eq_f64 x y \<longleftrightarrow> f64_less x y \<or> (x = y \<and> x \<noteq> NaN)"

instance ..

end

lemmas f64_class_defs = zero_f64_def one_f64_def plus_f64_def minus_f64_def times_f64_def
  divide_f64_def less_f64_def less_eq_f64_def

subsection \<open>Finite results\<close>

lemma rnd_two_powi:
  assumes "- 1022 \<le> k"
  shows "rnd (2 powi k) = 2 powi k"
proof -
  have pos: "0 < (2::rat) powi k" by simp
  have "lead_exp \<bar>(2::rat) powi k\<bar> = k"
    by (rule lead_exp_unique) (use pos in \<open>auto simp: power_int_add\<close>)
  then have u: "ulp_exp ((2::rat) powi k) = k - 52" using assms by (simp add: ulp_exp_def)
  have "(2::rat) powi k / 2 powi (k - 52) = 2 powi 52" by (simp flip: power_int_diff)
  also have "\<dots> = of_int (2 ^ 52)" by simp
  finally have "round_even ((2::rat) powi k / 2 powi (k - 52)) = 2 ^ 52"
    by (metis round_even_of_int)
  then have "rnd (2 powi k) = 2 powi 52 * 2 powi (k - 52)"
    using pos by (simp add: rnd_def u Let_def)
  also have "\<dots> = 2 powi (52 + (k - 52))" by (subst power_int_add) auto
  finally show ?thesis by simp
qed

lemma rnd_1 [simp]: "rnd 1 = 1"
  using rnd_of_int [of 1] by simp

lemma f64_round_finite:
  assumes "\<bar>x\<bar> \<le> 2 powi 1023"
  shows "f64_round x = Fin (rnd x)"
proof (cases "rnd x = 0")
  case False
  have p: "rnd (2 powi 1023) = 2 powi 1023" by (rule rnd_two_powi) simp
  have "rnd x \<le> 2 powi 1023" using rnd_mono [of x "2 powi 1023"] assms p by simp
  moreover have "- (2 powi 1023) \<le> rnd x"
    using rnd_mono [of "- (2 powi 1023)" x] assms unfolding rnd_minus p by linarith
  ultimately have "\<bar>rnd x\<bar> \<le> 2 powi 1023" by linarith
  moreover have "2 powi (lead_exp \<bar>rnd x\<bar>) \<le> \<bar>rnd x\<bar>"
    using False by (intro lead_exp_bounds) simp
  moreover have "(2::rat) powi 1023 < 2 powi 1024"
    by (rule power_int_strict_increasing) auto
  ultimately have "(2::rat) powi (lead_exp \<bar>rnd x\<bar>) < 2 powi 1024" by linarith
  then have "lead_exp \<bar>rnd x\<bar> < 1024" by (rule two_powi_less_D)
  then show ?thesis by (simp add: f64_round_def Let_def)
qed (simp add: f64_round_def)

lemma f64_round_finite_small:
  assumes "\<bar>x\<bar> \<le> of_int (2 ^ 64)"
  shows "f64_round x = Fin (rnd x)"
proof (rule f64_round_finite)
  have "(2::rat) powi 64 \<le> 2 powi 1023" by (rule power_int_increasing) auto
  then show "\<bar>x\<bar> \<le> 2 powi 1023" using assms by simp
qed

lemma f64_of_int_small:
  "\<bar>n\<bar> < 2 ^ 53 \<Longrightarrow> f64_of_int n = Fin (of_int n)"
  unfolding f64_of_int_def
  by (subst f64_round_finite_small) (auto simp: rnd_of_int simp flip: of_int_abs)

lemma f64_round_0 [simp]: "f64_round 0 = Fin 0"
  using f64_of_int_small [of 0] by (simp add: f64_of_int_def)

lemma f64_round_1 [simp]: "f64_round 1 = Fin 1"
  using f64_of_int_small [of 1] by (simp add: f64_of_int_def)

text \<open>The ratios of the score functions: values in \<open>[0,1]\<close>.\<close>

definition f64_unit :: "f64 \<Rightarrow> bool" where
  "f64_unit x \<longleftrightarrow> (case x of Fin r \<Rightarrow> 0 \<le> r \<and> r \<le> 1 | _ \<Rightarrow> False)"

lemma f64_unit_cases:
  assumes "f64_unit x"
  obtains r where "x = Fin r" "0 \<le> r" "r \<le> 1"
  using assms by (auto simp: f64_unit_def split: f64.splits)

lemma f64_round_unit: "0 \<le> x \<Longrightarrow> x \<le> 1 \<Longrightarrow> f64_unit (f64_round x)"
  using binary64.between [of 0 x 1]
  by (subst f64_round_finite_small) (auto simp: f64_unit_def)

subsection \<open>The order\<close>

lemma f64_less_simps [simp]:
  "Fin a < Fin b \<longleftrightarrow> a < b"
  "\<not> NaN < x" "\<not> x < NaN" "\<not> PInf < x" "\<not> x < NInf"
  "Fin a < PInf" "NInf < Fin a" "NInf < PInf"
  by (cases x; simp add: less_f64_def; fail)+

lemma f64_less_irrefl [simp]: "\<not> (x :: f64) < x"
  by (cases x) auto

lemma f64_less_trans: "(x :: f64) < y \<Longrightarrow> y < z \<Longrightarrow> x < z"
  by (cases x; cases y; cases z) auto

lemma f64_less_asym: "(x :: f64) < y \<Longrightarrow> \<not> y < x"
  by (cases x; cases y) auto

text \<open>On values that are not NaN, being not less is transitive: the order is total.\<close>

lemma f64_not_less_trans:
  "x \<noteq> NaN \<Longrightarrow> y \<noteq> NaN \<Longrightarrow> z \<noteq> NaN \<Longrightarrow> \<not> y < x \<Longrightarrow> \<not> z < y \<Longrightarrow> \<not> z < (x :: f64)"
  by (cases x; cases y; cases z) auto

lemma f64_less_le_trans:
  "y \<noteq> NaN \<Longrightarrow> z \<noteq> NaN \<Longrightarrow> (x :: f64) < y \<Longrightarrow> \<not> z < y \<Longrightarrow> x < z"
  by (cases x; cases y; cases z) auto

subsection \<open>Conversions to integers\<close>

text \<open>
  Truncation towards zero. Out of range the language leaves the result open; the amd64 instruction
  the compiler emits gives the smallest 64-bit integer, whose low 32 bits are zero. The conversion
  to an unsigned 64-bit integer subtracts \<open>2^63\<close> first when the value is at least that.
\<close>

fun f64_trunc :: "f64 \<Rightarrow> int option" where
  "f64_trunc (Fin r) = Some (if r < 0 then \<lceil>r\<rceil> else \<lfloor>r\<rfloor>)"
| "f64_trunc _ = None"

definition f64_to_i64 :: "f64 \<Rightarrow> int" where
  "f64_to_i64 x = (case f64_trunc x of
      Some n \<Rightarrow> if - (2 ^ 63) \<le> n \<and> n < 2 ^ 63 then n else - (2 ^ 63)
    | None \<Rightarrow> - (2 ^ 63))"

definition f64_to_i32 :: "f64 \<Rightarrow> i32" where
  "f64_to_i32 x = word_of_int (f64_to_i64 x)"

definition f64_to_u64 :: "f64 \<Rightarrow> u64" where
  "f64_to_u64 x =
     (case x of
        Fin r \<Rightarrow> if r < 2 ^ 63 then word_of_int (f64_to_i64 x)
                 else if r < 2 ^ 64 then word_of_int \<lfloor>r\<rfloor> else word_of_int (2 ^ 63)
      | _ \<Rightarrow> word_of_int (- (2 ^ 63)))"

text \<open>\<open>Duration.Seconds\<close>: whole seconds plus the rest in nanoseconds over \<open>1e9\<close>, in floats.\<close>

definition duration_Seconds :: "duration \<Rightarrow> f64" where
  "duration_Seconds d = f64_of_int (d sdiv Second) + f64_of_int (d smod Second) / f64_of_int Second"

end
