(* ===== verification/Proto.thy ===== *)
theory Proto
  imports Float64
begin

section \<open>The messages of the API\<close>

text \<open>
  The protobuf messages (package \<open>etroniumv1\<close>, generated from \<open>etronium.proto\<close>) as records, the
  enumerations as datatypes and the two \<open>oneof\<close> streams of the lord connection as tagged unions.
  Field selectors play the part of the generated getters. A pointer that the code lets be nil (a
  sub-message, a timestamp) is an option; the \<open>ref\<close> of a process is always set by the scheduler
  and is therefore a plain field (the one place where it can be missing, a line of the log read
  back at startup, is modelled there). A Go map of strings that may be nil is
  an optional partial function.
\<close>

subsection \<open>Process states\<close>

datatype process_state =
    PROCESS_STATE_UNSPECIFIED
  | PROCESS_STATE_NEW
  | PROCESS_STATE_READY
  | PROCESS_STATE_RUNNING
  | PROCESS_STATE_PAUSED
  | PROCESS_STATE_MIGRATING
  | PROCESS_STATE_EXITED
  | PROCESS_STATE_STOPPED
  | PROCESS_STATE_RESTARTING

fun ProcessState_Number :: "process_state \<Rightarrow> int" where
  "ProcessState_Number PROCESS_STATE_UNSPECIFIED = 0"
| "ProcessState_Number PROCESS_STATE_NEW = 1"
| "ProcessState_Number PROCESS_STATE_READY = 2"
| "ProcessState_Number PROCESS_STATE_RUNNING = 3"
| "ProcessState_Number PROCESS_STATE_PAUSED = 4"
| "ProcessState_Number PROCESS_STATE_MIGRATING = 5"
| "ProcessState_Number PROCESS_STATE_EXITED = 6"
| "ProcessState_Number PROCESS_STATE_STOPPED = 7"
| "ProcessState_Number PROCESS_STATE_RESTARTING = 8"

text \<open>The generated \<open>String\<close> method, from the table \<open>ProcessState_name\<close>.\<close>

fun ProcessState_String :: "process_state \<Rightarrow> string" where
  "ProcessState_String PROCESS_STATE_UNSPECIFIED = ''PROCESS_STATE_UNSPECIFIED''"
| "ProcessState_String PROCESS_STATE_NEW = ''PROCESS_STATE_NEW''"
| "ProcessState_String PROCESS_STATE_READY = ''PROCESS_STATE_READY''"
| "ProcessState_String PROCESS_STATE_RUNNING = ''PROCESS_STATE_RUNNING''"
| "ProcessState_String PROCESS_STATE_PAUSED = ''PROCESS_STATE_PAUSED''"
| "ProcessState_String PROCESS_STATE_MIGRATING = ''PROCESS_STATE_MIGRATING''"
| "ProcessState_String PROCESS_STATE_EXITED = ''PROCESS_STATE_EXITED''"
| "ProcessState_String PROCESS_STATE_STOPPED = ''PROCESS_STATE_STOPPED''"
| "ProcessState_String PROCESS_STATE_RESTARTING = ''PROCESS_STATE_RESTARTING''"

text \<open>The states are ordered by their enum number.\<close>

lemma ProcessState_Number_inject:
  "ProcessState_Number s = ProcessState_Number t \<Longrightarrow> s = t"
  by (cases s; cases t; simp)

instantiation process_state :: linorder
begin

definition "less_eq_process_state s t \<longleftrightarrow> ProcessState_Number s \<le> ProcessState_Number t"
definition "less_process_state s t \<longleftrightarrow> ProcessState_Number s < ProcessState_Number t"

instance
  by standard
    (auto simp: less_eq_process_state_def less_process_state_def
      intro: ProcessState_Number_inject)

end

text \<open>The two states in which a process is over.\<close>

definition final_state :: "process_state \<Rightarrow> bool" where
  "final_state s \<longleftrightarrow> s = PROCESS_STATE_EXITED \<or> s = PROCESS_STATE_STOPPED"

lemma final_state_simps [simp]:
  "final_state PROCESS_STATE_EXITED" "final_state PROCESS_STATE_STOPPED"
  "\<not> final_state PROCESS_STATE_READY" "\<not> final_state PROCESS_STATE_RUNNING"
  "\<not> final_state PROCESS_STATE_RESTARTING" "\<not> final_state PROCESS_STATE_PAUSED"
  "\<not> final_state PROCESS_STATE_MIGRATING" "\<not> final_state PROCESS_STATE_NEW"
  "\<not> final_state PROCESS_STATE_UNSPECIFIED"
  by (simp_all add: final_state_def)

subsection \<open>Resources, processes and lords\<close>

type_synonym str_map = "(string \<Rightarrow> string option) option"

record resource_spec =
  rs_cpu_shares :: i32
  rs_cpu_quota_pct :: i32
  rs_mem_limit_bytes :: i64
  rs_io_weight :: i32
  rs_pids_limit :: i32

record process_ref =
  ref_process_id :: string
  ref_lord_id :: string
  ref_local_pid :: i32

record lord =
  l_lord_id :: string
  l_hostname :: string
  l_os :: string
  l_arch :: string
  l_cpu_cores_physical :: i32
  l_mem_total_bytes_physical :: i64
  l_advertised_cpu_shares :: i32
  l_advertised_mem_bytes :: i64
  l_cpu_used_pct :: i32
  l_mem_used_bytes :: i64
  l_active_processes :: i32
  l_healthy :: bool
  l_reputation :: f64
  l_last_seen :: "time option"

record process_info =
  pi_ref :: process_ref
  pi_tenant_id :: string
  pi_parent_ref :: string
  pi_exec_path :: string
  pi_argv :: "string list"
  pi_env :: str_map
  pi_working_dir :: string
  pi_state :: process_state
  pi_state_changed_at :: "time option"
  pi_resources :: "resource_spec option"
  pi_cpu_usage_usec_total :: i64
  pi_mem_current_bytes :: i64
  pi_mem_peak_bytes :: i64
  pi_num_threads :: i32
  pi_exited_at :: "time option"
  pi_exit_code :: i32
  pi_exit_signal :: i32
  pi_restart_count :: i32
  pi_last_error :: string
  pi_state_dump_path :: string
  pi_max_restarts :: i32
  pi_deadline_at :: "time option"

abbreviation pi_lord_id :: "process_info \<Rightarrow> string" where
  "pi_lord_id p \<equiv> ref_lord_id (pi_ref p)"

abbreviation pi_process_id :: "process_info \<Rightarrow> string" where
  "pi_process_id p \<equiv> ref_process_id (pi_ref p)"

abbreviation pi_local_pid :: "process_info \<Rightarrow> i32" where
  "pi_local_pid p \<equiv> ref_local_pid (pi_ref p)"

text \<open>The zero values the Go composite literals leave in the fields they do not name.\<close>

definition zero_process_info :: process_info where
  "zero_process_info =
     \<lparr>pi_ref = \<lparr>ref_process_id = '''', ref_lord_id = '''', ref_local_pid = 0\<rparr>,
      pi_tenant_id = '''', pi_parent_ref = '''', pi_exec_path = '''', pi_argv = [],
      pi_env = None, pi_working_dir = '''', pi_state = PROCESS_STATE_UNSPECIFIED,
      pi_state_changed_at = None, pi_resources = None, pi_cpu_usage_usec_total = 0,
      pi_mem_current_bytes = 0, pi_mem_peak_bytes = 0, pi_num_threads = 0,
      pi_exited_at = None, pi_exit_code = 0, pi_exit_signal = 0, pi_restart_count = 0,
      pi_last_error = '''', pi_state_dump_path = '''', pi_max_restarts = 0,
      pi_deadline_at = None\<rparr>"

definition zero_lord :: lord where
  "zero_lord =
     \<lparr>l_lord_id = '''', l_hostname = '''', l_os = '''', l_arch = '''',
      l_cpu_cores_physical = 0, l_mem_total_bytes_physical = 0, l_advertised_cpu_shares = 0,
      l_advertised_mem_bytes = 0, l_cpu_used_pct = 0, l_mem_used_bytes = 0,
      l_active_processes = 0, l_healthy = False, l_reputation = 0, l_last_seen = None\<rparr>"

text \<open>What a subscriber of a process is told. The scheduler only sends state changes.\<close>

datatype event_type =
    EVENT_TYPE_UNSPECIFIED
  | EVENT_TYPE_STATE_CHANGED
  | EVENT_TYPE_SIGNAL_RECEIVED
  | EVENT_TYPE_CHILD_SPAWNED
  | EVENT_TYPE_IO_THRESHOLD
  | EVENT_TYPE_MIGRATION_COMPLETE

record resource_usage =
  ru_cpu_usage_usec_delta :: i64
  ru_mem_current_bytes :: i64
  ru_mem_peak_bytes :: i64
  ru_num_threads :: i32

datatype event_payload =
    EP_NewState process_state
  | EP_SignalNumber i32
  | EP_ChildRef process_ref
  | EP_Usage resource_usage

record process_event =
  ev_ref :: process_ref
  ev_type :: event_type
  ev_at :: time
  ev_payload :: event_payload

subsection \<open>IO chunks\<close>

datatype io_stream = STREAM_UNSPECIFIED | STREAM_STDIN | STREAM_STDOUT | STREAM_STDERR

record io_chunk =
  io_stream :: io_stream
  io_data :: "byte list"
  io_offset :: i64

subsection \<open>Requests and responses of the tenant API\<close>

record spawn_request =
  sr_tenant_id :: string
  sr_exec_path :: string
  sr_argv :: "string list"
  sr_env :: str_map
  sr_resources :: "resource_spec option"
  sr_working_dir :: string
  sr_prefer_lord_id :: string
  sr_stdin_initial :: "byte list"
  sr_process_id :: string
  sr_max_restarts :: i32
  sr_state_dump_path_hint :: string

definition zero_spawn_request :: spawn_request where
  "zero_spawn_request =
     \<lparr>sr_tenant_id = '''', sr_exec_path = '''', sr_argv = [], sr_env = None,
      sr_resources = None, sr_working_dir = '''', sr_prefer_lord_id = '''',
      sr_stdin_initial = [], sr_process_id = '''', sr_max_restarts = 0,
      sr_state_dump_path_hint = ''''\<rparr>"

record kill_request =
  kr_process_id :: string
  kr_signal_number :: i32
  kr_force :: bool

record kill_response =
  kp_acknowledged :: bool
  kp_current_state :: process_state

record wait_request =
  wr_process_id :: string
  wr_timeout_sec :: i32

record list_processes_request =
  lp_tenant_id :: string
  lp_only_running :: bool
  lp_limit :: i32

record migrate_request =
  mr_process_id :: string
  mr_target_lord_id :: string
  mr_auto :: bool

record migrate_response =
  mp_acknowledged :: bool
  mp_current_state :: process_state
  mp_new_lord_id :: string
  mp_new_local_pid :: i32

record stream_io_request =
  si_process_id :: string
  si_follow :: bool

record write_stdin_request =
  ws_lord_id :: string
  ws_process_id :: string
  ws_data :: "byte list"
  ws_eof :: bool

record write_stdin_response =
  wp_bytes_written :: i32
  wp_closed :: bool

record write_stdin_ack =
  wa_lord_id :: string
  wa_process_id :: string
  wa_bytes_written :: i32
  wa_closed :: bool

subsection \<open>The lord connection\<close>

record register_request =
  rr_hostname :: string
  rr_os :: string
  rr_arch :: string
  rr_cpu_cores_physical :: i32
  rr_mem_total_bytes_physical :: i64
  rr_advertised_cpu_shares :: i32
  rr_advertised_mem_bytes :: i64

record heartbeat_request =
  hb_lord_id :: string
  hb_cpu_used_pct :: i32
  hb_mem_used_bytes :: i64
  hb_active_processes :: i32

record process_started =
  ps_process_id :: string
  ps_local_pid :: i32

record process_io =
  po_process_id :: string
  po_chunk :: "io_chunk option"

record process_exit =
  px_process_id :: string
  px_exit_code :: i32
  px_exit_signal :: i32
  px_cpu_usage_usec :: i64
  px_mem_peak_bytes :: i64

record lazy_death_request =
  ld_lord_id :: string
  ld_grace_period_sec :: i32

datatype lord_cmd =
    Cmd_Register register_request
  | Cmd_Heartbeat heartbeat_request
  | Cmd_Started process_started
  | Cmd_Io process_io
  | Cmd_ProcessExit process_exit
  | Cmd_LazyDeath lazy_death_request
  | Cmd_WriteStdinAck write_stdin_ack

datatype lord_event =
    Ev_RegisterAck string i32         \<comment> \<open>lord id, heartbeat interval\<close>
  | Ev_HeartbeatAck bool i32          \<comment> \<open>ack, next heartbeat\<close>
  | Ev_Spawn spawn_request
  | Ev_Kill kill_request
  | Ev_FilePush
  | Ev_LazyDeathAck bool i32          \<comment> \<open>ack, drain timeout\<close>
  | Ev_SetDrain i32 string            \<comment> \<open>grace period, reason\<close>
  | Ev_WriteStdin write_stdin_request

text \<open>The ranges that the comment of \<open>validateResources\<close> promises.\<close>

definition resources_valid :: "resource_spec option \<Rightarrow> bool" where
  "resources_valid res = (case res of None \<Rightarrow> True | Some r \<Rightarrow>
     sint (rs_cpu_shares r) \<in> {0..10000} \<and> sint (rs_cpu_quota_pct r) \<in> {0..100} \<and>
     0 \<le> sint (rs_mem_limit_bytes r) \<and> sint (rs_io_weight r) \<in> {0..10000} \<and>
     sint (rs_pids_limit r) \<in> {0..1000000})"

subsection \<open>RPC errors\<close>

text \<open>A gRPC status error (code and message) or a plain Go error.\<close>

datatype grpc_code =
  InvalidArgument | NotFound | FailedPrecondition | Unavailable | Internal | Unimplemented
  | Canceled | DeadlineExceeded

datatype go_error = Status grpc_code string | Errorf string

text \<open>The verb v on an error: its message.\<close>

fun grpc_code_name :: "grpc_code \<Rightarrow> string" where
  "grpc_code_name InvalidArgument = ''InvalidArgument''"
| "grpc_code_name NotFound = ''NotFound''"
| "grpc_code_name FailedPrecondition = ''FailedPrecondition''"
| "grpc_code_name Unavailable = ''Unavailable''"
| "grpc_code_name Internal = ''Internal''"
| "grpc_code_name Unimplemented = ''Unimplemented''"
| "grpc_code_name Canceled = ''Canceled''"
| "grpc_code_name DeadlineExceeded = ''DeadlineExceeded''"

fun error_text :: "go_error \<Rightarrow> string" where
  "error_text (Errorf msg) = msg"
| "error_text (Status c msg) = ''rpc error: code = '' @ grpc_code_name c @ '' desc = '' @ msg"

end
