(* ===== verification/Registry.thy ===== *)
theory Registry
  imports Proto
begin

section \<open>The lord registry and placement (placement.go)\<close>

text \<open>
  The scheduler's registry of lords: the map from lord id to \<open>LordEntry\<close> and the placement
  algorithm. Operations take the current instant where the code calls \<open>time.Now\<close> and the order
  in which the runtime iterates over the map where it ranges over it.

  The lemmas give the registry invariant, the soundness, completeness and optimality of the
  placement decisions for every iteration order, the range of the score, and the effect of
  heartbeats and of the sweep on the two health flags.
\<close>

subsection \<open>State\<close>

record lord_entry =
  le_info :: lord
  le_last_heartbeat :: time
  le_healthy :: bool
  le_drain_requested :: bool

record lord_registry =
  lr_byID :: "string \<Rightarrow> lord_entry option"
  lr_algo :: string

definition NewLordRegistry :: "string \<Rightarrow> lord_registry" where
  "NewLordRegistry algo =
     \<lparr>lr_byID = Map.empty, lr_algo = (if algo \<noteq> ''weighted'' then ''trivial'' else algo)\<rparr>"

subsection \<open>Registration, heartbeats, health\<close>

definition Lords_Register :: "time \<Rightarrow> lord \<Rightarrow> lord_registry \<Rightarrow> lord_registry" where
  "Lords_Register now info r =
     r\<lparr>lr_byID := (lr_byID r)(l_lord_id info \<mapsto>
        \<lparr>le_info = info, le_last_heartbeat = now, le_healthy = True,
         le_drain_requested = False\<rparr>)\<rparr>"

definition Lords_UpdateStats ::
  "time \<Rightarrow> string \<Rightarrow> i32 \<Rightarrow> i64 \<Rightarrow> i32 \<Rightarrow> lord_registry \<Rightarrow> bool \<times> lord_registry" where
  "Lords_UpdateStats now lordID cpuUsedPct memUsedBytes activeProcs r =
     (case lr_byID r lordID of
        None \<Rightarrow> (False, r)
      | Some e \<Rightarrow>
          (True, r\<lparr>lr_byID := (lr_byID r)(lordID \<mapsto>
             e\<lparr>le_last_heartbeat := now, le_healthy := True,
               le_info := (le_info e)\<lparr>l_cpu_used_pct := cpuUsedPct,
                 l_mem_used_bytes := memUsedBytes, l_active_processes := activeProcs\<rparr>\<rparr>)\<rparr>))"

definition Lords_Get :: "lord_registry \<Rightarrow> string \<Rightarrow> lord option" where
  "Lords_Get r lordID = map_option le_info (lr_byID r lordID)"

definition Lords_MarkUnhealthy :: "string \<Rightarrow> lord_registry \<Rightarrow> lord_registry" where
  "Lords_MarkUnhealthy lordID r =
     (case lr_byID r lordID of
        None \<Rightarrow> r
      | Some e \<Rightarrow> r\<lparr>lr_byID := (lr_byID r)(lordID \<mapsto>
          e\<lparr>le_healthy := False, le_info := (le_info e)\<lparr>l_healthy := False\<rparr>\<rparr>)\<rparr>)"

definition Lords_SetDrain :: "string \<Rightarrow> lord_registry \<Rightarrow> lord_registry" where
  "Lords_SetDrain lordID r =
     (case lr_byID r lordID of
        None \<Rightarrow> r
      | Some e \<Rightarrow> r\<lparr>lr_byID := (lr_byID r)(lordID \<mapsto> e\<lparr>le_drain_requested := True\<rparr>)\<rparr>)"

fun find_hostname_loop :: "string \<Rightarrow> (string \<times> lord_entry) list \<Rightarrow> string" where
  "find_hostname_loop hostname [] = ''''"
| "find_hostname_loop hostname ((lid, e) # es) =
     (if l_hostname (le_info e) = hostname then lid else find_hostname_loop hostname es)"

definition Lords_FindByHostname :: "lord_registry \<Rightarrow> string list \<Rightarrow> string \<Rightarrow> string" where
  "Lords_FindByHostname r ks hostname =
     (if hostname = '''' then '''' else find_hostname_loop hostname (go_range (lr_byID r) ks))"

definition Lords_ListAll :: "lord_registry \<Rightarrow> string list \<Rightarrow> bool \<Rightarrow> lord list" where
  "Lords_ListAll r ks onlyHealthy =
     map le_info (filter (\<lambda>e. \<not> (onlyHealthy \<and> \<not> le_healthy e)) (go_values (lr_byID r) ks))"

fun sweep_loop ::
  "time \<Rightarrow> duration \<Rightarrow> string list \<Rightarrow> string list \<Rightarrow> lord_registry \<Rightarrow> string list \<times> lord_registry"
where
  "sweep_loop now ttl [] lost r = (lost, r)"
| "sweep_loop now ttl (lid # ks) lost r =
     (case lr_byID r lid of
        None \<Rightarrow> sweep_loop now ttl ks lost r
      | Some e \<Rightarrow>
          if ttl < time_Sub now (le_last_heartbeat e) \<and> le_healthy e
          then sweep_loop now ttl ks (lost @ [lid]) (Lords_MarkUnhealthy lid r)
          else sweep_loop now ttl ks lost r)"

definition Lords_SweepHeartbeats ::
  "time \<Rightarrow> duration \<Rightarrow> string list \<Rightarrow> lord_registry \<Rightarrow> string list \<times> lord_registry" where
  "Lords_SweepHeartbeats now ttl ks r = sweep_loop now ttl ks [] r"

subsection \<open>Capacity and score\<close>

definition hasCapacity :: "lord \<Rightarrow> bool" where
  "hasCapacity l =
     (if 100 \<le> sint (l_cpu_used_pct l) then False
      else let adv = sint (l_advertised_mem_bytes l) in
           if 0 < adv \<and> adv \<le> sint (l_mem_used_bytes l) then False else True)"

text \<open>\<open>if x < 0 { x = 0 }; if x > 1 { x = 1 }\<close> on a float.\<close>

definition clamp01 :: "f64 \<Rightarrow> f64" where
  "clamp01 x = (let y = (if x < 0 then 0 else x) in if 1 < y then 1 else y)"

definition cpuFree :: "lord \<Rightarrow> f64" where
  "cpuFree l = clamp01 (1 - f64_of_int (sint (l_cpu_used_pct l)) / f64_lit 100)"

definition memFree :: "lord \<Rightarrow> f64" where
  "memFree l =
     (let adv = l_advertised_mem_bytes l in
      clamp01
        (if 0 < sint adv
         then 1 - f64_of_int (sint (l_mem_used_bytes l)) / f64_of_int (sint adv)
         else if 0 < sint (l_mem_total_bytes_physical l)
         then 1 - f64_of_int (sint (l_mem_used_bytes l))
                / f64_of_int (sint (l_mem_total_bytes_physical l))
         else 1))"

definition invLoad :: "lord \<Rightarrow> f64" where
  "invLoad l = 1 / f64_of_int (sint (1 + l_active_processes l))"

definition scoreLord :: "lord \<Rightarrow> f64" where
  "scoreLord l =
     (f64_lit (1 / 2) * cpuFree l + f64_lit (2 / 5) * memFree l) + f64_lit (1 / 10) * invLoad l"

subsection \<open>Placement\<close>

text \<open>The loop both placement functions share: keep the first strict maximum of the score.\<close>

fun best_loop ::
  "(lord_entry \<Rightarrow> bool) \<Rightarrow> lord option \<Rightarrow> f64 \<Rightarrow> lord_entry list \<Rightarrow> lord option" where
  "best_loop skip best bestScore [] = best"
| "best_loop skip best bestScore (e # es) =
     (if skip e then best_loop skip best bestScore es
      else let score = scoreLord (le_info e) in
           if bestScore < score then best_loop skip (Some (le_info e)) score es
           else best_loop skip best bestScore es)"

fun first_eligible :: "lord_entry list \<Rightarrow> lord option" where
  "first_eligible [] = None"
| "first_eligible (e # es) =
     (if le_healthy e \<and> \<not> le_drain_requested e then Some (le_info e) else first_eligible es)"

definition Lords_Pick :: "lord_registry \<Rightarrow> string list \<Rightarrow> string \<Rightarrow> lord option" where
  "Lords_Pick r ks preferLordID =
     (let affinity =
        (if preferLordID \<noteq> '''' then
           case lr_byID r preferLordID of
             Some e \<Rightarrow>
               if le_healthy e \<and> \<not> le_drain_requested e \<and> hasCapacity (le_info e)
               then Some (le_info e) else None
           | None \<Rightarrow> None
         else None) in
      case affinity of
        Some l \<Rightarrow> Some l
      | None \<Rightarrow>
          if lr_algo r = ''weighted''
          then best_loop (\<lambda>e. \<not> le_healthy e \<or> le_drain_requested e) None (Fin (- 1))
                 (go_values (lr_byID r) ks)
          else first_eligible (go_values (lr_byID r) ks))"

definition Lords_PickDifferent :: "lord_registry \<Rightarrow> string list \<Rightarrow> string \<Rightarrow> string" where
  "Lords_PickDifferent r ks excludeLordID =
     (case best_loop
             (\<lambda>e. (\<not> le_healthy e \<or> le_drain_requested e) \<or> l_lord_id (le_info e) = excludeLordID)
             None (Fin (- 1)) (go_values (lr_byID r) ks) of
        None \<Rightarrow> ''''
      | Some best \<Rightarrow> l_lord_id best)"

subsection \<open>The registry invariant\<close>

text \<open>
  Entries are filed under the id of their lord, ids are not empty, and the health flag shown to
  clients (in the message) never claims more than the internal one.
\<close>

definition entry_ok :: "string \<Rightarrow> lord_entry \<Rightarrow> bool" where
  "entry_ok k e \<longleftrightarrow> l_lord_id (le_info e) = k \<and> k \<noteq> '''' \<and>
     (l_healthy (le_info e) \<longrightarrow> le_healthy e)"

definition lr_inv :: "lord_registry \<Rightarrow> bool" where
  "lr_inv r \<longleftrightarrow> finite (dom (lr_byID r)) \<and> (\<forall>k e. lr_byID r k = Some e \<longrightarrow> entry_ok k e)"

lemma lr_inv_upd [inv_intros]:
  "lr_inv r \<Longrightarrow> entry_ok k e \<Longrightarrow> lr_inv (r\<lparr>lr_byID := (lr_byID r)(k \<mapsto> e)\<rparr>)"
  by (auto simp: lr_inv_def)

lemma lr_inv_entry: "lr_inv r \<Longrightarrow> lr_byID r k = Some e \<Longrightarrow> entry_ok k e"
  by (simp add: lr_inv_def)

lemma lr_inv_New [inv_intros]: "lr_inv (NewLordRegistry algo)"
  by (simp add: lr_inv_def NewLordRegistry_def)

lemma lr_inv_Register [inv_intros]:
  "lr_inv r \<Longrightarrow> l_lord_id info \<noteq> '''' \<Longrightarrow> lr_inv (Lords_Register now info r)"
  unfolding Lords_Register_def by (rule lr_inv_upd) (auto simp: entry_ok_def)

lemma lr_inv_UpdateStats [inv_intros]:
  "lr_inv r \<Longrightarrow> lr_inv (snd (Lords_UpdateStats now lordID c m a r))"
  unfolding Lords_UpdateStats_def
  by (auto split: option.splits intro!: lr_inv_upd dest: lr_inv_entry simp: entry_ok_def)

lemma lr_inv_MarkUnhealthy [inv_intros]: "lr_inv r \<Longrightarrow> lr_inv (Lords_MarkUnhealthy lordID r)"
  unfolding Lords_MarkUnhealthy_def
  by (auto split: option.splits intro!: lr_inv_upd dest: lr_inv_entry simp: entry_ok_def)

lemma lr_inv_SetDrain [inv_intros]: "lr_inv r \<Longrightarrow> lr_inv (Lords_SetDrain lordID r)"
  unfolding Lords_SetDrain_def
  by (auto split: option.splits intro!: lr_inv_upd dest: lr_inv_entry simp: entry_ok_def)

lemma lr_inv_sweep_loop: "lr_inv r \<Longrightarrow> lr_inv (snd (sweep_loop now ttl ks lost r))"
  by (induction now ttl ks lost r rule: sweep_loop.induct)
    (auto split: option.splits intro: lr_inv_MarkUnhealthy)

lemma lr_inv_Sweep [inv_intros]: "lr_inv r \<Longrightarrow> lr_inv (snd (Lords_SweepHeartbeats now ttl ks r))"
  by (simp add: Lords_SweepHeartbeats_def lr_inv_sweep_loop)

text \<open>No operation forgets a lord.\<close>

lemma dom_Register [frame_simps]:
  "dom (lr_byID (Lords_Register now info r)) = insert (l_lord_id info) (dom (lr_byID r))"
  by (simp add: Lords_Register_def)

lemma dom_UpdateStats [frame_simps]:
  "dom (lr_byID (snd (Lords_UpdateStats now lordID c m a r))) = dom (lr_byID r)"
  by (auto simp: Lords_UpdateStats_def split: option.splits)

lemma dom_MarkUnhealthy [frame_simps]:
  "dom (lr_byID (Lords_MarkUnhealthy lordID r)) = dom (lr_byID r)"
  by (auto simp: Lords_MarkUnhealthy_def split: option.splits)

lemma dom_SetDrain [frame_simps]:
  "dom (lr_byID (Lords_SetDrain lordID r)) = dom (lr_byID r)"
  by (auto simp: Lords_SetDrain_def split: option.splits)

lemma dom_sweep_loop:
  "dom (lr_byID (snd (sweep_loop now ttl ks lost r))) = dom (lr_byID r)"
  by (induction now ttl ks lost r rule: sweep_loop.induct)
    (auto simp: dom_MarkUnhealthy split: option.splits)

lemma dom_Sweep [frame_simps]:
  "dom (lr_byID (snd (Lords_SweepHeartbeats now ttl ks r))) = dom (lr_byID r)"
  by (simp add: Lords_SweepHeartbeats_def dom_sweep_loop)

subsection \<open>Score range\<close>

lemma clamp01_unit: "x \<noteq> NaN \<Longrightarrow> f64_unit (clamp01 x)"
  by (cases x) (auto simp: clamp01_def Let_def f64_unit_def zero_f64_def one_f64_def)

text \<open>Subtracting a finite quotient of 64-bit integers from one stays finite.\<close>

lemma f64_of_int_i64: "f64_of_int (sint (x :: i64)) = Fin (rnd (of_int (sint x)))"
proof -
  have "\<bar>sint x\<bar> \<le> 2 ^ 64" using sint_i64_bounds [of x] by simp
  then have "\<bar>rat_of_int (sint x)\<bar> \<le> of_int (2 ^ 64)"
    by (simp only: of_int_abs [symmetric] of_int_le_iff)
  then show ?thesis unfolding f64_of_int_def by (rule f64_round_finite_small)
qed

lemma f64_of_int_i32: "f64_of_int (sint (x :: i32)) = Fin (of_int (sint x))"
  using sint_i32_bounds [of x] by (intro f64_of_int_small) simp

lemma f64_round_not_NaN [simp]: "f64_round x \<noteq> NaN"
  by (simp add: f64_round_def Let_def)

lemma f64_ratio_not_NaN:
  assumes "b \<noteq> 0"
  shows "1 - (Fin a / Fin b :: f64) \<noteq> NaN"
proof (cases "Fin a / Fin b :: f64")
  case NaN
  then show ?thesis using assms by (simp add: divide_f64_def)
qed (simp_all add: minus_f64_def one_f64_def plus_f64_def)

lemma rnd_pos_int: "0 < n \<Longrightarrow> rnd (of_int n) \<noteq> 0"
  using rnd_mono [of 1 "of_int n"] by simp

lemma cpuFree_unit: "f64_unit (cpuFree l)"
proof -
  have "f64_lit 100 = Fin 100" using f64_of_int_small [of 100] by (simp add: f64_of_int_def)
  then show ?thesis
    unfolding cpuFree_def f64_of_int_i32 by (intro clamp01_unit) (simp add: f64_ratio_not_NaN)
qed

lemma memFree_unit: "f64_unit (memFree l)"
proof -
  have "1 - Fin a / Fin (rnd (of_int (sint x))) \<noteq> NaN" if "0 < sint x" for a and x :: i64
    by (rule f64_ratio_not_NaN, rule rnd_pos_int, rule that)
  moreover have "(1 :: f64) \<noteq> NaN" by (simp add: one_f64_def)
  ultimately show ?thesis
    unfolding memFree_def Let_def f64_of_int_i64
    by (intro clamp01_unit) (simp del: of_int_sint split: if_split)
qed

text \<open>The three weights as floats, and the sums of them the score can reach.\<close>

lemma rnd_half: "rnd (1 / 2) = 1 / 2" by code_simp

lemma rnd_two_fifths: "rnd (2 / 5) = 3602879701896397 / 9007199254740992" by code_simp

lemma rnd_tenth: "rnd (1 / 10) = 3602879701896397 / 36028797018963968" by code_simp

lemma rnd_idem_weights:
  "rnd (3602879701896397 / 9007199254740992) = 3602879701896397 / 9007199254740992"
  "rnd (3602879701896397 / 36028797018963968) = 3602879701896397 / 36028797018963968"
  by code_simp+

lemma rnd_sum_weights:
  "rnd (8106479329266893 / 9007199254740992) = 8106479329266893 / 9007199254740992"
  "rnd (1 / 2 + 3602879701896397 / 9007199254740992) = 8106479329266893 / 9007199254740992"
  "rnd (8106479329266893 / 9007199254740992 + 3602879701896397 / 36028797018963968) = 1"
  by code_simp+

text \<open>The two ratio terms together lie between 0 and the float just above 0.9.\<close>

lemma score_ratio_part:
  obtains s where "f64_lit (1 / 2) * cpuFree l + f64_lit (2 / 5) * memFree l = Fin s"
    "0 \<le> s" "s \<le> 8106479329266893 / 9007199254740992"
proof -
  obtain c where c: "cpuFree l = Fin c" "0 \<le> c" "c \<le> 1"
    by (rule f64_unit_cases [OF cpuFree_unit])
  obtain m where m: "memFree l = Fin m" "0 \<le> m" "m \<le> 1"
    by (rule f64_unit_cases [OF memFree_unit])
  let ?h = "1 / 2 :: rat" and ?f = "3602879701896397 / 9007199254740992 :: rat"
  have w1: "0 \<le> rnd (?h * c) \<and> rnd (?h * c) \<le> ?h"
    using c by (intro binary64.weighted) (simp_all add: rnd_half)
  have w2: "0 \<le> rnd (?f * m) \<and> rnd (?f * m) \<le> ?f"
    using m by (intro binary64.weighted) (simp_all add: rnd_idem_weights)
  have fin: "f64_round x = Fin (rnd x)" if "0 \<le> x" "x \<le> 2" for x
    using that by (intro f64_round_finite_small) simp
  have "f64_lit ?h * cpuFree l = Fin (rnd (?h * c))"
    using w1 c by (simp add: times_f64_def fin rnd_half)
  moreover have "f64_lit (2 / 5) * memFree l = Fin (rnd (?f * m))"
    using w2 m by (simp add: times_f64_def fin rnd_two_fifths)
  moreover have "0 \<le> rnd (rnd (?h * c) + rnd (?f * m)) \<and>
      rnd (rnd (?h * c) + rnd (?f * m)) \<le> rnd (?h + ?f)"
    using w1 w2 by (intro binary64.plus_bounds) auto
  ultimately show thesis
    using w1 w2 by (intro that [of "rnd (rnd (?h * c) + rnd (?f * m))"])
      (simp_all add: plus_f64_def fin rnd_sum_weights)
qed

text \<open>
  The load term: positive and at most 0.1 for a sensible process count; a reported count of -1
  makes the divisor zero and the term plus infinity; the other negative counts (and the largest
  positive one, whose successor wraps) give a term that is negative but at least -0.1.
\<close>

lemma invLoad_cases:
  "invLoad l = (if sint (1 + l_active_processes l) = 0 then PInf
                else Fin (rnd (1 / of_int (sint (1 + l_active_processes l)))))"
proof (cases "sint (1 + l_active_processes l) = 0")
  case True
  then show ?thesis
    by (simp add: invLoad_def f64_of_int_def divide_f64_def one_f64_def f64_signed_inf_def)
next
  case False
  let ?n = "sint (1 + l_active_processes l)"
  have "1 \<le> \<bar>rat_of_int ?n\<bar>" using False
    by (metis of_int_1_le_iff of_int_abs int_one_le_iff_zero_less zero_less_abs_iff)
  then have "\<bar>1 / rat_of_int ?n\<bar> \<le> of_int (2 ^ 64)" by (simp add: abs_divide divide_le_eq)
  then show ?thesis
    using False unfolding invLoad_def f64_of_int_i32
    by (simp only: divide_f64_def one_f64_def f64_div.simps f64_round_finite_small of_int_eq_0_iff
        if_False)
qed

lemma invLoad_term_cases:
  obtains (inf) "f64_lit (1 / 10) * invLoad l = PInf" "sint (1 + l_active_processes l) = 0"
  | (fin) t where "f64_lit (1 / 10) * invLoad l = Fin t"
      "- (3602879701896397 / 36028797018963968) \<le> t" "t \<le> 3602879701896397 / 36028797018963968"
      "0 < sint (1 + l_active_processes l) \<Longrightarrow> 0 \<le> t" "sint (1 + l_active_processes l) \<noteq> 0"
proof (cases "sint (1 + l_active_processes l) = 0")
  case True
  then show thesis
    using inf by (simp add: invLoad_cases times_f64_def f64_signed_inf_def rnd_tenth
        f64_round_finite_small)
next
  case False
  let ?n = "sint (1 + l_active_processes l)" and ?t = "3602879701896397 / 36028797018963968 :: rat"
  have n1: "1 \<le> \<bar>rat_of_int ?n\<bar>" using False
    by (metis of_int_1_le_iff of_int_abs int_one_le_iff_zero_less zero_less_abs_iff)
  then have "\<bar>1 / rat_of_int ?n\<bar> \<le> 1" by (simp add: abs_divide divide_le_eq)
  then have "- 1 \<le> 1 / rat_of_int ?n" "1 / rat_of_int ?n \<le> 1"
    by (rule abs_le_D2 [THEN minus_le_iff [THEN iffD1]], rule abs_le_D1)
  then have "rnd (- 1) \<le> rnd (1 / of_int ?n)" "rnd (1 / of_int ?n) \<le> rnd 1"
    by - (rule rnd_mono, assumption)+
  then have r: "- 1 \<le> rnd (1 / of_int ?n)" "rnd (1 / of_int ?n) \<le> 1"
    by (simp_all only: rnd_minus rnd_1)
  let ?p = "?t * rnd (1 / of_int ?n)"
  have p: "- ?t \<le> ?p" "?p \<le> ?t" using r by simp_all
  then have fin': "f64_round ?p = Fin (rnd ?p)" by (intro f64_round_finite_small) simp
  have "- ?t \<le> rnd ?p" "rnd ?p \<le> ?t"
    using rnd_mono [OF p(1)] rnd_mono [OF p(2)] by (simp_all add: rnd_minus rnd_idem_weights)
  moreover have "0 \<le> rnd ?p" if "0 < ?n"
  proof -
    have "0 \<le> rnd (1 / of_int ?n)" using that by (intro binary64.nonneg) (simp del: of_int_sint)
    then show ?thesis by (intro binary64.nonneg) simp
  qed
  moreover have "f64_lit (1 / 10) * invLoad l = Fin (rnd ?p)"
    using False fin' by (simp add: invLoad_cases times_f64_def rnd_tenth f64_round_finite_small
        del: of_int_sint)
  ultimately show thesis using False by (intro fin [of "rnd ?p"])
qed

text \<open>A score is never NaN and always beats the initial best score of -1.\<close>

lemma scoreLord_cases:
  obtains (inf) "scoreLord l = PInf" "sint (1 + l_active_processes l) = 0"
  | (fin) t where "scoreLord l = Fin t" "- (1 / 2) \<le> t" "t \<le> 1"
      "0 < sint (1 + l_active_processes l) \<Longrightarrow> 0 \<le> t" "sint (1 + l_active_processes l) \<noteq> 0"
proof -
  obtain s where s: "f64_lit (1 / 2) * cpuFree l + f64_lit (2 / 5) * memFree l = Fin s"
    "0 \<le> s" "s \<le> 8106479329266893 / 9007199254740992"
    by (rule score_ratio_part)
  show thesis
  proof (cases rule: invLoad_term_cases [of l])
    case inf'': inf
    then show thesis using s(1) by (intro inf) (simp_all add: scoreLord_def plus_f64_def)
  next
    case (fin t)
    have "- 1 \<le> s + t" "s + t \<le> 8106479329266893 / 9007199254740992
        + 3602879701896397 / 36028797018963968"
      using s fin by linarith+
    then have up: "rnd (s + t) \<le> 1"
      using rnd_mono [OF \<open>s + t \<le> _\<close>] by (simp only: rnd_sum_weights)
    have "- (1 / 2) \<le> s + t" using s fin by linarith
    then have "rnd (- (1 / 2)) \<le> rnd (s + t)" by (rule rnd_mono)
    then have lo: "- (1 / 2) \<le> rnd (s + t)" by (simp only: rnd_minus rnd_half)
    have "scoreLord l = Fin (rnd (s + t))"
      unfolding scoreLord_def s(1) fin(1) using s fin
      by (subst plus_f64_def, subst f64_add.simps) (intro f64_round_finite_small, simp)
    moreover have "0 \<le> rnd (s + t)" if "0 < sint (1 + l_active_processes l)"
      using s fin that by (intro binary64.nonneg) simp
    ultimately show thesis using up lo fin(5) that(2) by blast
  qed
qed

lemma scoreLord_gt_m1: "Fin (- 1) < scoreLord l"
  by (cases rule: scoreLord_cases [of l]) auto

lemma scoreLord_in_unit:
  assumes "0 \<le> sint (l_active_processes l)" "sint (l_active_processes l) < 2 ^ 31 - 1"
  shows "f64_unit (scoreLord l)"
proof -
  have pos: "0 < sint (1 + l_active_processes l)"
    using assms by (simp only: sint_add_one)
  then show ?thesis
    by (cases rule: scoreLord_cases [of l]) (auto simp: f64_unit_def)
qed

subsection \<open>What the placement loop returns\<close>

lemma best_loop_pass:
  "skip e \<or> \<not> b < scoreLord (le_info e) \<Longrightarrow>
     best_loop skip best b (e # es) = best_loop skip best b es"
  by (auto simp: Let_def)

lemma best_loop_take:
  "\<not> skip e \<Longrightarrow> b < scoreLord (le_info e) \<Longrightarrow>
     best_loop skip best b (e # es) = best_loop skip (Some (le_info e)) (scoreLord (le_info e)) es"
  by (simp add: Let_def)

lemma best_loop_mem:
  "best_loop skip best b es = Some l \<Longrightarrow>
     best = Some l \<or> (\<exists>e\<in>set es. \<not> skip e \<and> le_info e = l)"
proof (induction es arbitrary: best b)
  case (Cons e es)
  show ?case
  proof (cases "skip e \<or> \<not> b < scoreLord (le_info e)")
    case True
    then show ?thesis using Cons best_loop_pass [of skip e b, OF True] by auto
  next
    case False
    then show ?thesis using Cons.prems best_loop_take [of skip e b] by (auto dest: Cons.IH)
  qed
qed simp

lemma best_loop_None:
  "best_loop skip best b es = None \<Longrightarrow>
     best = None \<and> (\<forall>e\<in>set es. \<not> skip e \<longrightarrow> \<not> b < scoreLord (le_info e))"
proof (induction es arbitrary: best b)
  case (Cons e es)
  show ?case
  proof (cases "skip e \<or> \<not> b < scoreLord (le_info e)")
    case True
    then show ?thesis using Cons.IH Cons.prems unfolding best_loop_pass [of skip e b, OF True] by auto
  next
    case False
    then show ?thesis
      using Cons.prems Cons.IH [of "Some (le_info e)"] best_loop_take [of skip e b best es] by auto
  qed
qed simp

lemma scoreLord_not_NaN: "scoreLord l \<noteq> NaN"
  using scoreLord_gt_m1 [of l] f64_less_simps(3) by metis

lemma best_loop_max:
  assumes "best_loop skip best b es = Some l" "b \<noteq> NaN"
    "\<And>l'. best = Some l' \<Longrightarrow> b = scoreLord l'"
  shows "\<not> scoreLord l < b \<and> (\<forall>e\<in>set es. \<not> skip e \<longrightarrow> \<not> scoreLord l < scoreLord (le_info e))"
  using assms
proof (induction es arbitrary: best b)
  case Nil
  then show ?case by auto
next
  case (Cons e es)
  show ?case
  proof (cases "skip e \<or> \<not> b < scoreLord (le_info e)")
    case True
    have rest: "best_loop skip best b es = Some l"
      using Cons.prems(1) unfolding best_loop_pass [of skip e b, OF True] .
    note IH = Cons.IH [OF rest Cons.prems(2,3)]
    moreover have "\<not> scoreLord l < scoreLord (le_info e)" if "\<not> skip e"
    proof (rule f64_not_less_trans [OF scoreLord_not_NaN Cons.prems(2) scoreLord_not_NaN])
      show "\<not> b < scoreLord (le_info e)" using True that by simp
      show "\<not> scoreLord l < b" using IH ..
    qed
    ultimately show ?thesis by simp
  next
    case False
    then have "best_loop skip (Some (le_info e)) (scoreLord (le_info e)) es = Some l"
      using Cons.prems(1) best_loop_take [of skip e b best es] by simp
    note IH = Cons.IH [OF this scoreLord_not_NaN]
    have IH: "\<not> scoreLord l < scoreLord (le_info e)"
      "\<forall>e\<in>set es. \<not> skip e \<longrightarrow> \<not> scoreLord l < scoreLord (le_info e)"
      using IH by simp_all
    have "\<not> scoreLord l < b" using IH(1) False f64_less_trans by blast
    with IH show ?thesis by simp
  qed
qed

lemma first_eligible_mem:
  "first_eligible es = Some l \<Longrightarrow>
     \<exists>e\<in>set es. le_healthy e \<and> \<not> le_drain_requested e \<and> le_info e = l"
  by (induction es rule: first_eligible.induct) (auto split: if_splits)

lemma first_eligible_None:
  "first_eligible es = None \<Longrightarrow> e \<in> set es \<Longrightarrow> \<not> le_healthy e \<or> le_drain_requested e"
  by (induction es rule: first_eligible.induct) (auto split: if_splits)

subsection \<open>The placement interface\<close>

text \<open>
  Both placement functions promise the same contract, whatever order the runtime iterates in:
  what they return is eligible, and they return nothing only when nothing is eligible.
\<close>

locale placement =
  fixes pick :: "lord_registry \<Rightarrow> string list \<Rightarrow> 'x option"
    and eligible :: "lord_registry \<Rightarrow> 'x \<Rightarrow> bool"
  assumes pick_sound: "lr_inv r \<Longrightarrow> iter_order (lr_byID r) ks \<Longrightarrow> pick r ks = Some x \<Longrightarrow> eligible r x"
    and pick_complete: "lr_inv r \<Longrightarrow> iter_order (lr_byID r) ks \<Longrightarrow> pick r ks = None \<Longrightarrow> \<not> eligible r x"
begin

lemma pick_None_iff:
  "lr_inv r \<Longrightarrow> iter_order (lr_byID r) ks \<Longrightarrow> pick r ks = None \<longleftrightarrow> (\<forall>x. \<not> eligible r x)"
  using pick_sound pick_complete by (metis option.exhaust)

lemma pick_order_irrelevant_None:
  "lr_inv r \<Longrightarrow> iter_order (lr_byID r) ks \<Longrightarrow> iter_order (lr_byID r) ls \<Longrightarrow>
     pick r ks = None \<longleftrightarrow> pick r ls = None"
  by (simp add: pick_None_iff)

lemma pick_unique:
  "lr_inv r \<Longrightarrow> iter_order (lr_byID r) ks \<Longrightarrow> eligible r x \<Longrightarrow> (\<And>y. eligible r y \<Longrightarrow> y = x) \<Longrightarrow>
     pick r ks = Some x"
  using pick_sound pick_complete by (metis option.exhaust)

end

definition placeable :: "lord_registry \<Rightarrow> lord \<Rightarrow> bool" where
  "placeable r l \<longleftrightarrow>
     (case lr_byID r (l_lord_id l) of
        Some e \<Rightarrow> le_info e = l \<and> le_healthy e \<and> \<not> le_drain_requested e
      | None \<Rightarrow> False)"

definition migration_target :: "string \<Rightarrow> lord_registry \<Rightarrow> string \<Rightarrow> bool" where
  "migration_target exclude r lid \<longleftrightarrow>
     lid \<noteq> exclude \<and> (\<exists>e. lr_byID r lid = Some e \<and> le_healthy e \<and> \<not> le_drain_requested e)"

text \<open>The empty string of \<open>PickDifferent\<close> read as no target.\<close>

definition pick_other :: "string \<Rightarrow> lord_registry \<Rightarrow> string list \<Rightarrow> string option" where
  "pick_other exclude r ks =
     (let lid = Lords_PickDifferent r ks exclude in if lid = '''' then None else Some lid)"

lemma placeable_mem:
  assumes "lr_inv r" "iter_order (lr_byID r) ks"
  shows "placeable r l \<longleftrightarrow>
    (\<exists>e\<in>set (go_values (lr_byID r) ks). le_healthy e \<and> \<not> le_drain_requested e \<and> le_info e = l)"
proof -
  have "l_lord_id (le_info e) = k" if "lr_byID r k = Some e" for k e
    using lr_inv_entry [OF assms(1) that] by (simp add: entry_ok_def)
  then show ?thesis
    unfolding placeable_def set_go_values_iter [OF assms(2)] ran_def
    by (auto split: option.splits)
qed

lemma Lords_Pick_sound:
  assumes "lr_inv r" "iter_order (lr_byID r) ks" "Lords_Pick r ks pref = Some l"
  shows "placeable r l"
proof -
  have "l_lord_id (le_info e) = k" if "lr_byID r k = Some e" for k e
    using lr_inv_entry [OF assms(1) that] by (simp add: entry_ok_def)
  then show ?thesis
    using assms(3) placeable_mem [OF assms(1,2), of l]
    by (auto simp: Lords_Pick_def Let_def split: option.splits if_splits
        dest!: best_loop_mem first_eligible_mem) (auto simp: placeable_def)
qed

lemma Lords_Pick_complete:
  assumes "lr_inv r" "iter_order (lr_byID r) ks" "Lords_Pick r ks pref = None"
  shows "\<not> placeable r l"
  using assms(3) scoreLord_gt_m1 unfolding placeable_mem [OF assms(1,2)]
  by (auto simp: Lords_Pick_def Let_def split: option.splits if_splits
      dest!: best_loop_None dest: first_eligible_None)

interpretation place: placement "\<lambda>r ks. Lords_Pick r ks pref" placeable
  by unfold_locales (auto intro: Lords_Pick_sound dest: Lords_Pick_complete)

lemma pick_other_loop:
  assumes "lr_inv r" "iter_order (lr_byID r) ks"
  shows "pick_other exclude r ks = map_option l_lord_id
     (best_loop (\<lambda>e. (\<not> le_healthy e \<or> le_drain_requested e) \<or> l_lord_id (le_info e) = exclude)
        None (Fin (- 1)) (go_values (lr_byID r) ks))"
proof -
  have "l_lord_id (le_info e) \<noteq> ''''" if "e \<in> set (go_values (lr_byID r) ks)" for e
    using that lr_inv_entry [OF assms(1)] set_go_values_iter [OF assms(2)]
    by (auto simp: ran_def entry_ok_def)
  then show ?thesis
    by (auto simp: pick_other_def Lords_PickDifferent_def split: option.split dest!: best_loop_mem)
qed

lemma migration_target_mem:
  assumes "lr_inv r" "iter_order (lr_byID r) ks"
  shows "migration_target exclude r lid \<longleftrightarrow>
    (\<exists>e\<in>set (go_values (lr_byID r) ks). le_healthy e \<and> \<not> le_drain_requested e \<and>
       l_lord_id (le_info e) \<noteq> exclude \<and> l_lord_id (le_info e) = lid)"
proof -
  have "l_lord_id (le_info e) = k" if "lr_byID r k = Some e" for k e
    using lr_inv_entry [OF assms(1) that] by (simp add: entry_ok_def)
  then show ?thesis
    unfolding migration_target_def set_go_values_iter [OF assms(2)] ran_def by blast
qed

lemma pick_other_sound:
  assumes "lr_inv r" "iter_order (lr_byID r) ks" "pick_other exclude r ks = Some lid"
  shows "migration_target exclude r lid"
  using assms(3) unfolding pick_other_loop [OF assms(1,2)] migration_target_mem [OF assms(1,2)]
  by (auto dest!: best_loop_mem)

lemma pick_other_complete:
  assumes "lr_inv r" "iter_order (lr_byID r) ks" "pick_other exclude r ks = None"
  shows "\<not> migration_target exclude r lid"
  using assms(3) scoreLord_gt_m1
  unfolding pick_other_loop [OF assms(1,2)] migration_target_mem [OF assms(1,2)]
  by (auto dest!: best_loop_None)

interpretation other: placement "pick_other exclude" "migration_target exclude"
  by unfold_locales (auto intro: pick_other_sound dest: pick_other_complete)

lemma Pick_weighted_max:
  assumes "lr_inv r" "iter_order (lr_byID r) ks" "lr_algo r = ''weighted''"
    and "Lords_Pick r ks pref = Some l"
    and "l_lord_id l \<noteq> pref" "placeable r l'"
  shows "\<not> scoreLord l < scoreLord l'"
proof -
  have "l_lord_id (le_info e) = k" if "lr_byID r k = Some e" for k e
    using lr_inv_entry [OF assms(1) that] by (simp add: entry_ok_def)
  then have "best_loop (\<lambda>e. \<not> le_healthy e \<or> le_drain_requested e) None (Fin (- 1))
      (go_values (lr_byID r) ks) = Some l"
    using assms(3-5) by (auto simp: Lords_Pick_def Let_def split: option.splits if_splits)
  from best_loop_max [OF this] show ?thesis
    using assms(6) unfolding placeable_mem [OF assms(1,2)] by auto
qed

subsection \<open>The sweep\<close>

definition swept :: "time \<Rightarrow> duration \<Rightarrow> lord_entry \<Rightarrow> bool" where
  "swept now ttl e \<longleftrightarrow> ttl < time_Sub now (le_last_heartbeat e) \<and> le_healthy e"

definition unhealthy_entry :: "lord_entry \<Rightarrow> lord_entry" where
  "unhealthy_entry e = e\<lparr>le_healthy := False, le_info := (le_info e)\<lparr>l_healthy := False\<rparr>\<rparr>"

lemma swept_unhealthy [simp]: "\<not> swept now ttl (unhealthy_entry e)"
  by (simp add: swept_def unhealthy_entry_def)

lemma byID_MarkUnhealthy:
  "lr_byID (Lords_MarkUnhealthy lid r) k =
     (if k = lid then map_option unhealthy_entry (lr_byID r k) else lr_byID r k)"
  by (auto simp: Lords_MarkUnhealthy_def unhealthy_entry_def split: option.split)

lemma sweep_loop_Cons:
  "sweep_loop now ttl (lid # ks) lost r =
     (if (\<exists>e. lr_byID r lid = Some e \<and> swept now ttl e)
      then sweep_loop now ttl ks (lost @ [lid]) (Lords_MarkUnhealthy lid r)
      else sweep_loop now ttl ks lost r)"
  by (auto simp: swept_def split: option.split)

lemma sweep_loop_byID:
  "lr_byID (snd (sweep_loop now ttl ks lost r)) k =
     map_option (\<lambda>e. if k \<in> set ks \<and> swept now ttl e then unhealthy_entry e else e) (lr_byID r k)"
proof (induction ks arbitrary: lost r)
  case (Cons lid ks)
  then show ?case
    unfolding sweep_loop_Cons
    by (cases "lr_byID r k") (auto simp: byID_MarkUnhealthy)
qed (simp add: option.map_ident)

lemma sweep_loop_lost:
  "distinct ks \<Longrightarrow>
     fst (sweep_loop now ttl ks lost r) =
     lost @ filter (\<lambda>k. \<exists>e. lr_byID r k = Some e \<and> swept now ttl e) ks"
proof (induction ks arbitrary: lost r)
  case (Cons lid ks)
  have "filter (\<lambda>k. \<exists>e. lr_byID (Lords_MarkUnhealthy lid r) k = Some e \<and> swept now ttl e) ks =
        filter (\<lambda>k. \<exists>e. lr_byID r k = Some e \<and> swept now ttl e) ks"
    using Cons.prems by (intro filter_cong refl) (auto simp: byID_MarkUnhealthy)
  then show ?case using Cons unfolding sweep_loop_Cons by simp
qed simp

lemma sweep_algo [frame_simps]:
  "lr_algo (snd (Lords_SweepHeartbeats now ttl ks r)) = lr_algo r"
proof -
  have "lr_algo (snd (sweep_loop now ttl ks lost r)) = lr_algo r" for lost
    by (induction now ttl ks lost r rule: sweep_loop.induct)
      (auto simp: Lords_MarkUnhealthy_def split: option.splits)
  then show ?thesis by (simp add: Lords_SweepHeartbeats_def)
qed

lemma sweep_byID:
  assumes "iter_order (lr_byID r) ks"
  shows "lr_byID (snd (Lords_SweepHeartbeats now ttl ks r)) k =
    map_option (\<lambda>e. if swept now ttl e then unhealthy_entry e else e) (lr_byID r k)"
  using assms by (cases "lr_byID r k")
    (auto simp: Lords_SweepHeartbeats_def sweep_loop_byID iter_order_def)

lemma sweep_lost:
  assumes "iter_order (lr_byID r) ks"
  shows "distinct (fst (Lords_SweepHeartbeats now ttl ks r))"
    "set (fst (Lords_SweepHeartbeats now ttl ks r)) =
       {k. \<exists>e. lr_byID r k = Some e \<and> swept now ttl e}"
  using assms by (auto simp: Lords_SweepHeartbeats_def sweep_loop_lost iter_order_def)

subsection \<open>Properties\<close>

text \<open>Instances for the witnesses.\<close>

definition demo_lord :: "string \<Rightarrow> int \<Rightarrow> lord" where
  "demo_lord lid cpu = zero_lord\<lparr>l_lord_id := lid, l_hostname := lid @ ''-host'', l_healthy := True,
     l_cpu_used_pct := word_of_int cpu, l_advertised_mem_bytes := 1000, l_mem_used_bytes := 500\<rparr>"

definition demo_registry :: lord_registry where
  "demo_registry = Lords_Register 5 (demo_lord ''b'' 20) (Lords_Register 3 (demo_lord ''a'' 80)
     (NewLordRegistry ''weighted''))"

lemma demo_registry_inv: "lr_inv demo_registry"
  unfolding demo_registry_def by (intro inv_intros) (simp_all add: demo_lord_def)

lemma demo_registry_order: "iter_order (lr_byID demo_registry) [''a'', ''b'']"
  by (auto simp: iter_order_def demo_registry_def Lords_Register_def NewLordRegistry_def
      demo_lord_def)

text \<open>C1: placement is sound and complete for every iteration order of the map: \<open>Pick\<close> returns
  a registered, healthy, not draining lord, and returns nil only when no lord qualifies.\<close>

theorem Pick_sound_complete:
  assumes "lr_inv r" "iter_order (lr_byID r) ks"
  shows "(case Lords_Pick r ks pref of
            Some l \<Rightarrow> placeable r l
          | None \<Rightarrow> (\<forall>l. \<not> placeable r l))"
  using place.pick_sound [OF assms] place.pick_complete [OF assms] by (auto split: option.split)

theorem Pick_sound_complete_witness:
  "case Lords_Pick demo_registry [''a'', ''b''] ''a'' of
     Some l \<Rightarrow> placeable demo_registry l
   | None \<Rightarrow> (\<forall>l. \<not> placeable demo_registry l)"
  by (rule Pick_sound_complete [OF demo_registry_inv demo_registry_order])

text \<open>C29: the weighted algorithm is optimal: unless the preferred lord is taken, no placeable
  lord scores strictly higher than the one chosen, whatever the iteration order.\<close>

theorem Pick_weighted_optimal:
  assumes "lr_inv r" "iter_order (lr_byID r) ks" "lr_algo r = ''weighted''"
    and "Lords_Pick r ks pref = Some l"
    and "l_lord_id l \<noteq> pref" "placeable r l'"
  shows "\<not> scoreLord l < scoreLord l'"
  using assms by (rule Pick_weighted_max)

theorem Pick_weighted_optimal_witness:
  "\<not> scoreLord (demo_lord ''b'' 20) < scoreLord (demo_lord ''a'' 80)"
  by (rule Pick_weighted_optimal [OF demo_registry_inv demo_registry_order,
        where pref = "''''"]) code_simp+

text \<open>Soft affinity: a preferred lord that is healthy, not draining and has capacity is
  always the one picked.\<close>

theorem Pick_affinity:
  assumes "pref \<noteq> ''''" "lr_byID r pref = Some e" "le_healthy e" "\<not> le_drain_requested e"
    and "sint (l_cpu_used_pct (le_info e)) < 100"
    and "sint (l_advertised_mem_bytes (le_info e)) \<le> 0 \<or>
         sint (l_mem_used_bytes (le_info e)) < sint (l_advertised_mem_bytes (le_info e))"
  shows "Lords_Pick r ks pref = Some (le_info e)"
  using assms by (auto simp: Lords_Pick_def hasCapacity_def Let_def)

theorem Pick_affinity_witness:
  "Lords_Pick demo_registry [''a'', ''b''] ''a'' = Some (demo_lord ''a'' 80)"
proof -
  obtain e where e: "e = \<lparr>le_info = demo_lord ''a'' 80, le_last_heartbeat = 3, le_healthy = True,
      le_drain_requested = False\<rparr>" by simp
  have "Lords_Pick demo_registry [''a'', ''b''] ''a'' = Some (le_info e)"
    unfolding e by (rule Pick_affinity) (simp_all add: demo_registry_def Lords_Register_def demo_lord_def
      NewLordRegistry_def)
  then show ?thesis by (simp add: e)
qed

text \<open>For a process count a lord can really have, the score is a float between 0 and 1, as
  the comment of \<open>scoreLord\<close> promises, for all values of the other statistics.\<close>

theorem scoreLord_range:
  assumes "0 \<le> sint (l_active_processes l)" "sint (l_active_processes l) < 2 ^ 31 - 1"
  shows "f64_unit (scoreLord l)"
  using assms by (rule scoreLord_in_unit)

theorem scoreLord_range_witness: "f64_unit (scoreLord (demo_lord ''a'' 80))"
  by (rule scoreLord_range) (simp_all add: demo_lord_def zero_lord_def)

text \<open>The statistics are not validated: a heartbeat that reports -1 active processes gives
  an infinite score, and that lord is taken by the weighted algorithm over every lord whose
  count is a real one.\<close>

theorem scoreLord_minus_one:
  assumes "lr_inv r" "iter_order (lr_byID r) ks" "lr_algo r = ''weighted''"
    and "placeable r l'" "l_active_processes l' = - 1"
    and "Lords_Pick r ks '''' = Some l"
  shows "sint (l_active_processes l) < 0 \<or> sint (l_active_processes l) = 2 ^ 31 - 1"
proof (rule ccontr)
  assume "\<not> ?thesis"
  then have "0 \<le> sint (l_active_processes l)" "sint (l_active_processes l) < 2 ^ 31 - 1"
    using sint_i32_bounds [of "l_active_processes l"] by auto
  then have unit: "f64_unit (scoreLord l)" by (rule scoreLord_in_unit)
  have "scoreLord l' = PInf"
    using assms(5) by (cases rule: scoreLord_cases [of l']) auto
  moreover have "l_lord_id l \<noteq> ''''"
    using Lords_Pick_sound [OF assms(1,2,6)] lr_inv_entry [OF assms(1), of "l_lord_id l"]
    by (auto simp: placeable_def entry_ok_def split: option.splits)
  then have "\<not> scoreLord l < scoreLord l'"
    using assms by (intro Pick_weighted_max [where pref = "''''"])
  ultimately show False using unit by (auto simp: f64_unit_def split: f64.splits)
qed

theorem scoreLord_minus_one_witness:
  "sint (l_active_processes ((demo_lord ''b'' 20)\<lparr>l_active_processes := - 1\<rparr>)) < 0 \<or>
   sint (l_active_processes ((demo_lord ''b'' 20)\<lparr>l_active_processes := - 1\<rparr>)) = 2 ^ 31 - 1"
proof -
  let ?l = "(demo_lord ''b'' 20)\<lparr>l_active_processes := - 1\<rparr>"
  let ?r = "Lords_Register 5 ?l (NewLordRegistry ''weighted'')"
  have r: "lr_inv ?r" "iter_order (lr_byID ?r) [''b'']"
    by (intro inv_intros; simp add: demo_lord_def)
      (auto simp: iter_order_def Lords_Register_def NewLordRegistry_def demo_lord_def)
  have e: "lr_byID ?r = [''b'' \<mapsto> \<lparr>le_info = ?l, le_last_heartbeat = 5, le_healthy = True,
      le_drain_requested = False\<rparr>]" "lr_algo ?r = ''weighted''"
    by (simp_all add: Lords_Register_def NewLordRegistry_def demo_lord_def)
  show ?thesis
    by (rule scoreLord_minus_one [OF r e(2), where l' = ?l])
      (simp_all add: e placeable_def Lords_Pick_def go_values_def Let_def scoreLord_gt_m1,
       simp_all add: demo_lord_def)
qed

text \<open>The migration target is never the excluded lord, is registered, healthy and not
  draining, and the empty id is returned only when there is no such lord.\<close>

theorem PickDifferent_sound_complete:
  assumes "lr_inv r" "iter_order (lr_byID r) ks"
  shows "(if Lords_PickDifferent r ks exclude = '''' then (\<forall>lid. \<not> migration_target exclude r lid)
          else migration_target exclude r (Lords_PickDifferent r ks exclude))"
  using other.pick_sound [OF assms, of exclude] other.pick_complete [OF assms, of exclude]
  by (auto simp: pick_other_def Let_def)

theorem PickDifferent_sound_complete_witness:
  "if Lords_PickDifferent demo_registry [''a'', ''b''] ''b'' = ''''
   then (\<forall>lid. \<not> migration_target ''b'' demo_registry lid)
   else migration_target ''b'' demo_registry (Lords_PickDifferent demo_registry [''a'', ''b''] ''b'')"
  by (rule PickDifferent_sound_complete [OF demo_registry_inv demo_registry_order])

text \<open>C37: one sweep marks exactly the healthy lords whose last heartbeat is older than the TTL,
  in both flags, touches nothing else, and reports each of them once.\<close>

theorem SweepHeartbeats_exact:
  assumes "iter_order (lr_byID r) ks"
  shows "case Lords_SweepHeartbeats now ttl ks r of (lost, r') \<Rightarrow>
    distinct lost \<and>
    set lost = {k. \<exists>e. lr_byID r k = Some e \<and> swept now ttl e} \<and>
    (\<forall>k. lr_byID r' k =
       map_option (\<lambda>e. if swept now ttl e then unhealthy_entry e else e) (lr_byID r k)) \<and>
    lr_algo r' = lr_algo r"
  using sweep_lost [OF assms, of now ttl] sweep_byID [OF assms, of now ttl]
    sweep_algo [of now ttl ks r]
  by (simp add: case_prod_beta)

theorem SweepHeartbeats_exact_witness:
  "set (fst (Lords_SweepHeartbeats 30 10 [''a'', ''b''] demo_registry)) =
     {k. \<exists>e. lr_byID demo_registry k = Some e \<and> swept 30 10 e}"
  using SweepHeartbeats_exact [OF demo_registry_order, of 30 10] by (simp add: case_prod_beta)

text \<open>A heartbeat after the sweep revives the internal flag only: the lord is placed on and
  listed again, but the message clients see keeps saying that it is not healthy.\<close>

theorem heartbeat_leaves_info_unhealthy:
  assumes "iter_order (lr_byID r) ks" "lr_byID r lid = Some e" "swept now ttl e"
  shows "\<exists>e'. lr_byID (snd (Lords_UpdateStats now' lid cpu mem procs
                (snd (Lords_SweepHeartbeats now ttl ks r)))) lid = Some e' \<and>
           le_healthy e' \<and> \<not> l_healthy (le_info e')"
  using assms by (simp add: Lords_UpdateStats_def sweep_byID unhealthy_entry_def)

theorem heartbeat_leaves_info_unhealthy_witness:
  "\<exists>e'. lr_byID (snd (Lords_UpdateStats 31 ''a'' 1 2 3
          (snd (Lords_SweepHeartbeats 30 10 [''a'', ''b''] demo_registry)))) ''a'' = Some e' \<and>
        le_healthy e' \<and> \<not> l_healthy (le_info e')"
  by (rule heartbeat_leaves_info_unhealthy [OF demo_registry_order,
        where e = "\<lparr>le_info = demo_lord ''a'' 80, le_last_heartbeat = 3, le_healthy = True,
          le_drain_requested = False\<rparr>"])
    (simp_all add: demo_registry_def Lords_Register_def demo_lord_def swept_def time_simps)

end
