(* ===== verification/Ring_Buffer.thy ===== *)
theory Ring_Buffer
  imports Prelude
begin

section \<open>The output ring buffer of a process\<close>

text \<open>
  Type \<open>ringBuffer\<close> of process_table.go: a byte slice of fixed length, the write offset and the
  flag that the buffer has been filled once. The operations are \<open>Write\<close>, \<open>Bytes\<close>, \<open>Total\<close> and
  \<open>SinceOffset\<close>; the reader of a live stream polls \<open>SinceOffset\<close> with the last total it saw.

  The lemmas give the invariant, the contents after every kind of write as a function of the
  contents before it, the faithfulness of polling until the buffer has been filled, and what
  happens to the bytes of a write that crosses the end and to polling afterwards.
\<close>

subsection \<open>Go's slices\<close>

text \<open>\<open>copy (dst[at:], src)\<close>: as many bytes as both sides have; the count is the result.\<close>

definition go_copy :: "'a list \<Rightarrow> nat \<Rightarrow> 'a list \<Rightarrow> 'a list \<times> nat" where
  "go_copy dst at src =
     (let n = min (length dst - at) (length src)
      in (take at dst @ take n src @ drop (at + n) dst, n))"

lemma length_go_copy [simp]:
  "at \<le> length dst \<Longrightarrow> length (fst (go_copy dst at src)) = length dst"
  by (simp add: go_copy_def Let_def)

lemma go_copy_fits:
  "at + length src \<le> length dst \<Longrightarrow>
   go_copy dst at src = (take at dst @ src @ drop (at + length src) dst, length src)"
  by (auto simp: go_copy_def Let_def min_def)

lemma go_copy_crosses:
  "at \<le> length dst \<Longrightarrow> length dst \<le> at + length src \<Longrightarrow>
   go_copy dst at src = (take at dst @ take (length dst - at) src, length dst - at)"
  by (auto simp: go_copy_def Let_def min_def)

subsection \<open>State and operations\<close>

record ring_buffer =
  rb_data :: "byte list"
  rb_off :: nat
  rb_full :: bool
  rb_cap :: nat

definition newRingBuffer :: "nat \<Rightarrow> ring_buffer" where
  "newRingBuffer capBytes =
     \<lparr>rb_data = replicate capBytes 0, rb_off = 0, rb_full = False, rb_cap = capBytes\<rparr>"

definition rb_Write :: "ring_buffer \<Rightarrow> byte list \<Rightarrow> ring_buffer" where
  "rb_Write r p =
     (if rb_cap r \<le> length p then
        r\<lparr>rb_data := fst (go_copy (rb_data r) 0 (drop (length p - rb_cap r) p)),
          rb_full := True, rb_off := 0\<rparr>
      else
        let (d, n) = go_copy (rb_data r) (rb_off r) p in
        if rb_cap r \<le> rb_off r + n
        then r\<lparr>rb_data := d, rb_full := True, rb_off := (rb_off r + n) mod rb_cap r\<rparr>
        else r\<lparr>rb_data := d, rb_off := rb_off r + n\<rparr>)"

definition rb_Bytes :: "ring_buffer \<Rightarrow> byte list" where
  "rb_Bytes r =
     (if \<not> rb_full r then take (rb_off r) (rb_data r)
      else drop (rb_off r) (rb_data r) @ take (rb_off r) (rb_data r))"

definition rb_Total :: "ring_buffer \<Rightarrow> int" where
  "rb_Total r = (if rb_full r then int (rb_cap r) * 2 else int (rb_off r))"

definition rb_SinceOffset :: "ring_buffer \<Rightarrow> int \<Rightarrow> byte list \<times> int" where
  "rb_SinceOffset r lastTotal =
     (let cur = (if rb_full r then int (rb_cap r) * 2 else int (rb_off r)) in
      if cur \<le> lastTotal then ([], lastTotal)
      else
        let added = min (cur - lastTotal) (int (rb_cap r));
            start = nat ((cur - added) mod int (rb_cap r));
            stop = nat (cur mod int (rb_cap r)) in
        if start < stop then (take (stop - start) (drop start (rb_data r)), cur)
        else (drop start (rb_data r) @ take stop (rb_data r), cur))"

subsection \<open>Invariant\<close>

definition rb_inv :: "ring_buffer \<Rightarrow> bool" where
  "rb_inv r \<longleftrightarrow> 0 < rb_cap r \<and> length (rb_data r) = rb_cap r \<and> rb_off r < rb_cap r"

lemma rb_inv_new [inv_intros]: "0 < n \<Longrightarrow> rb_inv (newRingBuffer n)"
  by (simp add: rb_inv_def newRingBuffer_def)

lemma rb_cap_Write [frame_simps, simp]: "rb_cap (rb_Write r p) = rb_cap r"
  by (simp add: rb_Write_def Let_def split: prod.split)

subsection \<open>What a write leaves in the buffer\<close>

text \<open>The last \<open>n\<close> elements of a list.\<close>

definition last_n :: "nat \<Rightarrow> 'a list \<Rightarrow> 'a list" where
  "last_n n xs = drop (length xs - n) xs"

lemma last_n_short [simp]: "length xs \<le> n \<Longrightarrow> last_n n xs = xs"
  by (simp add: last_n_def)

lemma last_n_appstoplong: "n \<le> length ys \<Longrightarrow> last_n n (xs @ ys) = last_n n ys"
  by (simp add: last_n_def)

lemma last_n_appstopshort:
  "length ys \<le> n \<Longrightarrow> last_n n (xs @ ys) = last_n (n - length ys) xs @ ys"
  by (simp add: last_n_def)

lemma last_n_last_n: "last_n n (last_n n xs @ ys) = last_n n (xs @ ys)"
  by (cases "length xs \<le> n") (simp_all add: last_n_def, metis add.commute)

text \<open>
  The bytes of a write the buffer really stores: everything, unless the write is shorter than the
  capacity and crosses the end of the slice; then only the part before the end.
\<close>

definition rb_accepted :: "ring_buffer \<Rightarrow> byte list \<Rightarrow> byte list" where
  "rb_accepted r p =
     (if rb_cap r \<le> length p then p else take (rb_cap r - rb_off r) p)"

lemma rb_Write_fits:
  assumes "rb_inv r" "rb_off r + length p < rb_cap r"
  shows "rb_Write r p =
     r\<lparr>rb_data := take (rb_off r) (rb_data r) @ p @ drop (rb_off r + length p) (rb_data r),
       rb_off := rb_off r + length p\<rparr>"
proof -
  have "go_copy (rb_data r) (rb_off r) p =
      (take (rb_off r) (rb_data r) @ p @ drop (rb_off r + length p) (rb_data r), length p)"
    using assms by (intro go_copy_fits) (simp add: rb_inv_def)
  then show ?thesis using assms by (simp add: rb_Write_def)
qed

lemma rb_Write_crosses:
  assumes "rb_inv r" "length p < rb_cap r" "rb_cap r \<le> rb_off r + length p"
  shows "rb_Write r p =
     r\<lparr>rb_data := take (rb_off r) (rb_data r) @ take (rb_cap r - rb_off r) p,
       rb_full := True, rb_off := 0\<rparr>"
proof -
  have "go_copy (rb_data r) (rb_off r) p =
      (take (rb_off r) (rb_data r) @ take (rb_cap r - rb_off r) p, rb_cap r - rb_off r)"
    using assms go_copy_crosses [of "rb_off r" "rb_data r" p] by (simp add: rb_inv_def)
  then show ?thesis using assms by (simp add: rb_Write_def rb_inv_def)
qed

lemma rb_Write_long:
  assumes "rb_inv r" "rb_cap r \<le> length p"
  shows "rb_Write r p =
     r\<lparr>rb_data := last_n (rb_cap r) p, rb_full := True, rb_off := 0\<rparr>"
  using assms by (simp add: rb_Write_def go_copy_def rb_inv_def last_n_def Let_def)

lemmas rb_Write_cases = rb_Write_fits rb_Write_crosses rb_Write_long

lemma rb_inv_Write [inv_intros]:
  assumes "rb_inv r"
  shows "rb_inv (rb_Write r p)"
proof -
  consider (long) "rb_cap r \<le> length p"
    | (crosses) "length p < rb_cap r" "rb_cap r \<le> rb_off r + length p"
    | (fits) "rb_off r + length p < rb_cap r" by linarith
  then show ?thesis
    by cases (use assms in \<open>simp_all add: rb_Write_cases, auto simp: rb_inv_def last_n_def\<close>)
qed

lemma length_rb_Bytes:
  "rb_inv r \<Longrightarrow> length (rb_Bytes r) = (if rb_full r then rb_cap r else rb_off r)"
  by (simp add: rb_Bytes_def rb_inv_def)

text \<open>
  The contents after a write are the last \<open>cap\<close> bytes of the contents before it followed by the
  accepted bytes.
\<close>

lemma rb_Bytes_Write:
  assumes inv: "rb_inv r"
  shows "rb_Bytes (rb_Write r p) = last_n (rb_cap r) (rb_Bytes r @ rb_accepted r p)"
proof -
  have len: "length (rb_data r) = rb_cap r" and off: "rb_off r < rb_cap r"
    using inv by (simp_all add: rb_inv_def)
  consider (long) "rb_cap r \<le> length p"
    | (crosses) "length p < rb_cap r" "rb_cap r \<le> rb_off r + length p"
    | (fits) "rb_off r + length p < rb_cap r" by linarith
  then show ?thesis
  proof cases
    case long
    then show ?thesis
      using rb_Write_long [OF inv long]
      by (simp add: rb_Bytes_def rb_accepted_def last_n_appstoplong)
  next
    case crosses
    have acc: "rb_accepted r p = take (rb_cap r - rb_off r) p"
      using crosses by (simp add: rb_accepted_def)
    have lacc: "length (rb_accepted r p) = rb_cap r - rb_off r"
      using crosses acc by simp
    have "last_n (rb_off r) (rb_Bytes r) = take (rb_off r) (rb_data r)"
      using len off by (simp add: rb_Bytes_def last_n_def)
    then have "last_n (rb_cap r) (rb_Bytes r @ rb_accepted r p) =
        take (rb_off r) (rb_data r) @ rb_accepted r p"
      using lacc off by (subst last_n_appstopshort) auto
    then show ?thesis
      using rb_Write_crosses [OF inv crosses] acc by (simp add: rb_Bytes_def)
  next
    case fits
    then have acc: "rb_accepted r p = p" by (simp add: rb_accepted_def)
    show ?thesis
    proof (cases "rb_full r")
      case False
      then show ?thesis
        using rb_Write_fits [OF inv fits] fits len acc by (simp add: rb_Bytes_def)
    next
      case True
      have "last_n (rb_cap r) (rb_Bytes r @ p) = last_n (rb_cap r - length p) (rb_Bytes r) @ p"
        using fits by (intro last_n_appstopshort) simp
      also have "last_n (rb_cap r - length p) (rb_Bytes r) =
          drop (rb_off r + length p) (rb_data r) @ take (rb_off r) (rb_data r)"
        using True len off fits
        by (simp add: rb_Bytes_def last_n_def) (metis add.commute)
      finally show ?thesis
        using rb_Write_fits [OF inv fits] True fits len acc
        by (simp add: rb_Bytes_def)
    qed
  qed
qed

subsection \<open>The interface of a bounded tail\<close>

text \<open>
  What the handler of an output chunk and the non-following reader rely on: a write keeps the
  invariant and the capacity, and the contents are the last \<open>cap\<close> bytes of what was accepted.
\<close>

locale bounded_tail =
  fixes put :: "'b \<Rightarrow> 'a list \<Rightarrow> 'b"
    and contents :: "'b \<Rightarrow> 'a list"
    and accepted :: "'b \<Rightarrow> 'a list \<Rightarrow> 'a list"
    and capacity :: "'b \<Rightarrow> nat"
    and good :: "'b \<Rightarrow> bool"
  assumes good_write: "good b \<Longrightarrow> good (put b p)"
    and capacity_write: "capacity (put b p) = capacity b"
    and contents_write:
      "good b \<Longrightarrow> contents (put b p) = last_n (capacity b) (contents b @ accepted b p)"
    and contents_bound: "good b \<Longrightarrow> length (contents b) \<le> capacity b"
begin

fun writes :: "'b \<Rightarrow> 'a list list \<Rightarrow> 'b" where
  "writes b [] = b"
| "writes b (p # ps) = writes (put b p) ps"

fun accepted_all :: "'b \<Rightarrow> 'a list list \<Rightarrow> 'a list" where
  "accepted_all b [] = []"
| "accepted_all b (p # ps) = accepted b p @ accepted_all (put b p) ps"

lemma good_writes: "good b \<Longrightarrow> good (writes b ps)"
  by (induction ps arbitrary: b) (auto intro: good_write)

lemma capacity_writes: "capacity (writes b ps) = capacity b"
  by (induction ps arbitrary: b) (auto simp: capacity_write)

lemma contents_writes:
  "good b \<Longrightarrow> contents (writes b ps) = last_n (capacity b) (contents b @ accepted_all b ps)"
proof (induction ps arbitrary: b)
  case Nil
  then show ?case by (simp add: contents_bound)
next
  case (Cons p ps)
  then have "contents (writes b (p # ps)) =
      last_n (capacity b) (last_n (capacity b) (contents b @ accepted b p) @
        accepted_all (put b p) ps)"
    by (simp add: good_write capacity_write contents_write)
  then show ?case by (simp add: last_n_last_n)
qed

end

interpretation rbuf: bounded_tail rb_Write rb_Bytes rb_accepted rb_cap rb_inv
proof unfold_locales
  fix b :: ring_buffer and p
  show "rb_inv b \<Longrightarrow> rb_inv (rb_Write b p)" by (rule rb_inv_Write)
  show "rb_cap (rb_Write b p) = rb_cap b" by simp
  show "rb_inv b \<Longrightarrow> rb_Bytes (rb_Write b p) = last_n (rb_cap b) (rb_Bytes b @ rb_accepted b p)"
    by (rule rb_Bytes_Write)
  show "rb_inv b \<Longrightarrow> length (rb_Bytes b) \<le> rb_cap b"
    by (auto simp: length_rb_Bytes rb_inv_def)
qed

subsection \<open>Polling\<close>

lemma rb_SinceOffset_unfilled:
  assumes "rb_inv r" "\<not> rb_full r" "0 \<le> t" "t \<le> int (rb_off r)"
  shows "rb_SinceOffset r t = (drop (nat t) (rb_Bytes r), int (rb_off r))"
proof (cases "int (rb_off r) \<le> t")
  case True
  then show ?thesis using assms by (simp add: rb_SinceOffset_def rb_Bytes_def)
next
  case False
  have "(int (rb_off r)) mod int (rb_cap r) = int (rb_off r)" "t mod int (rb_cap r) = t"
    using assms False by (simp_all add: rb_inv_def)
  then show ?thesis
    using assms False
    by (simp add: rb_SinceOffset_def rb_Bytes_def Let_def rb_inv_def drop_take min_def
        nat_less_iff)
qed

lemma rb_SinceOffset_filled:
  assumes "rb_inv r" "rb_full r" "0 \<le> t" "t \<le> int (rb_cap r)"
  shows "rb_SinceOffset r t = (rb_data r, 2 * int (rb_cap r))"
  using assms by (simp add: rb_SinceOffset_def Let_def rb_inv_def min_def)

lemma rb_SinceOffset_stalled:
  "rb_full r \<Longrightarrow> 2 * int (rb_cap r) \<le> t \<Longrightarrow> rb_SinceOffset r t = ([], t)"
  by (simp add: rb_SinceOffset_def)

lemma rb_full_Write: "rb_full r \<Longrightarrow> rb_full (rb_Write r p)"
  by (simp add: rb_Write_def Let_def split: prod.split)

text \<open>
  The follow loop of \<open>StreamProcessIO\<close> on one buffer: between two ticks the process writes some
  chunks, at the tick the reader asks for what is new.
\<close>

fun rb_follow :: "ring_buffer \<Rightarrow> int \<Rightarrow> byte list list list \<Rightarrow> byte list" where
  "rb_follow r lastTotal [] = []"
| "rb_follow r lastTotal (ps # pss) =
     (let r' = fold (\<lambda>p b. rb_Write b p) ps r;
          (d, newTotal) = rb_SinceOffset r' lastTotal
      in d @ rb_follow r' newTotal pss)"

lemma rb_writes_unfilled:
  assumes "rb_inv r" "\<not> rb_full r" "rb_off r + length (concat ps) < rb_cap r"
  defines "r' \<equiv> fold (\<lambda>p b. rb_Write b p) ps r"
  shows "rb_inv r' \<and> \<not> rb_full r' \<and> rb_cap r' = rb_cap r \<and>
         rb_off r' = rb_off r + length (concat ps) \<and> rb_Bytes r' = rb_Bytes r @ concat ps"
  using assms(1-3) unfolding r'_def
proof (induction ps arbitrary: r)
  case (Cons p ps)
  have fits: "rb_off r + length p < rb_cap r" using Cons.prems by simp
  note w = rb_Write_fits [OF Cons.prems(1) fits]
  have acc: "rb_accepted r p = p" using fits by (simp add: rb_accepted_def)
  have B: "rb_Bytes (rb_Write r p) = rb_Bytes r @ p"
    using rb_Bytes_Write [OF Cons.prems(1), of p] Cons.prems fits
    by (simp add: acc length_rb_Bytes)
  have "rb_off (rb_Write r p) = rb_off r + length p" "\<not> rb_full (rb_Write r p)"
    using w Cons.prems by simp_all
  then show ?case
    using Cons.IH [of "rb_Write r p"] Cons.prems B by (simp add: rb_inv_Write add.assoc)
qed simp

lemma rb_follow_unfilled:
  assumes "rb_inv r" "\<not> rb_full r" "t \<le> rb_off r"
    and "rb_off r + length (concat (concat pss)) < rb_cap r"
    and "pss \<noteq> []"
  shows "rb_follow r (int t) pss = drop t (rb_Bytes r) @ concat (concat pss)"
  using assms
proof (induction pss arbitrary: r t)
  case (Cons ps pss)
  let ?r = "fold (\<lambda>p b. rb_Write b p) ps r"
  have w: "rb_inv ?r" "\<not> rb_full ?r" "rb_cap ?r = rb_cap r"
    "rb_off ?r = rb_off r + length (concat ps)" "rb_Bytes ?r = rb_Bytes r @ concat ps"
    using rb_writes_unfilled [of r ps] Cons.prems by auto
  have lenB: "length (rb_Bytes r) = rb_off r"
    using Cons.prems length_rb_Bytes [of r] by simp
  have "rb_SinceOffset ?r (int t) = (drop t (rb_Bytes ?r), int (rb_off ?r))"
    using rb_SinceOffset_unfilled [of ?r "int t"] w Cons.prems by simp
  moreover have "rb_follow ?r (int (rb_off ?r)) pss = concat (concat pss)"
  proof (cases "pss = []")
    case False
    have "length (rb_Bytes ?r) = rb_off ?r" using w length_rb_Bytes [of ?r] by simp
    then show ?thesis
      using Cons.IH [of ?r "rb_off ?r"] w Cons.prems False by simp
  qed simp
  ultimately show ?case using w Cons.prems lenB by (simp add: Let_def)
qed simp

lemma rb_follow_stalled:
  "rb_full r \<Longrightarrow> 2 * int (rb_cap r) \<le> t \<Longrightarrow> rb_follow r t pss = []"
proof (induction pss arbitrary: r)
  case (Cons ps pss)
  have "rb_full (fold (\<lambda>p b. rb_Write b p) ps r)"
    "rb_cap (fold (\<lambda>p b. rb_Write b p) ps r) = rb_cap r"
    using Cons.prems by (induction ps arbitrary: r) (auto simp: rb_full_Write)
  then show ?case using Cons by (simp add: rb_SinceOffset_stalled Let_def)
qed simp

subsection \<open>Properties\<close>

text \<open>A sequence of writes, and what the buffer accepts of them.\<close>

fun rb_writes :: "ring_buffer \<Rightarrow> byte list list \<Rightarrow> ring_buffer" where
  "rb_writes r [] = r"
| "rb_writes r (p # ps) = rb_writes (rb_Write r p) ps"

fun rb_accepted_all :: "ring_buffer \<Rightarrow> byte list list \<Rightarrow> byte list" where
  "rb_accepted_all r [] = []"
| "rb_accepted_all r (p # ps) = rb_accepted r p @ rb_accepted_all (rb_Write r p) ps"

lemma rb_contents_writes:
  assumes "rb_inv r"
  shows "rb_Bytes (rb_writes r ps) = last_n (rb_cap r) (rb_Bytes r @ rb_accepted_all r ps) \<and>
    rb_inv (rb_writes r ps)"
proof -
  have "rbuf.writes r ps = rb_writes r ps" "rbuf.accepted_all r ps = rb_accepted_all r ps"
    by (induction ps arbitrary: r) simp_all
  then show ?thesis using rbuf.contents_writes [OF assms, of ps] rbuf.good_writes [OF assms, of ps] by simp
qed

text \<open>C30: after any writes the buffer holds the last bytes, as many as fit, of everything it accepted;
  it accepts a write in full when the write is at least as long as the buffer or ends before the
  end of the slice, and otherwise loses the part beyond the end.\<close>

theorem ring_buffer_tail:
  assumes "rb_inv r"
  shows "rb_Bytes (rb_writes r ps) = last_n (rb_cap r) (rb_Bytes r @ rb_accepted_all r ps) \<and>
    rb_inv (rb_writes r ps) \<and>
    (\<forall>p. rb_off r + length p \<le> rb_cap r \<or> rb_cap r \<le> length p \<longleftrightarrow> rb_accepted r p = p)"
proof -
  have "rb_off r + length p \<le> rb_cap r \<or> rb_cap r \<le> length p \<longleftrightarrow> rb_accepted r p = p" for p
  proof (cases "rb_cap r \<le> length p")
    case False
    then have "rb_accepted r p = p \<longleftrightarrow> length p \<le> rb_cap r - rb_off r"
      by (auto simp: rb_accepted_def)
    then show ?thesis using False assms by (auto simp: rb_inv_def)
  qed (simp add: rb_accepted_def)
  then show ?thesis
    using rb_contents_writes [OF assms] by blast
qed

text \<open>Following a process is exact until its buffer fills for the first time: the reader gets
  every byte that was written, once and in order. After the reader has caught up with a full
  buffer it never gets another byte, although the process goes on writing.\<close>

theorem follow_exact_then_stalls:
  assumes "rb_inv r" "pss \<noteq> []"
  shows "(\<not> rb_full r \<and> rb_off r + length (concat (concat pss)) < rb_cap r \<longrightarrow>
      rb_follow r (int (rb_off r)) pss = concat (concat pss)) \<and>
    (rb_full r \<longrightarrow> rb_follow r (2 * int (rb_cap r)) pss = [] \<and>
      snd (rb_SinceOffset r 0) = 2 * int (rb_cap r))"
proof -
  have "drop (rb_off r) (rb_Bytes r) = []" if "\<not> rb_full r" using that by (simp add: rb_Bytes_def)
  then show ?thesis
    using rb_follow_unfilled [OF assms(1), of "rb_off r" pss] assms(2)
      rb_follow_stalled [of r "2 * int (rb_cap r)" pss] rb_SinceOffset_filled [OF assms(1), of 0]
    by auto
qed

definition demo_ring :: ring_buffer where
  "demo_ring = newRingBuffer 4"

lemma demo_ring_inv: "rb_inv demo_ring"
  unfolding demo_ring_def by (rule rb_inv_new) simp

text \<open>Three bytes, then three more, into a buffer of four: the buffer should hold 3, 4, 5, 6.\<close>

theorem ring_buffer_tail_witness:
  "rb_Bytes (rb_writes demo_ring [[1, 2, 3], [4, 5, 6]]) = [1, 2, 3, 4]"
proof -
  have "rb_accepted demo_ring [1, 2, 3] = [1, 2, 3]"
    using ring_buffer_tail [OF demo_ring_inv] by (simp add: rb_accepted_def demo_ring_def newRingBuffer_def)
  moreover have "rb_accepted (rb_Write demo_ring [1, 2, 3]) [4, 5, 6] = [4]"
    by (simp add: demo_ring_def newRingBuffer_def rb_Write_def go_copy_def rb_accepted_def)
  ultimately have "rb_accepted_all demo_ring [[1, 2, 3], [4, 5, 6]] = [1, 2, 3, 4]" by simp
  moreover have "rb_cap demo_ring = 4" "rb_Bytes demo_ring = []"
    by (simp_all add: demo_ring_def newRingBuffer_def rb_Bytes_def)
  ultimately show ?thesis
    using ring_buffer_tail [OF demo_ring_inv, of "[[1, 2, 3], [4, 5, 6]]"] by simp
qed

theorem follow_exact_then_stalls_witness:
  "rb_follow demo_ring 0 [[[1], [2]], [[3]]] = [1, 2, 3] \<and>
   rb_follow (rb_Write demo_ring [1, 2, 3, 4, 5]) 8 [[[6, 7]], [[8]]] = []"
proof -
  have "rb_inv (rb_Write demo_ring [1, 2, 3, 4, 5])" by (rule rb_inv_Write [OF demo_ring_inv])
  from follow_exact_then_stalls [OF this, of "[[[6, 7]], [[8]]]"]
    follow_exact_then_stalls [OF demo_ring_inv, of "[[[1], [2]], [[3]]]"]
  show ?thesis by (simp add: demo_ring_def newRingBuffer_def rb_Write_def)
qed

end
