(* ===== verification/Process_Table.thy ===== *)
theory Process_Table
  imports Proto Ring_Buffer
begin

section \<open>The process table (process_table.go)\<close>

text \<open>
  The table of processes. The code keeps one \<open>ProcessEntry\<close> per process, shared by pointer
  between the two indexes and with whoever looked it up before: entries live in an explicit heap
  here, a pointer is an address. The write-ahead log the table appends to is the list of its
  lines; \<open>Wal\<close> has its replay.

  The lemmas give the table invariant, the effect of every operation on the abstract directory
  (process id to process info), and the discipline of the closed \<open>exited\<close> channel.
\<close>

subsection \<open>Lines of the log\<close>

text \<open>
  The payload of a create event: \<open>json\<close> writes a null for a nil pointer, and an info whose ref is
  null is valid JSON too.
\<close>

datatype wal_info = InfoNil | InfoNoRef | InfoSome process_info

datatype wal_event =
    W_create wal_info
  | W_state string string string i32      \<comment> \<open>process id, state name, lord id, local pid\<close>
  | W_result string i32 i32               \<comment> \<open>process id, exit code, exit signal\<close>
  | W_other string                        \<comment> \<open>a type the replay does not know\<close>

datatype wal_line = L_header | L_garbage | L_event wal_event

text \<open>
  What survives the JSON encoding of a process info: the tag \<open>omitempty\<close> drops an empty map, which
  comes back as nil. Every other field comes back as it was.
\<close>

definition omit_empty :: "str_map \<Rightarrow> str_map" where
  "omit_empty m = (case m of Some f \<Rightarrow> if f = Map.empty then None else m | None \<Rightarrow> None)"

definition json_info :: "process_info \<Rightarrow> process_info" where
  "json_info p = p\<lparr>pi_env := omit_empty (pi_env p)\<rparr>"

lemma omit_empty_idem [simp]: "omit_empty (omit_empty m) = omit_empty m"
  by (auto simp: omit_empty_def split: option.split)

lemma json_info_simps [simp]:
  "pi_ref (json_info p) = pi_ref p" "pi_tenant_id (json_info p) = pi_tenant_id p"
  "pi_state (json_info p) = pi_state p"
  by (simp_all add: json_info_def)

subsection \<open>State\<close>

record watcher =
  w_cancel :: nat
  w_events :: "process_event list"

record proc_entry =
  pe_info :: process_info
  pe_exited :: bool               \<comment> \<open>the channel \<open>exited\<close> is closed\<close>
  pe_ioBuf :: ring_buffer
  pe_ioLastSent :: int
  pe_watchers :: "watcher list"

record process_table =
  pt_heap :: "nat \<Rightarrow> proc_entry option"
  pt_next :: nat
  pt_byID :: "string \<Rightarrow> nat option"
  pt_byTenant :: "string \<Rightarrow> (string \<Rightarrow> nat option) option"
  pt_wal :: "wal_line list option"

definition NewProcessTable :: process_table where
  "NewProcessTable =
     \<lparr>pt_heap = Map.empty, pt_next = 0, pt_byID = Map.empty, pt_byTenant = Map.empty,
      pt_wal = None\<rparr>"

definition PT_AttachWAL :: "wal_line list \<Rightarrow> process_table \<Rightarrow> process_table" where
  "PT_AttachWAL w t = t\<lparr>pt_wal := Some w\<rparr>"

subsection \<open>Appending to the log\<close>

definition WAL_append :: "wal_event \<Rightarrow> wal_line list \<Rightarrow> wal_line list" where
  "WAL_append ev w = w @ [L_event ev]"

definition WAL_AppendCreate :: "process_info \<Rightarrow> wal_line list \<Rightarrow> wal_line list" where
  "WAL_AppendCreate info = WAL_append (W_create (InfoSome (json_info info)))"

definition WAL_AppendState ::
  "string \<Rightarrow> process_state \<Rightarrow> string \<Rightarrow> i32 \<Rightarrow> wal_line list \<Rightarrow> wal_line list" where
  "WAL_AppendState processID newState lordID localPID =
     WAL_append (W_state processID (ProcessState_String newState) lordID localPID)"

definition WAL_AppendResult :: "string \<Rightarrow> i32 \<Rightarrow> i32 \<Rightarrow> wal_line list \<Rightarrow> wal_line list" where
  "WAL_AppendResult processID exitCode exitSignal =
     WAL_append (W_result processID exitCode exitSignal)"

text \<open>\<open>if t.wal != nil\<close>.\<close>

definition with_wal :: "(wal_line list \<Rightarrow> wal_line list) \<Rightarrow> process_table \<Rightarrow> process_table" where
  "with_wal f t = t\<lparr>pt_wal := map_option f (pt_wal t)\<rparr>"

subsection \<open>Operations of the table\<close>

definition ioBufSize :: nat where
  "ioBufSize = 64 * 1024"

definition new_entry :: "process_info \<Rightarrow> proc_entry" where
  "new_entry info = \<lparr>pe_info = info, pe_exited = False, pe_ioBuf = newRingBuffer ioBufSize,
     pe_ioLastSent = 0, pe_watchers = []\<rparr>"

definition PT_Create :: "process_info \<Rightarrow> process_table \<Rightarrow> nat \<times> process_table" where
  "PT_Create info t =
     (let a = pt_next t;
          pid = pi_process_id info;
          tid = pi_tenant_id info;
          tenantMap = (case pt_byTenant t tid of None \<Rightarrow> Map.empty | Some m \<Rightarrow> m)
      in (a, with_wal (WAL_AppendCreate info)
               (t\<lparr>pt_heap := (pt_heap t)(a \<mapsto> new_entry info), pt_next := a + 1,
                  pt_byID := (pt_byID t)(pid \<mapsto> a),
                  pt_byTenant := (pt_byTenant t)(tid \<mapsto> tenantMap(pid \<mapsto> a))\<rparr>)))"

definition PT_Get :: "process_table \<Rightarrow> string \<Rightarrow> nat option" where
  "PT_Get t processID = pt_byID t processID"

text \<open>Reading through a pointer.\<close>

definition entry_at :: "process_table \<Rightarrow> nat \<Rightarrow> proc_entry" where
  "entry_at t a = (case pt_heap t a of Some e \<Rightarrow> e | None \<Rightarrow> new_entry zero_process_info)"

definition info_at :: "process_table \<Rightarrow> nat \<Rightarrow> process_info" where
  "info_at t a = pe_info (entry_at t a)"

definition PT_ListByTenant :: "process_table \<Rightarrow> string list \<Rightarrow> string \<Rightarrow> bool \<Rightarrow> nat list" where
  "PT_ListByTenant t ks tenantID onlyRunning =
     (case pt_byTenant t tenantID of
        None \<Rightarrow> []
      | Some tenantMap \<Rightarrow>
          filter (\<lambda>a. \<not> (onlyRunning \<and> pi_state (info_at t a) \<noteq> PROCESS_STATE_RUNNING \<and>
                              pi_state (info_at t a) \<noteq> PROCESS_STATE_PAUSED))
            (go_values tenantMap ks))"

definition PT_ListByLord ::
  "process_table \<Rightarrow> string list \<Rightarrow> string \<Rightarrow> (proc_entry \<Rightarrow> bool) \<Rightarrow> nat list" where
  "PT_ListByLord t ks lordID keep =
     filter (\<lambda>a. pi_lord_id (info_at t a) = lordID \<and> keep (entry_at t a))
       (go_values (pt_byID t) ks)"

definition PT_All :: "process_table \<Rightarrow> string list \<Rightarrow> nat list" where
  "PT_All t ks = go_values (pt_byID t) ks"

text \<open>Writing through a pointer.\<close>

definition pt_modify :: "nat \<Rightarrow> (proc_entry \<Rightarrow> proc_entry) \<Rightarrow> process_table \<Rightarrow> process_table" where
  "pt_modify a f t =
     (case pt_heap t a of
        None \<Rightarrow> t
      | Some e \<Rightarrow> t\<lparr>pt_heap := (pt_heap t)(a \<mapsto> f e)\<rparr>)"

definition pe_upd_info :: "(process_info \<Rightarrow> process_info) \<Rightarrow> proc_entry \<Rightarrow> proc_entry" where
  "pe_upd_info f e = e\<lparr>pe_info := f (pe_info e)\<rparr>"

definition pi_set_lord :: "string \<Rightarrow> process_info \<Rightarrow> process_info" where
  "pi_set_lord lordID p = p\<lparr>pi_ref := (pi_ref p)\<lparr>ref_lord_id := lordID\<rparr>\<rparr>"

definition pi_set_local_pid :: "i32 \<Rightarrow> process_info \<Rightarrow> process_info" where
  "pi_set_local_pid pid p = p\<lparr>pi_ref := (pi_ref p)\<lparr>ref_local_pid := pid\<rparr>\<rparr>"

fun rebind_loop :: "string \<Rightarrow> string \<Rightarrow> nat list \<Rightarrow> nat \<Rightarrow> process_table \<Rightarrow> nat \<times> process_table"
where
  "rebind_loop oldLordID newLordID [] n t = (n, t)"
| "rebind_loop oldLordID newLordID (a # as) n t =
     (if pi_lord_id (info_at t a) = oldLordID
      then rebind_loop oldLordID newLordID as (n + 1)
             (pt_modify a (pe_upd_info (pi_set_lord newLordID)) t)
      else rebind_loop oldLordID newLordID as n t)"

definition PT_UpdateLordForHostname ::
  "string list \<Rightarrow> string \<Rightarrow> string \<Rightarrow> process_table \<Rightarrow> nat \<times> process_table" where
  "PT_UpdateLordForHostname ks oldLordID newLordID t =
     (if oldLordID = '''' \<or> newLordID = '''' \<or> oldLordID = newLordID then (0, t)
      else rebind_loop oldLordID newLordID (go_values (pt_byID t) ks) 0 t)"

subsection \<open>Operations of an entry\<close>

text \<open>
  Telling the subscribers: each has a channel of 16 events, and an event that does not fit is
  dropped. A subscriber that has cancelled is no longer in the list.
\<close>

definition notify :: "process_event \<Rightarrow> watcher \<Rightarrow> watcher" where
  "notify ev w = (if length (w_events w) < 16 then w\<lparr>w_events := w_events w @ [ev]\<rparr> else w)"

definition set_state ::
  "time \<Rightarrow> process_state \<Rightarrow> string \<Rightarrow> i32 \<Rightarrow> process_info \<Rightarrow> process_info" where
  "set_state now newState lordID localPID p =
     (let p1 = p\<lparr>pi_state := newState, pi_state_changed_at := Some now\<rparr>;
          p2 = (if lordID \<noteq> '''' then pi_set_lord lordID p1 else p1)
      in if localPID \<noteq> 0 then pi_set_local_pid localPID p2 else p2)"

definition pe_set_state ::
  "time \<Rightarrow> process_state \<Rightarrow> string \<Rightarrow> i32 \<Rightarrow> proc_entry \<Rightarrow> proc_entry" where
  "pe_set_state now newState lordID localPID e =
     (let info = set_state now newState lordID localPID (pe_info e);
          ev = \<lparr>ev_ref = pi_ref info, ev_type = EVENT_TYPE_STATE_CHANGED, ev_at = now,
                ev_payload = EP_NewState newState\<rparr>
      in e\<lparr>pe_info := info,
           pe_exited := pe_exited e \<or> newState = PROCESS_STATE_EXITED
                                    \<or> newState = PROCESS_STATE_STOPPED,
           pe_watchers := map (notify ev) (pe_watchers e)\<rparr>)"

definition PE_UpdateState ::
  "time \<Rightarrow> nat \<Rightarrow> process_state \<Rightarrow> string \<Rightarrow> i32 \<Rightarrow> process_table \<Rightarrow> process_table" where
  "PE_UpdateState now a newState lordID localPID t =
     pt_modify a (pe_set_state now newState lordID localPID)
       (with_wal (WAL_AppendState (pi_process_id (info_at t a)) newState lordID localPID) t)"

definition set_result :: "time \<Rightarrow> i32 \<Rightarrow> i32 \<Rightarrow> process_info \<Rightarrow> process_info" where
  "set_result now exitCode exitSignal p =
     p\<lparr>pi_exit_code := exitCode, pi_exit_signal := exitSignal, pi_exited_at := Some now\<rparr>"

definition PE_UpdateResult ::
  "time \<Rightarrow> nat \<Rightarrow> i32 \<Rightarrow> i32 \<Rightarrow> process_table \<Rightarrow> process_table" where
  "PE_UpdateResult now a exitCode exitSignal t =
     pt_modify a (pe_upd_info (set_result now exitCode exitSignal))
       (with_wal (WAL_AppendResult (pi_process_id (info_at t a)) exitCode exitSignal) t)"

definition PE_StateString :: "process_table \<Rightarrow> nat \<Rightarrow> string" where
  "PE_StateString t a = ProcessState_String (pi_state (info_at t a))"

definition PE_Snapshot :: "process_table \<Rightarrow> nat \<Rightarrow> process_info" where
  "PE_Snapshot t a = info_at t a"

text \<open>
  A subscription is identified by its cancel channel; \<open>c\<close> is a fresh one. Cancelling removes the
  first watcher with that channel.
\<close>

definition PE_SubscribeWatch :: "nat \<Rightarrow> nat \<Rightarrow> process_table \<Rightarrow> process_table" where
  "PE_SubscribeWatch c a = pt_modify a
     (\<lambda>e. e\<lparr>pe_watchers := pe_watchers e @ [\<lparr>w_cancel = c, w_events = []\<rparr>]\<rparr>)"

fun remove_watcher :: "nat \<Rightarrow> watcher list \<Rightarrow> watcher list" where
  "remove_watcher c [] = []"
| "remove_watcher c (w # ws) = (if w_cancel w = c then ws else w # remove_watcher c ws)"

definition PE_CancelWatch :: "nat \<Rightarrow> nat \<Rightarrow> process_table \<Rightarrow> process_table" where
  "PE_CancelWatch c a = pt_modify a (\<lambda>e. e\<lparr>pe_watchers := remove_watcher c (pe_watchers e)\<rparr>)"

subsection \<open>Heap lemmas\<close>

lemma pt_modify_frame [frame_simps, simp]:
  "pt_next (pt_modify a f t) = pt_next t" "pt_byID (pt_modify a f t) = pt_byID t"
  "pt_byTenant (pt_modify a f t) = pt_byTenant t" "pt_wal (pt_modify a f t) = pt_wal t"
  by (simp_all add: pt_modify_def split: option.split)

lemma with_wal_frame [frame_simps, simp]:
  "pt_heap (with_wal f t) = pt_heap t" "pt_next (with_wal f t) = pt_next t"
  "pt_byID (with_wal f t) = pt_byID t" "pt_byTenant (with_wal f t) = pt_byTenant t"
  "pt_wal (with_wal f t) = map_option f (pt_wal t)"
  by (simp_all add: with_wal_def)

lemma heap_modify:
  "pt_heap (pt_modify a f t) b = (if b = a then map_option f (pt_heap t b) else pt_heap t b)"
  by (auto simp: pt_modify_def split: option.split)

lemma entry_at_Some [simp]: "pt_heap t a = Some e \<Longrightarrow> entry_at t a = e"
  by (simp add: entry_at_def)

lemma entry_at_with_wal [simp]:
  "entry_at (with_wal f t) a = entry_at t a" "info_at (with_wal f t) a = info_at t a"
  by (simp_all add: entry_at_def info_at_def)

lemma entry_at_modify:
  "pt_heap t a \<noteq> None \<Longrightarrow>
     entry_at (pt_modify a f t) b = (if b = a then f (entry_at t a) else entry_at t b)"
  by (auto simp: entry_at_def heap_modify)

lemma info_at_modify:
  "pt_heap t a \<noteq> None \<Longrightarrow>
     info_at (pt_modify a f t) b = (if b = a then pe_info (f (entry_at t a)) else info_at t b)"
  by (simp add: info_at_def entry_at_modify)

lemma pe_upd_info_simps [simp]:
  "pe_info (pe_upd_info f e) = f (pe_info e)" "pe_exited (pe_upd_info f e) = pe_exited e"
  "pe_ioBuf (pe_upd_info f e) = pe_ioBuf e" "pe_watchers (pe_upd_info f e) = pe_watchers e"
  "pe_ioLastSent (pe_upd_info f e) = pe_ioLastSent e"
  by (simp_all add: pe_upd_info_def)

lemma pe_set_state_simps [simp]:
  "pe_info (pe_set_state now s l p e) = set_state now s l p (pe_info e)"
  "pe_exited (pe_set_state now s l p e) = (pe_exited e \<or> final_state s)"
  "pe_ioBuf (pe_set_state now s l p e) = pe_ioBuf e"
  "pe_ioLastSent (pe_set_state now s l p e) = pe_ioLastSent e"
  by (simp_all add: pe_set_state_def Let_def final_state_def)

lemma set_state_simps [simp]:
  "pi_state (set_state now s l p i) = s" "pi_process_id (set_state now s l p i) = pi_process_id i"
  "pi_tenant_id (set_state now s l p i) = pi_tenant_id i"
  "pi_lord_id (set_state now s l p i) = (if l = '''' then pi_lord_id i else l)"
  "pi_local_pid (set_state now s l p i) = (if p = 0 then pi_local_pid i else p)"
  "pi_state_changed_at (set_state now s l p i) = Some now"
  by (simp_all add: set_state_def Let_def pi_set_lord_def pi_set_local_pid_def)

lemma set_result_simps [simp]:
  "pi_ref (set_result now c s i) = pi_ref i" "pi_state (set_result now c s i) = pi_state i"
  "pi_tenant_id (set_result now c s i) = pi_tenant_id i"
  "pi_exit_code (set_result now c s i) = c" "pi_exit_signal (set_result now c s i) = s"
  by (simp_all add: set_result_def)

lemma pi_set_lord_simps [simp]:
  "pi_state (pi_set_lord l i) = pi_state i" "pi_process_id (pi_set_lord l i) = pi_process_id i"
  "pi_tenant_id (pi_set_lord l i) = pi_tenant_id i" "pi_lord_id (pi_set_lord l i) = l"
  "pi_local_pid (pi_set_lord l i) = pi_local_pid i"
  by (simp_all add: pi_set_lord_def)

subsection \<open>Invariant\<close>

definition pe_ok :: "proc_entry \<Rightarrow> bool" where
  "pe_ok e \<longleftrightarrow> rb_inv (pe_ioBuf e) \<and> rb_cap (pe_ioBuf e) = ioBufSize \<and>
     (\<forall>w\<in>set (pe_watchers e). length (w_events w) \<le> 16)"

text \<open>Looking a process up through its tenant.\<close>

definition tenant_entry :: "process_table \<Rightarrow> string \<Rightarrow> string \<Rightarrow> nat option" where
  "tenant_entry t tid p = (case pt_byTenant t tid of None \<Rightarrow> None | Some m \<Rightarrow> m p)"

definition pt_inv :: "process_table \<Rightarrow> bool" where
  "pt_inv t \<longleftrightarrow>
     (\<forall>a. pt_heap t a \<noteq> None \<longleftrightarrow> a < pt_next t) \<and>
     (\<forall>a e. pt_heap t a = Some e \<longrightarrow> pe_ok e) \<and>
     finite (dom (pt_byID t)) \<and>
     (\<forall>p a. pt_byID t p = Some a \<longrightarrow>
        pt_heap t a \<noteq> None \<and> pi_process_id (info_at t a) = p \<and>
        tenant_entry t (pi_tenant_id (info_at t a)) p = Some a) \<and>
     (\<forall>tid p a. tenant_entry t tid p = Some a \<longrightarrow>
        pt_heap t a \<noteq> None \<and> pi_process_id (info_at t a) = p \<and> pi_tenant_id (info_at t a) = tid)"

lemma pt_inv_heap: "pt_inv t \<Longrightarrow> pt_heap t a \<noteq> None \<longleftrightarrow> a < pt_next t"
  by (simp add: pt_inv_def)

lemma pt_inv_pe_ok: "pt_inv t \<Longrightarrow> pt_heap t a \<noteq> None \<Longrightarrow> pe_ok (entry_at t a)"
  unfolding pt_inv_def by (metis entry_at_Some not_None_eq)

lemma pt_inv_byID:
  assumes "pt_inv t" "pt_byID t p = Some a"
  shows "pt_heap t a \<noteq> None" "pi_process_id (info_at t a) = p"
  using assms by (auto simp: pt_inv_def)

lemma pt_inv_byTenant:
  assumes "pt_inv t" "tenant_entry t tid p = Some a"
  shows "pt_heap t a \<noteq> None" "pi_process_id (info_at t a) = p" "pi_tenant_id (info_at t a) = tid"
  using assms unfolding pt_inv_def by blast+

lemma pt_inv_byID_inj: "pt_inv t \<Longrightarrow> pt_byID t p = Some a \<Longrightarrow> pt_byID t q = Some a \<Longrightarrow> p = q"
  using pt_inv_byID(2) by metis

lemma pt_inv_New [inv_intros]: "pt_inv NewProcessTable"
  by (simp add: pt_inv_def NewProcessTable_def tenant_entry_def)

lemma pt_inv_cong:
  assumes "pt_heap t' = pt_heap t" "pt_next t' = pt_next t" "pt_byID t' = pt_byID t"
    "pt_byTenant t' = pt_byTenant t"
  shows "pt_inv t' = pt_inv t"
proof -
  have "info_at t' = info_at t" "tenant_entry t' = tenant_entry t"
    using assms by (simp_all add: fun_eq_iff info_at_def entry_at_def tenant_entry_def)
  then show ?thesis unfolding pt_inv_def assms by simp
qed

lemma pt_inv_with_wal [inv_intros]: "pt_inv t \<Longrightarrow> pt_inv (with_wal f t)"
  by (subst pt_inv_cong) simp_all

lemma pt_inv_AttachWAL [inv_intros]: "pt_inv t \<Longrightarrow> pt_inv (PT_AttachWAL w t)"
  by (subst pt_inv_cong) (simp_all add: PT_AttachWAL_def)

text \<open>An update of an entry keeps the invariant when it keeps the identity of the process.\<close>

definition keeps_identity :: "(proc_entry \<Rightarrow> proc_entry) \<Rightarrow> bool" where
  "keeps_identity f \<longleftrightarrow>
     (\<forall>e. pi_process_id (pe_info (f e)) = pi_process_id (pe_info e) \<and>
          pi_tenant_id (pe_info (f e)) = pi_tenant_id (pe_info e) \<and>
          (pe_ok e \<longrightarrow> pe_ok (f e)))"

lemma info_at_modify_ids:
  assumes "keeps_identity f"
  shows "pi_process_id (info_at (pt_modify a f t) b) = pi_process_id (info_at t b)"
    "pi_tenant_id (info_at (pt_modify a f t) b) = pi_tenant_id (info_at t b)"
  using assms
  by (auto simp: info_at_def entry_at_def heap_modify keeps_identity_def split: option.split)

lemma pt_inv_modify [inv_intros]:
  assumes "pt_inv t" "keeps_identity f"
  shows "pt_inv (pt_modify a f t)"
proof -
  have "tenant_entry (pt_modify a f t) = tenant_entry t"
    by (simp add: fun_eq_iff tenant_entry_def)
  then show ?thesis
    using assms(1) unfolding pt_inv_def pt_modify_frame info_at_modify_ids [OF assms(2)]
    using assms(2) by (auto simp: heap_modify keeps_identity_def split: if_splits)
qed

lemma keeps_identity_set_state [inv_intros]: "keeps_identity (pe_set_state now s l p)"
  by (auto simp: keeps_identity_def pe_ok_def pe_set_state_def Let_def notify_def)

lemma keeps_identity_upd_info [inv_intros]:
  "(\<And>i. pi_process_id (f i) = pi_process_id i \<and> pi_tenant_id (f i) = pi_tenant_id i) \<Longrightarrow>
     keeps_identity (pe_upd_info f)"
  by (simp add: keeps_identity_def pe_ok_def)

lemma pt_inv_UpdateState [inv_intros]: "pt_inv t \<Longrightarrow> pt_inv (PE_UpdateState now a s l p t)"
  unfolding PE_UpdateState_def by (intro inv_intros)

lemma pt_inv_UpdateResult [inv_intros]: "pt_inv t \<Longrightarrow> pt_inv (PE_UpdateResult now a c s t)"
  unfolding PE_UpdateResult_def by (intro inv_intros) auto

lemma pt_inv_SubscribeWatch [inv_intros]: "pt_inv t \<Longrightarrow> pt_inv (PE_SubscribeWatch c a t)"
  unfolding PE_SubscribeWatch_def
  by (rule pt_inv_modify) (auto simp: keeps_identity_def pe_ok_def)

lemma set_remove_watcher: "set (remove_watcher c ws) \<subseteq> set ws"
  by (induction ws) auto

lemma pt_inv_CancelWatch [inv_intros]: "pt_inv t \<Longrightarrow> pt_inv (PE_CancelWatch c a t)"
  unfolding PE_CancelWatch_def
  by (rule pt_inv_modify)
    (auto simp: keeps_identity_def pe_ok_def dest: subsetD [OF set_remove_watcher])

lemma pe_ok_new: "pe_ok (new_entry info)"
  by (simp add: pe_ok_def new_entry_def rb_inv_new ioBufSize_def) (simp add: newRingBuffer_def)

text \<open>Creating an entry keeps the invariant when the id is not in use by another tenant.\<close>

lemma info_at_Create:
  assumes "pt_inv t"
  shows "info_at (snd (PT_Create info t)) b = (if b = pt_next t then info else info_at t b)"
  by (auto simp: PT_Create_def Let_def info_at_def entry_at_def new_entry_def)

lemma PT_Create_simps:
  "fst (PT_Create info t) = pt_next t"
  "pt_heap (snd (PT_Create info t)) = (pt_heap t)(pt_next t \<mapsto> new_entry info)"
  "pt_next (snd (PT_Create info t)) = pt_next t + 1"
  "pt_byID (snd (PT_Create info t)) = (pt_byID t)(pi_process_id info \<mapsto> pt_next t)"
  "pt_byTenant (snd (PT_Create info t)) = (pt_byTenant t)(pi_tenant_id info \<mapsto>
     (case pt_byTenant t (pi_tenant_id info) of None \<Rightarrow> Map.empty | Some m \<Rightarrow> m)
       (pi_process_id info \<mapsto> pt_next t))"
  "pt_wal (snd (PT_Create info t)) = map_option (WAL_AppendCreate info) (pt_wal t)"
  by (simp_all add: PT_Create_def Let_def)

lemma tenant_entry_Create:
  "tenant_entry (snd (PT_Create info t)) tid p =
     (if tid = pi_tenant_id info \<and> p = pi_process_id info then Some (pt_next t)
      else tenant_entry t tid p)"
  by (simp add: tenant_entry_def PT_Create_simps split: option.split)

lemma pt_inv_Create [inv_intros]:
  assumes "pt_inv t"
  shows "pt_inv (snd (PT_Create info t))"
proof -
  have new: "pt_heap t (pt_next t) = None" using pt_inv_heap [OF assms] by blast
  have old: "b \<noteq> pt_next t" if "pt_heap t b \<noteq> None" for b using that new by auto
  show ?thesis
    unfolding pt_inv_def PT_Create_simps info_at_Create [OF assms] tenant_entry_Create
  proof (intro conjI allI impI)
    show "((pt_heap t)(pt_next t \<mapsto> new_entry info)) a \<noteq> None \<longleftrightarrow> a < pt_next t + 1" for a
      using pt_inv_heap [OF assms] by (auto simp: less_Suc_eq)
    show "finite (dom ((pt_byID t)(pi_process_id info \<mapsto> pt_next t)))"
      using assms by (simp add: pt_inv_def)
  next
    fix a e assume "((pt_heap t)(pt_next t \<mapsto> new_entry info)) a = Some e"
    then show "pe_ok e" using assms pe_ok_new by (auto simp: pt_inv_def split: if_splits)
  next
    fix p a assume "((pt_byID t)(pi_process_id info \<mapsto> pt_next t)) p = Some a"
    then show "((pt_heap t)(pt_next t \<mapsto> new_entry info)) a \<noteq> None"
      "pi_process_id (if a = pt_next t then info else info_at t a) = p"
      "(if pi_tenant_id (if a = pt_next t then info else info_at t a) = pi_tenant_id info \<and>
           p = pi_process_id info then Some (pt_next t)
        else tenant_entry t (pi_tenant_id (if a = pt_next t then info else info_at t a)) p) = Some a"
      using pt_inv_byID [OF assms, of p a] old [of a] assms
      by (auto simp: pt_inv_def split: if_splits)
  next
    fix tid p a
    assume "(if tid = pi_tenant_id info \<and> p = pi_process_id info then Some (pt_next t)
      else tenant_entry t tid p) = Some a"
    then show "((pt_heap t)(pt_next t \<mapsto> new_entry info)) a \<noteq> None"
      "pi_process_id (if a = pt_next t then info else info_at t a) = p"
      "pi_tenant_id (if a = pt_next t then info else info_at t a) = tid"
      using pt_inv_byTenant [OF assms, of tid p a] old [of a] by (auto split: if_splits)
  qed
qed

subsection \<open>The abstract directory\<close>

definition dir :: "process_table \<Rightarrow> string \<Rightarrow> process_info option" where
  "dir t p = map_option (info_at t) (pt_byID t p)"

lemma dir_New [simp]: "dir NewProcessTable = Map.empty"
  by (simp add: fun_eq_iff dir_def NewProcessTable_def)

lemma dir_with_wal [simp]: "dir (with_wal f t) = dir t"
  by (simp add: fun_eq_iff dir_def map_option_case split: option.split)

lemma dir_AttachWAL [simp]: "dir (PT_AttachWAL w t) = dir t"
  by (simp add: fun_eq_iff dir_def map_option_case PT_AttachWAL_def info_at_def entry_at_def
      split: option.split)

lemma dom_dir: "dom (dir t) = dom (pt_byID t)"
  by (auto simp: dir_def dom_def)

lemma dir_id: "pt_inv t \<Longrightarrow> dir t p = Some i \<Longrightarrow> pi_process_id i = p"
  by (auto simp: dir_def dest: pt_inv_byID)

lemma dir_Create:
  assumes "pt_inv t"
  shows "dir (snd (PT_Create info t)) = (dir t)(pi_process_id info \<mapsto> info)"
proof -
  have "a \<noteq> pt_next t" if "pt_byID t p = Some a" for p a
    using pt_inv_byID(1) [OF assms that] pt_inv_heap [OF assms] by auto
  then show ?thesis
    unfolding dir_def PT_Create_simps info_at_Create [OF assms]
    by (intro ext) (auto simp: map_option_case split: option.split)
qed

lemma dir_modify:
  assumes "pt_inv t" "pt_byID t p = Some a"
  shows "dir (pt_modify a f t) = (dir t)(p \<mapsto> pe_info (f (entry_at t a)))"
proof
  fix q
  show "dir (pt_modify a f t) q = ((dir t)(p \<mapsto> pe_info (f (entry_at t a)))) q"
    using assms(2) pt_inv_byID_inj [OF assms, of q]
    by (cases "pt_byID t q") (auto simp: dir_def info_at_modify [OF pt_inv_byID(1) [OF assms]])
qed

lemma dir_UpdateState:
  assumes "pt_inv t" "PT_Get t p = Some a"
  shows "dir (PE_UpdateState now a s l pid t) = (dir t)(p \<mapsto> set_state now s l pid (info_at t a))"
  using assms unfolding PE_UpdateState_def PT_Get_def
  by (subst dir_modify [where p = p]) (auto simp: info_at_def intro: inv_intros)

lemma dir_UpdateResult:
  assumes "pt_inv t" "PT_Get t p = Some a"
  shows "dir (PE_UpdateResult now a c s t) = (dir t)(p \<mapsto> set_result now c s (info_at t a))"
  using assms unfolding PE_UpdateResult_def PT_Get_def
  by (subst dir_modify [where p = p]) (auto simp: info_at_def intro: inv_intros)

lemma wal_UpdateState:
  "pt_wal (PE_UpdateState now a s l pid t) =
     map_option (WAL_AppendState (pi_process_id (info_at t a)) s l pid) (pt_wal t)"
  by (simp add: PE_UpdateState_def)

lemma wal_UpdateResult:
  "pt_wal (PE_UpdateResult now a c s t) =
     map_option (WAL_AppendResult (pi_process_id (info_at t a)) c s) (pt_wal t)"
  by (simp add: PE_UpdateResult_def)

subsection \<open>Rebinding the processes of a lord\<close>

definition rebound :: "string \<Rightarrow> string \<Rightarrow> process_info \<Rightarrow> process_info" where
  "rebound oldLordID newLordID i =
     (if pi_lord_id i = oldLordID then pi_set_lord newLordID i else i)"

lemma rebind_loop_frame [frame_simps]:
  "pt_byID (snd (rebind_loop ol nl as n t)) = pt_byID t"
  "pt_byTenant (snd (rebind_loop ol nl as n t)) = pt_byTenant t"
  "pt_wal (snd (rebind_loop ol nl as n t)) = pt_wal t"
  "pt_next (snd (rebind_loop ol nl as n t)) = pt_next t"
  by (induction ol nl as n t rule: rebind_loop.induct) auto

lemma pt_inv_set_lord [inv_intros]:
  "pt_inv t \<Longrightarrow> pt_inv (pt_modify a (pe_upd_info (pi_set_lord l)) t)"
  by (intro inv_intros) simp_all

lemma pt_inv_rebind_loop: "pt_inv t \<Longrightarrow> pt_inv (snd (rebind_loop ol nl as n t))"
  by (induction ol nl as n t rule: rebind_loop.induct) (simp_all add: pt_inv_set_lord)

lemma pt_inv_UpdateLordForHostname [inv_intros]:
  "pt_inv t \<Longrightarrow> pt_inv (snd (PT_UpdateLordForHostname ks ol nl t))"
  by (simp add: PT_UpdateLordForHostname_def pt_inv_rebind_loop)

lemma rebind_loop_info:
  assumes "distinct as" "\<And>a. a \<in> set as \<Longrightarrow> pt_heap t a \<noteq> None"
  shows "info_at (snd (rebind_loop ol nl as n t)) b =
      (if b \<in> set as then rebound ol nl (info_at t b) else info_at t b) \<and>
    fst (rebind_loop ol nl as n t) =
      n + length (filter (\<lambda>a. pi_lord_id (info_at t a) = ol) as)"
  using assms
proof (induction as arbitrary: n t)
  case (Cons a as)
  have h: "pt_heap t a \<noteq> None" using Cons.prems by simp
  let ?t = "pt_modify a (pe_upd_info (pi_set_lord nl)) t"
  have "pt_heap ?t b \<noteq> None" if "b \<in> set as" for b
    using Cons.prems that by (auto simp: heap_modify)
  moreover have "filter (\<lambda>b. pi_lord_id (info_at ?t b) = ol) as =
      filter (\<lambda>b. pi_lord_id (info_at t b) = ol) as"
    using Cons.prems(1) by (intro filter_cong refl) (auto simp: info_at_modify [OF h])
  ultimately show ?case
    using Cons.IH [of ?t] Cons.IH [of t] Cons.prems
    by (auto simp: info_at_modify [OF h] rebound_def info_at_def [symmetric])
qed simp

lemma go_values_addresses:
  assumes "pt_inv t" "iter_order (pt_byID t) ks"
  shows "distinct (go_values (pt_byID t) ks)" "set (go_values (pt_byID t) ks) = ran (pt_byID t)"
proof -
  show ran: "set (go_values (pt_byID t) ks) = ran (pt_byID t)"
    by (rule set_go_values_iter [OF assms(2)])
  have "inj_on snd (set (go_range (pt_byID t) ks))"
    using pt_inv_byID_inj [OF assms(1)] mem_go_range_iter [OF assms(2)]
    by (auto simp: inj_on_def)
  moreover have "distinct (go_range (pt_byID t) ks)"
    using map_fst_go_range_iter [OF assms(2)] assms(2)
    by (metis distinct_map iter_order_def)
  ultimately show "distinct (go_values (pt_byID t) ks)"
    by (simp add: go_values_def distinct_map)
qed

lemma dir_UpdateLordForHostname:
  assumes "pt_inv t" "iter_order (pt_byID t) ks" "ol \<noteq> ''''" "nl \<noteq> ''''" "ol \<noteq> nl"
  shows "dir (snd (PT_UpdateLordForHostname ks ol nl t)) p = map_option (rebound ol nl) (dir t p)"
proof -
  note as = go_values_addresses [OF assms(1,2)]
  have h: "pt_heap t a \<noteq> None" if "a \<in> set (go_values (pt_byID t) ks)" for a
    using that as(2) pt_inv_byID(1) [OF assms(1)] by (auto simp: ran_def)
  have "info_at (snd (rebind_loop ol nl (go_values (pt_byID t) ks) 0 t)) a =
      rebound ol nl (info_at t a)" if "pt_byID t p = Some a" for a
    using rebind_loop_info [OF as(1) h, of ol nl 0 a] that by (auto simp: as(2) ran_def)
  then show ?thesis
    using assms(3-5)
    by (cases "pt_byID t p") (auto simp: PT_UpdateLordForHostname_def dir_def rebind_loop_frame)
qed

lemma count_UpdateLordForHostname:
  assumes "pt_inv t" "iter_order (pt_byID t) ks" "ol \<noteq> ''''" "nl \<noteq> ''''" "ol \<noteq> nl"
  shows "fst (PT_UpdateLordForHostname ks ol nl t) =
    card {p. \<exists>i. dir t p = Some i \<and> pi_lord_id i = ol}"
proof -
  note as = go_values_addresses [OF assms(1,2)]
  have h: "pt_heap t a \<noteq> None" if "a \<in> set (go_values (pt_byID t) ks)" for a
    using that as(2) pt_inv_byID(1) [OF assms(1)] by (auto simp: ran_def)
  let ?A = "{a \<in> ran (pt_byID t). pi_lord_id (info_at t a) = ol}"
  have "length (filter P (go_values (pt_byID t) ks)) = card {a \<in> ran (pt_byID t). P a}" for P
    using distinct_card [OF distinct_filter [OF as(1)], of P] as(2)
    by (simp only: set_filter)
  then have "fst (PT_UpdateLordForHostname ks ol nl t) = card ?A"
    using rebind_loop_info [OF as(1) h, of ol nl 0] assms(3-5)
    by (simp add: PT_UpdateLordForHostname_def)
  also have "?A = (\<lambda>p. the (pt_byID t p)) ` {p. \<exists>i. dir t p = Some i \<and> pi_lord_id i = ol}"
    (is "_ = ?f ` ?P")
  proof (intro equalityI subsetI)
    fix a assume "a \<in> ?A"
    then obtain p where "pt_byID t p = Some a" "p \<in> ?P" by (auto simp: ran_def dir_def)
    then show "a \<in> ?f ` ?P" by (auto intro!: image_eqI [where x = p])
  next
    fix a assume "a \<in> ?f ` ?P"
    then obtain p b where "a = ?f p" "pt_byID t p = Some b" "pi_lord_id (info_at t b) = ol"
      by (auto simp: dir_def)
    then show "a \<in> ?A" by (auto simp: ran_def)
  qed
  also have "card \<dots> = card {p. \<exists>i. dir t p = Some i \<and> pi_lord_id i = ol}"
  proof (rule card_image, rule inj_onI)
    fix p q
    assume "p \<in> {p. \<exists>i. dir t p = Some i \<and> pi_lord_id i = ol}"
      "q \<in> {p. \<exists>i. dir t p = Some i \<and> pi_lord_id i = ol}"
      and eq: "the (pt_byID t p) = the (pt_byID t q)"
    then obtain a b where "pt_byID t p = Some a" "pt_byID t q = Some b" by (auto simp: dir_def)
    with eq show "p = q" using pt_inv_byID_inj [OF assms(1)] by simp
  qed
  finally show ?thesis .
qed

subsection \<open>Listing\<close>

lemma set_ListByTenant:
  assumes "pt_byTenant t tid = Some m" "iter_order m ks"
  shows "set (PT_ListByTenant t ks tid only) =
    {a. (\<exists>p. tenant_entry t tid p = Some a) \<and>
        (only \<longrightarrow> pi_state (info_at t a) \<in> {PROCESS_STATE_RUNNING, PROCESS_STATE_PAUSED})}"
  using assms by (auto simp: PT_ListByTenant_def set_go_values_iter ran_def tenant_entry_def)

lemma set_ListByLord:
  assumes "iter_order (pt_byID t) ks"
  shows "set (PT_ListByLord t ks lid keep) =
    {a. (\<exists>p. pt_byID t p = Some a) \<and> pi_lord_id (info_at t a) = lid \<and> keep (entry_at t a)}"
  using assms by (auto simp: PT_ListByLord_def set_go_values_iter ran_def)

subsection \<open>The exited channel\<close>

text \<open>Every process in a final state has its \<open>exited\<close> channel closed, so that a waiter returns.\<close>

definition exit_inv :: "process_table \<Rightarrow> bool" where
  "exit_inv t \<longleftrightarrow>
     (\<forall>a e. pt_heap t a = Some e \<longrightarrow> final_state (pi_state (pe_info e)) \<longrightarrow> pe_exited e)"

lemma exit_inv_New [inv_intros]: "exit_inv NewProcessTable"
  by (simp add: exit_inv_def NewProcessTable_def)

lemma exit_inv_with_wal [inv_intros]: "exit_inv t \<Longrightarrow> exit_inv (with_wal f t)"
  by (simp add: exit_inv_def)

lemma exit_inv_AttachWAL [inv_intros]: "exit_inv t \<Longrightarrow> exit_inv (PT_AttachWAL w t)"
  by (simp add: exit_inv_def PT_AttachWAL_def)

lemma exit_inv_modify:
  assumes "exit_inv t"
    and "\<And>e. (final_state (pi_state (pe_info e)) \<longrightarrow> pe_exited e) \<Longrightarrow>
              final_state (pi_state (pe_info (f e))) \<Longrightarrow> pe_exited (f e)"
  shows "exit_inv (pt_modify a f t)"
  using assms by (auto simp: exit_inv_def heap_modify)

lemma exit_inv_Create [inv_intros]:
  "exit_inv t \<Longrightarrow> \<not> final_state (pi_state info) \<Longrightarrow> exit_inv (snd (PT_Create info t))"
  by (auto simp: exit_inv_def PT_Create_simps new_entry_def)

lemma exit_inv_UpdateState [inv_intros]:
  "exit_inv t \<Longrightarrow> exit_inv (PE_UpdateState now a s l p t)"
  unfolding PE_UpdateState_def by (rule exit_inv_modify) (auto intro: exit_inv_with_wal)

lemma exit_inv_UpdateResult [inv_intros]:
  "exit_inv t \<Longrightarrow> exit_inv (PE_UpdateResult now a c s t)"
  unfolding PE_UpdateResult_def by (rule exit_inv_modify) (auto intro: exit_inv_with_wal)

lemma exit_inv_upd_info:
  "exit_inv t \<Longrightarrow> (\<And>i. pi_state (f i) = pi_state i) \<Longrightarrow> exit_inv (pt_modify a (pe_upd_info f) t)"
  by (rule exit_inv_modify) auto

lemma exit_inv_UpdateLordForHostname [inv_intros]:
  "exit_inv t \<Longrightarrow> exit_inv (snd (PT_UpdateLordForHostname ks ol nl t))"
proof -
  have "exit_inv t \<Longrightarrow> exit_inv (snd (rebind_loop ol nl as n t))" for as n
    by (induction ol nl as n t rule: rebind_loop.induct) (simp_all add: exit_inv_upd_info)
  then show "exit_inv t \<Longrightarrow> exit_inv (snd (PT_UpdateLordForHostname ks ol nl t))"
    by (simp add: PT_UpdateLordForHostname_def)
qed

lemma entry_at_UpdateState:
  "pt_heap t a \<noteq> None \<Longrightarrow> entry_at (PE_UpdateState now a s l p t) b =
     (if b = a then pe_set_state now s l p (entry_at t a) else entry_at t b)"
  by (simp add: PE_UpdateState_def entry_at_modify)

lemma exited_UpdateState_final:
  "pt_heap t a \<noteq> None \<Longrightarrow> final_state s \<Longrightarrow>
     pe_exited (entry_at (PE_UpdateState now a s l p t) a)"
  by (simp add: entry_at_UpdateState)

subsection \<open>Properties\<close>

definition demo_info :: "string \<Rightarrow> string \<Rightarrow> string \<Rightarrow> process_info" where
  "demo_info pid tid lid = zero_process_info\<lparr>pi_ref := \<lparr>ref_process_id = pid, ref_lord_id = lid,
     ref_local_pid = 0\<rparr>, pi_tenant_id := tid, pi_exec_path := ''/bin/true'',
     pi_max_restarts := 10, pi_state := PROCESS_STATE_READY\<rparr>"

definition demo_table :: process_table where
  "demo_table = PE_UpdateState 7 0 PROCESS_STATE_RUNNING ''L1'' 42
     (snd (PT_Create (demo_info ''p2'' ''t2'' ''L1'')
       (snd (PT_Create (demo_info ''p1'' ''t1'' ''L1'') (PT_AttachWAL [L_header] NewProcessTable)))))"

lemma demo_table_inv: "pt_inv demo_table"
  unfolding demo_table_def by (intro inv_intros)

lemma demo_table_order: "iter_order (pt_byID demo_table) [''p2'', ''p1'']"
  by (auto simp: iter_order_def demo_table_def PE_UpdateState_def PT_Create_simps PT_AttachWAL_def
      NewProcessTable_def demo_info_def split: if_splits)

text \<open>C35: tenants are isolated: whatever the order in which the map is read, the list of a tenant
  holds each of its processes that passes the running filter, and no process of another tenant.\<close>

theorem ListByTenant_isolated:
  assumes "pt_inv t" "pt_byTenant t tid = Some m" "iter_order m ks"
  shows "(\<forall>a\<in>set (PT_ListByTenant t ks tid only). pi_tenant_id (info_at t a) = tid) \<and>
    (\<forall>p i. dir t p = Some i \<longrightarrow> pi_tenant_id i = tid \<longrightarrow>
       \<not> only \<or> pi_state i \<in> {PROCESS_STATE_RUNNING, PROCESS_STATE_PAUSED} \<longrightarrow>
       (\<exists>a\<in>set (PT_ListByTenant t ks tid only). info_at t a = i))"
proof (intro conjI ballI allI impI)
  fix a assume "a \<in> set (PT_ListByTenant t ks tid only)"
  then show "pi_tenant_id (info_at t a) = tid"
    unfolding set_ListByTenant [OF assms(2,3)] using pt_inv_byTenant(3) [OF assms(1)] by blast
next
  fix p i
  assume i: "dir t p = Some i" "pi_tenant_id i = tid"
    "\<not> only \<or> pi_state i \<in> {PROCESS_STATE_RUNNING, PROCESS_STATE_PAUSED}"
  then obtain a where a: "pt_byID t p = Some a" "info_at t a = i" by (auto simp: dir_def)
  then have "tenant_entry t tid p = Some a" using assms(1) i(2) by (auto simp: pt_inv_def)
  then have "a \<in> set (PT_ListByTenant t ks tid only)"
    unfolding set_ListByTenant [OF assms(2,3)] using a(2) i(3) by auto
  then show "\<exists>a\<in>set (PT_ListByTenant t ks tid only). info_at t a = i" using a(2) by blast
qed

theorem ListByTenant_isolated_witness:
  "0 \<in> set (PT_ListByTenant demo_table [''p1''] ''t1'' True) \<and>
   pi_tenant_id (info_at demo_table 0) = ''t1''"
proof -
  have m: "pt_byTenant demo_table ''t1'' = Some [''p1'' \<mapsto> 0]"
    by (simp add: demo_table_def PE_UpdateState_def PT_Create_simps PT_AttachWAL_def
        NewProcessTable_def demo_info_def)
  have ord: "iter_order [''p1'' \<mapsto> 0::nat] [''p1'']" by (simp add: iter_order_def)
  have mem: "0 \<in> set (PT_ListByTenant demo_table [''p1''] ''t1'' True)"
    by (simp add: PT_ListByTenant_def m go_values_def)
      (simp add: demo_table_def PE_UpdateState_def info_at_def entry_at_def heap_modify
        PT_Create_simps PT_AttachWAL_def NewProcessTable_def)
  with ListByTenant_isolated [OF demo_table_inv m ord, of True] show ?thesis by blast
qed

text \<open>Rebinding is a bulk update of the directory: every process of the old lord now names the
  new one, every other process is as before, and the result counts the moved processes, for every
  iteration order.\<close>

theorem UpdateLordForHostname_exact:
  assumes "pt_inv t" "iter_order (pt_byID t) ks" "ol \<noteq> ''''" "nl \<noteq> ''''" "ol \<noteq> nl"
  shows "case PT_UpdateLordForHostname ks ol nl t of (n, t') \<Rightarrow>
    (\<forall>p. dir t' p = map_option (rebound ol nl) (dir t p)) \<and>
    n = card {p. \<exists>i. dir t p = Some i \<and> pi_lord_id i = ol}"
  using dir_UpdateLordForHostname [OF assms] count_UpdateLordForHostname [OF assms]
  by (simp add: case_prod_beta)

theorem UpdateLordForHostname_exact_witness:
  "\<forall>p. dir (snd (PT_UpdateLordForHostname [''p2'', ''p1''] ''L1'' ''L2'' demo_table)) p =
       map_option (rebound ''L1'' ''L2'') (dir demo_table p)"
  using UpdateLordForHostname_exact [OF demo_table_inv demo_table_order, of "''L1''" "''L2''"]
  by (simp add: case_prod_beta)

end
