(* ===== verification/Wal.thy ===== *)
theory Wal
  imports Process_Table
begin

section \<open>Replaying the write-ahead log (wal.go)\<close>

text \<open>
  The replay of the log at startup. A file is missing, cannot be opened, or is a list of lines;
  appending is in \<open>Process_Table\<close>, where the table writes its events. JSON is modelled at the level
  of values (what is written is read back, up to \<open>json_info\<close>), lines stay below the limit of the
  scanner (16 MB), and writing to the file succeeds.

  The replay is a client of the directory interface: what a table holds after it is the fold of
  the events over the abstract directory. From that follows that a restart gives back, for every
  process, everything that the table logged.
\<close>

definition processStateByName :: "string \<Rightarrow> process_state option" where
  "processStateByName s =
     (if s = ''PROCESS_STATE_UNSPECIFIED'' then Some PROCESS_STATE_UNSPECIFIED
      else if s = ''PROCESS_STATE_NEW'' then Some PROCESS_STATE_NEW
      else if s = ''PROCESS_STATE_READY'' then Some PROCESS_STATE_READY
      else if s = ''PROCESS_STATE_RUNNING'' then Some PROCESS_STATE_RUNNING
      else if s = ''PROCESS_STATE_PAUSED'' then Some PROCESS_STATE_PAUSED
      else if s = ''PROCESS_STATE_MIGRATING'' then Some PROCESS_STATE_MIGRATING
      else if s = ''PROCESS_STATE_EXITED'' then Some PROCESS_STATE_EXITED
      else if s = ''PROCESS_STATE_STOPPED'' then Some PROCESS_STATE_STOPPED
      else if s = ''PROCESS_STATE_RESTARTING'' then Some PROCESS_STATE_RESTARTING
      else None)"

lemma processStateByName_String [simp]: "processStateByName (ProcessState_String s) = Some s"
  by (cases s) (simp_all add: processStateByName_def)

subsection \<open>The replay\<close>

record replay_result =
  rep_Creates :: nat
  rep_States :: nat
  rep_Results :: nat

definition zero_replay :: replay_result where
  "zero_replay = \<lparr>rep_Creates = 0, rep_States = 0, rep_Results = 0\<rparr>"

text \<open>
  The body of the loop on one event; None is the nil dereference of \<open>info.Ref.ProcessId\<close> in
  \<open>Create\<close>, which ends the process.
\<close>

fun replay_event ::
  "time \<Rightarrow> wal_event \<Rightarrow> process_table \<times> replay_result \<Rightarrow> (process_table \<times> replay_result) option"
where
  "replay_event now (W_create InfoNil) (pt, res) = Some (pt, res)"
| "replay_event now (W_create InfoNoRef) (pt, res) = None"
| "replay_event now (W_create (InfoSome info)) (pt, res) =
     Some (snd (PT_Create info pt), res\<lparr>rep_Creates := rep_Creates res + 1\<rparr>)"
| "replay_event now (W_state processID stateName lordID localPID) (pt, res) =
     (case PT_Get pt processID of
        None \<Rightarrow> Some (pt, res)
      | Some a \<Rightarrow>
          (case processStateByName stateName of
             None \<Rightarrow> Some (pt, res)
           | Some st \<Rightarrow> Some (PE_UpdateState now a st lordID localPID pt,
                             res\<lparr>rep_States := rep_States res + 1\<rparr>)))"
| "replay_event now (W_result processID exitCode exitSig) (pt, res) =
     (case PT_Get pt processID of
        None \<Rightarrow> Some (pt, res)
      | Some a \<Rightarrow> Some (PE_UpdateResult now a exitCode exitSig pt,
                         res\<lparr>rep_Results := rep_Results res + 1\<rparr>))"
| "replay_event now (W_other ty) (pt, res) = Some (pt, res)"

text \<open>The clock gives the instant at which the n-th line is processed.\<close>

fun replay_loop ::
  "(nat \<Rightarrow> time) \<Rightarrow> nat \<Rightarrow> bool \<Rightarrow> wal_line list \<Rightarrow> process_table \<times> replay_result \<Rightarrow>
     (process_table \<times> replay_result) option"
where
  "replay_loop clk n first [] s = Some s"
| "replay_loop clk n first (line # rest) s =
     (if first \<and> line = L_header then replay_loop clk (n + 1) False rest s
      else case line of
          L_event ev \<Rightarrow>
            (case replay_event (clk n) ev s of
               None \<Rightarrow> None
             | Some s' \<Rightarrow> replay_loop clk (n + 1) False rest s')
        | _ \<Rightarrow> replay_loop clk (n + 1) False rest s)"

datatype wal_file = F_missing | F_error string | F_lines "wal_line list"

definition ReplayWAL ::
  "(nat \<Rightarrow> time) \<Rightarrow> wal_file \<Rightarrow> process_table \<Rightarrow>
     ((replay_result \<times> go_error option) \<times> process_table) option"
where
  "ReplayWAL clk f pt =
     (case f of
        F_missing \<Rightarrow> Some ((zero_replay, None), pt)
      | F_error msg \<Rightarrow> Some ((zero_replay, Some (Errorf msg)), pt)
      | F_lines ls \<Rightarrow>
          (case replay_loop clk 0 True ls (pt, zero_replay) of
             None \<Rightarrow> None
           | Some (pt', res) \<Rightarrow> Some ((res, None), pt')))"

definition WriteHeader :: "wal_file \<Rightarrow> wal_file" where
  "WriteHeader f = (case f of F_missing \<Rightarrow> F_lines [L_header] | _ \<Rightarrow> f)"

text \<open>\<open>OpenWAL\<close>: the file is created when it does not exist; appending keeps what is there.\<close>

definition OpenWAL :: "wal_file \<Rightarrow> go_error + wal_line list" where
  "OpenWAL f = (case f of
      F_missing \<Rightarrow> Inr []
    | F_error msg \<Rightarrow> Inl (Errorf (''open wal: '' @ msg))
    | F_lines ls \<Rightarrow> Inr ls)"

text \<open>\<open>RotateWAL\<close>: the file is renamed away; the pair is the file under its name and the rotated one.\<close>

definition RotateWAL :: "wal_file \<Rightarrow> wal_file \<times> wal_file option" where
  "RotateWAL f = (case f of F_missing \<Rightarrow> (F_missing, None) | _ \<Rightarrow> (F_missing, Some f))"

text \<open>
  The startup of the scheduler (cmd/scheduler/main.go): write the header if the file is new,
  replay, and only then attach the log to the table, so that the replay itself is not logged.
\<close>

definition scheduler_startup_wal ::
  "(nat \<Rightarrow> time) \<Rightarrow> wal_file \<Rightarrow> (process_table \<times> wal_file) option"
where
  "scheduler_startup_wal clk f =
     (let f1 = WriteHeader f in
      case ReplayWAL clk f1 NewProcessTable of
        None \<Rightarrow> None
      | Some (_, pt) \<Rightarrow>
          (case OpenWAL f1 of
             Inl _ \<Rightarrow> Some (pt, f1)
           | Inr ls \<Rightarrow> Some (PT_AttachWAL ls pt, F_lines ls)))"

subsection \<open>The directory interface\<close>

text \<open>
  What the replay needs of a table: creating an entry, changing the state and recording the
  result of the process found under an id, each seen through the lookup. \<open>replay_with\<close> is the
  replay of one event over any such table.
\<close>

fun replay_with ::
  "(process_info \<Rightarrow> 's \<Rightarrow> 's) \<Rightarrow> (time \<Rightarrow> string \<Rightarrow> process_state \<Rightarrow> string \<Rightarrow> i32 \<Rightarrow> 's \<Rightarrow> 's) \<Rightarrow>
   (time \<Rightarrow> string \<Rightarrow> i32 \<Rightarrow> i32 \<Rightarrow> 's \<Rightarrow> 's) \<Rightarrow> time \<Rightarrow> wal_event \<Rightarrow> 's \<Rightarrow> 's option"
where
  "replay_with c u r now (W_create InfoNil) s = Some s"
| "replay_with c u r now (W_create InfoNoRef) s = None"
| "replay_with c u r now (W_create (InfoSome info)) s = Some (c info s)"
| "replay_with c u r now (W_state p name l pid) s =
     (case processStateByName name of None \<Rightarrow> Some s | Some st \<Rightarrow> Some (u now p st l pid s))"
| "replay_with c u r now (W_result p code sig) s = Some (r now p code sig s)"
| "replay_with c u r now (W_other ty) s = Some s"

fun replay_all ::
  "(time \<Rightarrow> wal_event \<Rightarrow> 's \<Rightarrow> 's option) \<Rightarrow> (nat \<Rightarrow> time) \<Rightarrow> nat \<Rightarrow> wal_line list \<Rightarrow> 's \<Rightarrow> 's option"
where
  "replay_all step clk n [] s = Some s"
| "replay_all step clk n (L_event ev # ls) s =
     (case step (clk n) ev s of None \<Rightarrow> None | Some s' \<Rightarrow> replay_all step clk (n + 1) ls s')"
| "replay_all step clk n (line # ls) s = replay_all step clk (n + 1) ls s"

type_synonym directory = "string \<Rightarrow> process_info option"

definition dir_create :: "process_info \<Rightarrow> directory \<Rightarrow> directory" where
  "dir_create i d = d(pi_process_id i \<mapsto> i)"

definition dir_update :: "string \<Rightarrow> (process_info \<Rightarrow> process_info) \<Rightarrow> directory \<Rightarrow> directory" where
  "dir_update p f d = (case d p of None \<Rightarrow> d | Some i \<Rightarrow> d(p \<mapsto> f i))"

definition dir_event :: "time \<Rightarrow> wal_event \<Rightarrow> directory \<Rightarrow> directory option" where
  "dir_event = replay_with dir_create (\<lambda>now p st l pid. dir_update p (set_state now st l pid))
     (\<lambda>now p code sig. dir_update p (set_result now code sig))"

locale process_directory =
  fixes lookup :: "'s \<Rightarrow> directory"
    and create :: "process_info \<Rightarrow> 's \<Rightarrow> 's"
    and update_state :: "time \<Rightarrow> string \<Rightarrow> process_state \<Rightarrow> string \<Rightarrow> i32 \<Rightarrow> 's \<Rightarrow> 's"
    and update_result :: "time \<Rightarrow> string \<Rightarrow> i32 \<Rightarrow> i32 \<Rightarrow> 's \<Rightarrow> 's"
    and good :: "'s \<Rightarrow> bool"
  assumes good_create: "good s \<Longrightarrow> good (create i s)"
    and good_state: "good s \<Longrightarrow> good (update_state now p st l pid s)"
    and good_result: "good s \<Longrightarrow> good (update_result now p code sig s)"
    and lookup_create: "good s \<Longrightarrow> lookup (create i s) = dir_create i (lookup s)"
    and lookup_state: "good s \<Longrightarrow>
      lookup (update_state now p st l pid s) = dir_update p (set_state now st l pid) (lookup s)"
    and lookup_result: "good s \<Longrightarrow>
      lookup (update_result now p code sig s) = dir_update p (set_result now code sig) (lookup s)"
begin

lemma replay_with_directory:
  assumes "good s"
  shows "map_option lookup (replay_with create update_state update_result now ev s) =
           dir_event now ev (lookup s)"
    and "replay_with create update_state update_result now ev s = Some s' \<Longrightarrow> good s'"
  using assms good_create good_state good_result
  by (cases "(create, update_state, update_result, now, ev, s)" rule: replay_with.cases;
      force simp: dir_event_def lookup_create lookup_state lookup_result
        split: option.splits)+

lemma replay_all_directory:
  assumes "good s"
  shows "map_option lookup
      (replay_all (replay_with create update_state update_result) clk n ls s) =
    replay_all dir_event clk n ls (lookup s)"
  using assms
proof (induction "replay_with create update_state update_result" clk n ls s rule: replay_all.induct)
  case (2 clk n ev ls s)
  show ?case
  proof (cases "replay_with create update_state update_result (clk n) ev s")
    case None
    then show ?thesis using replay_with_directory(1) [OF 2(2), of "clk n" ev] by simp
  next
    case (Some s')
    then have "dir_event (clk n) ev (lookup s) = Some (lookup s')" "good s'"
      using replay_with_directory [OF 2(2), of "clk n" ev] by auto
    then show ?thesis using 2(1) Some by simp
  qed
qed simp_all

end

subsection \<open>The process table is a directory\<close>

definition pt_create :: "process_info \<Rightarrow> process_table \<Rightarrow> process_table" where
  "pt_create info t = snd (PT_Create info t)"

definition pt_state ::
  "time \<Rightarrow> string \<Rightarrow> process_state \<Rightarrow> string \<Rightarrow> i32 \<Rightarrow> process_table \<Rightarrow> process_table" where
  "pt_state now p st l pid t =
     (case PT_Get t p of None \<Rightarrow> t | Some a \<Rightarrow> PE_UpdateState now a st l pid t)"

definition pt_result :: "time \<Rightarrow> string \<Rightarrow> i32 \<Rightarrow> i32 \<Rightarrow> process_table \<Rightarrow> process_table" where
  "pt_result now p code sig t =
     (case PT_Get t p of None \<Rightarrow> t | Some a \<Rightarrow> PE_UpdateResult now a code sig t)"

lemma dir_Get: "PT_Get t p = None \<Longrightarrow> dir t p = None"
  "PT_Get t p = Some a \<Longrightarrow> dir t p = Some (info_at t a)"
  by (simp_all add: PT_Get_def dir_def)

interpretation pt_dir: process_directory dir pt_create pt_state pt_result pt_inv
proof
  fix t :: process_table and now p st l pid code sig i
  assume inv: "pt_inv t"
  show "pt_inv (pt_create i t)" "pt_inv (pt_state now p st l pid t)"
    "pt_inv (pt_result now p code sig t)"
    using inv by (auto simp: pt_create_def pt_state_def pt_result_def split: option.split
        intro: inv_intros)
  show "dir (pt_create i t) = dir_create i (dir t)"
    by (simp add: pt_create_def dir_create_def dir_Create [OF inv])
  show "dir (pt_state now p st l pid t) = dir_update p (set_state now st l pid) (dir t)"
    by (auto simp: pt_state_def dir_update_def dir_Get dir_UpdateState [OF inv] split: option.split)
  show "dir (pt_result now p code sig t) = dir_update p (set_result now code sig) (dir t)"
    by (auto simp: pt_result_def dir_update_def dir_Get dir_UpdateResult [OF inv]
        split: option.split)
qed

lemma replay_event_with:
  "map_option fst (replay_event now ev (pt, res)) =
     replay_with pt_create pt_state pt_result now ev pt"
  by (cases "(now, ev, (pt, res))" rule: replay_event.cases)
    (auto simp: pt_create_def pt_state_def pt_result_def split: option.split)

lemma replay_loop_all:
  "map_option fst (replay_loop clk n first ls s) =
     replay_all (replay_with pt_create pt_state pt_result) clk n ls (fst s)"
proof (induction clk n first ls s rule: replay_loop.induct)
  case (2 clk n first line rest s)
  note IH = "2.IH"
  obtain pt res where s: "s = (pt, res)" by (cases s)
  show ?case
  proof (cases line)
    case (L_event ev)
    show ?thesis
    proof (cases "replay_event (clk n) ev (pt, res)")
      case None
      then show ?thesis
        using replay_event_with [of "clk n" ev pt res] L_event by (simp add: s)
    next
      case (Some s')
      then show ?thesis
        using IH(4) [of ev s'] replay_event_with [of "clk n" ev pt res, symmetric] L_event
        by (simp add: s)
    qed
  qed (use IH in \<open>auto simp: s\<close>)
qed simp

text \<open>What is in the table after a replay into an empty one.\<close>

lemma ReplayWAL_dir:
  assumes "ReplayWAL clk (F_lines ls) NewProcessTable = Some ((res, err), pt)"
  shows "replay_all dir_event clk 0 ls Map.empty = Some (dir pt)"
proof -
  have "replay_loop clk 0 True ls (NewProcessTable, zero_replay) = Some (pt, res)"
    using assms by (auto simp: ReplayWAL_def split: option.splits)
  then have "replay_all (replay_with pt_create pt_state pt_result) clk 0 ls NewProcessTable = Some pt"
    using replay_loop_all [of clk 0 True ls "(NewProcessTable, zero_replay)"] by simp
  then show ?thesis
    using pt_dir.replay_all_directory [OF pt_inv_New, of clk 0 ls] by simp
qed

lemma ReplayWAL_panics_iff:
  "ReplayWAL clk (F_lines ls) NewProcessTable = None \<longleftrightarrow>
     replay_all dir_event clk 0 ls Map.empty = None"
proof -
  have "ReplayWAL clk (F_lines ls) NewProcessTable = None \<longleftrightarrow>
      map_option fst (replay_loop clk 0 True ls (NewProcessTable, zero_replay)) = None"
    by (auto simp: ReplayWAL_def split: option.split)
  also have "\<dots> \<longleftrightarrow> replay_all dir_event clk 0 ls Map.empty = None"
    unfolding replay_loop_all fst_conv
    using arg_cong [OF pt_dir.replay_all_directory [OF pt_inv_New, of clk 0 ls],
        of "\<lambda>x. x = None"] by simp
  finally show ?thesis .
qed

lemma pt_inv_replay_all:
  "pt_inv t \<Longrightarrow> replay_all (replay_with pt_create pt_state pt_result) clk n ls t = Some t' \<Longrightarrow>
     pt_inv t'"
proof (induction "replay_with pt_create pt_state pt_result" clk n ls t rule: replay_all.induct)
  case (2 clk n ev ls s)
  then show ?case
    using pt_dir.replay_with_directory(2) [OF 2(2)] by (auto split: option.splits)
qed auto

lemma pt_inv_ReplayWAL:
  assumes "ReplayWAL clk f t = Some (r, t')" "pt_inv t"
  shows "pt_inv t'"
proof (cases f)
  case (F_lines ls)
  then obtain res where "replay_loop clk 0 True ls (t, zero_replay) = Some (t', res)"
    using assms(1) by (auto simp: ReplayWAL_def split: option.splits)
  then show ?thesis
    using replay_loop_all [of clk 0 True ls "(t, zero_replay)"] pt_inv_replay_all [OF assms(2)]
    by simp
qed (use assms in \<open>auto simp: ReplayWAL_def\<close>)

subsection \<open>The log explains the table\<close>

text \<open>
  What of a process a restart gives back: everything except the instants (which become the time
  of the restart), the counters and texts that are written without logging, and the lord, which
  recovery and rebinding change without logging.
\<close>

definition durable :: "process_info \<Rightarrow> process_info" where
  "durable i = i\<lparr>pi_ref := (pi_ref i)\<lparr>ref_lord_id := ''''\<rparr>, pi_env := omit_empty (pi_env i),
     pi_state_changed_at := None, pi_exited_at := None, pi_restart_count := 0,
     pi_last_error := '''', pi_cpu_usage_usec_total := 0, pi_mem_peak_bytes := 0\<rparr>"

definition same_durable :: "directory \<Rightarrow> directory \<Rightarrow> bool" where
  "same_durable d d' \<longleftrightarrow> (\<forall>p. map_option durable (d p) = map_option durable (d' p))"

definition log_explains :: "wal_line list \<Rightarrow> directory \<Rightarrow> bool" where
  "log_explains ls d \<longleftrightarrow>
     (\<forall>clk. \<exists>d'. replay_all dir_event clk 0 ls Map.empty = Some d' \<and> same_durable d' d)"

definition wal_inv :: "process_table \<Rightarrow> bool" where
  "wal_inv t \<longleftrightarrow> (case pt_wal t of None \<Rightarrow> True | Some ls \<Rightarrow> log_explains ls (dir t))"

lemma durable_json [simp]: "durable (json_info i) = durable i"
  by (simp add: durable_def json_info_def)

lemma durable_set_lord [simp]: "durable (pi_set_lord l i) = durable i"
  by (simp add: durable_def pi_set_lord_def)

lemma durable_set_state:
  "durable i = durable j \<Longrightarrow> durable (set_state now st l pid i) = durable (set_state now' st l' pid j)"
proof -
  have "durable (set_state now st l pid i) =
      (durable i)\<lparr>pi_state := st,
        pi_ref := (if pid = 0 then pi_ref (durable i) else (pi_ref (durable i))\<lparr>ref_local_pid := pid\<rparr>)\<rparr>"
    for now l i
    by (simp add: durable_def set_state_def Let_def pi_set_lord_def pi_set_local_pid_def)
  then show "durable i = durable j \<Longrightarrow>
      durable (set_state now st l pid i) = durable (set_state now' st l' pid j)"
    by simp
qed

lemma durable_set_result:
  "durable i = durable j \<Longrightarrow> durable (set_result now c s i) = durable (set_result now' c s j)"
proof -
  have "durable (set_result now c s i) = (durable i)\<lparr>pi_exit_code := c, pi_exit_signal := s\<rparr>"
    for now i
    by (simp add: durable_def set_result_def)
  then show "durable i = durable j \<Longrightarrow> durable (set_result now c s i) = durable (set_result now' c s j)"
    by simp
qed

subsection \<open>Every logged operation keeps the log explaining the table\<close>

lemma same_durable_refl [simp]: "same_durable d d"
  by (simp add: same_durable_def)

lemma same_durable_sym: "same_durable d e \<Longrightarrow> same_durable e d"
  by (simp add: same_durable_def)

lemma same_durable_trans: "same_durable d e \<Longrightarrow> same_durable e f \<Longrightarrow> same_durable d f"
  by (simp add: same_durable_def)

lemma same_durable_upd:
  "same_durable d e \<Longrightarrow> durable i = durable j \<Longrightarrow> same_durable (d(p \<mapsto> i)) (e(p \<mapsto> j))"
  by (simp add: same_durable_def)

lemma same_durable_D:
  "same_durable d e \<Longrightarrow> e p = Some j \<Longrightarrow> \<exists>i. d p = Some i \<and> durable i = durable j"
  unfolding same_durable_def by (metis (mono_tags) map_option_eq_Some)

lemma replay_all_append:
  "replay_all step clk n (ls @ [L_event ev]) s =
     (case replay_all step clk n ls s of
        None \<Rightarrow> None | Some s' \<Rightarrow> step (clk (n + length ls)) ev s')"
  by (induction step clk n ls s rule: replay_all.induct) (auto split: option.split)

lemma log_explains_append:
  assumes "log_explains ls d"
    and "\<And>now d'. same_durable d' d \<Longrightarrow> \<exists>d''. dir_event now ev d' = Some d'' \<and> same_durable d'' e"
  shows "log_explains (ls @ [L_event ev]) e"
  unfolding log_explains_def
proof
  fix clk
  obtain d' where "replay_all dir_event clk 0 ls Map.empty = Some d'" "same_durable d' d"
    using assms(1) by (auto simp: log_explains_def)
  then show "\<exists>d'. replay_all dir_event clk 0 (ls @ [L_event ev]) Map.empty = Some d' \<and>
      same_durable d' e"
    using assms(2) by (auto simp: replay_all_append)
qed

lemma log_explains_cong: "log_explains ls d \<Longrightarrow> same_durable d e \<Longrightarrow> log_explains ls e"
  unfolding log_explains_def by (blast intro: same_durable_trans)

lemma wal_AttachWAL [simp]: "pt_wal (PT_AttachWAL w t) = Some w"
  by (simp add: PT_AttachWAL_def)

lemma log_explains_start: "log_explains [L_header] Map.empty" "log_explains [] Map.empty"
  by (simp_all add: log_explains_def same_durable_def)

text \<open>Operations that change no durable field need no log entry.\<close>

lemma wal_inv_cong:
  "wal_inv t \<Longrightarrow> pt_wal t' = pt_wal t \<Longrightarrow> same_durable (dir t) (dir t') \<Longrightarrow> wal_inv t'"
  by (auto simp: wal_inv_def split: option.splits intro: log_explains_cong)

lemma wal_inv_Create [inv_intros]:
  assumes "pt_inv t" "wal_inv t"
  shows "wal_inv (snd (PT_Create info t))"
proof (cases "pt_wal t")
  case (Some ls)
  have "log_explains (ls @ [L_event (W_create (InfoSome (json_info info)))])
      ((dir t)(pi_process_id info \<mapsto> info))"
  proof (rule log_explains_append)
    show "log_explains ls (dir t)" using assms(2) Some by (simp add: wal_inv_def)
  qed (auto simp: dir_event_def dir_create_def intro: same_durable_upd)
  then show ?thesis
    using Some
    by (simp add: wal_inv_def PT_Create_simps dir_Create [OF assms(1)] WAL_AppendCreate_def
        WAL_append_def)
qed (simp add: wal_inv_def PT_Create_simps)

lemma dir_update_durable:
  assumes "same_durable d' d" "d p = Some i" "\<And>j. durable j = durable i \<Longrightarrow> durable (f j) = durable (g i)"
  shows "same_durable (dir_update p f d') (d(p \<mapsto> g i))"
proof -
  obtain j where "d' p = Some j" "durable j = durable i"
    using same_durable_D [OF assms(1,2)] by blast
  then show ?thesis
    using assms(1,3) by (auto simp: dir_update_def intro: same_durable_upd)
qed

lemma wal_inv_UpdateState [inv_intros]:
  assumes "pt_inv t" "wal_inv t" "PT_Get t p = Some a"
  shows "wal_inv (PE_UpdateState now a st l pid t)"
proof (cases "pt_wal t")
  case (Some ls)
  have pid: "pi_process_id (info_at t a) = p"
    using assms(1,3) by (auto simp: PT_Get_def dest: pt_inv_byID)
  have "log_explains (ls @ [L_event (W_state p (ProcessState_String st) l pid)])
      ((dir t)(p \<mapsto> set_state now st l pid (info_at t a)))"
  proof (rule log_explains_append)
    show "log_explains ls (dir t)" using assms(2) Some by (simp add: wal_inv_def)
    fix now' d' assume "same_durable d' (dir t)"
    then show "\<exists>d''. dir_event now' (W_state p (ProcessState_String st) l pid) d' = Some d'' \<and>
        same_durable d'' ((dir t)(p \<mapsto> set_state now st l pid (info_at t a)))"
      using dir_update_durable [of d' "dir t" p "info_at t a" "set_state now' st l pid"
          "set_state now st l pid"] durable_set_state dir_Get(2) [OF assms(3)]
      by (auto simp: dir_event_def)
  qed
  then show ?thesis
    using Some by (simp add: wal_inv_def wal_UpdateState dir_UpdateState [OF assms(1,3)] pid
        WAL_AppendState_def WAL_append_def)
qed (simp add: wal_inv_def wal_UpdateState)

lemma wal_inv_UpdateResult [inv_intros]:
  assumes "pt_inv t" "wal_inv t" "PT_Get t p = Some a"
  shows "wal_inv (PE_UpdateResult now a c s t)"
proof (cases "pt_wal t")
  case (Some ls)
  have pid: "pi_process_id (info_at t a) = p"
    using assms(1,3) by (auto simp: PT_Get_def dest: pt_inv_byID)
  have "log_explains (ls @ [L_event (W_result p c s)])
      ((dir t)(p \<mapsto> set_result now c s (info_at t a)))"
  proof (rule log_explains_append)
    show "log_explains ls (dir t)" using assms(2) Some by (simp add: wal_inv_def)
    fix now' d' assume "same_durable d' (dir t)"
    then show "\<exists>d''. dir_event now' (W_result p c s) d' = Some d'' \<and>
        same_durable d'' ((dir t)(p \<mapsto> set_result now c s (info_at t a)))"
      using dir_update_durable [of d' "dir t" p "info_at t a" "set_result now' c s"
          "set_result now c s"] durable_set_result dir_Get(2) [OF assms(3)]
      by (auto simp: dir_event_def)
  qed
  then show ?thesis
    using Some by (simp add: wal_inv_def wal_UpdateResult dir_UpdateResult [OF assms(1,3)] pid
        WAL_AppendResult_def WAL_append_def)
qed (simp add: wal_inv_def wal_UpdateResult)

lemma wal_inv_UpdateLordForHostname [inv_intros]:
  assumes "pt_inv t" "wal_inv t" "iter_order (pt_byID t) ks"
  shows "wal_inv (snd (PT_UpdateLordForHostname ks ol nl t))"
proof (cases "ol = '''' \<or> nl = '''' \<or> ol = nl")
  case True
  then show ?thesis using assms by (auto simp: PT_UpdateLordForHostname_def)
next
  case False
  show ?thesis
  proof (rule wal_inv_cong [OF assms(2)])
    show "pt_wal (snd (PT_UpdateLordForHostname ks ol nl t)) = pt_wal t"
      by (simp add: PT_UpdateLordForHostname_def rebind_loop_frame)
    show "same_durable (dir t) (dir (snd (PT_UpdateLordForHostname ks ol nl t)))"
      using False
      by (auto simp: same_durable_def dir_UpdateLordForHostname [OF assms(1,3)] rebound_def
          option.map_comp comp_def intro!: option.map_cong)
  qed
qed

text \<open>Replaying at another time, from a table that agrees on the durable part, gives the same.\<close>

lemma dir_update_same:
  assumes "same_durable d' d" "\<And>i j. durable i = durable j \<Longrightarrow> durable (f i) = durable (g j)"
  shows "same_durable (dir_update p f d') (dir_update p g d)"
proof (cases "d p")
  case None
  then have "d' p = None" using assms(1) by (metis map_option_is_None same_durable_def)
  then show ?thesis using None assms(1) by (simp add: dir_update_def)
next
  case (Some i)
  then show ?thesis
    using dir_update_durable [OF assms(1) Some, of f g] assms(2) by (simp add: dir_update_def)
qed

lemma dir_event_same:
  assumes "dir_event now ev d = Some e" "same_durable d' d"
  shows "\<exists>e'. dir_event now' ev d' = Some e' \<and> same_durable e' e"
  using assms(1) unfolding dir_event_def
  by (cases "(dir_create, (\<lambda>now p st l pid. dir_update p (set_state now st l pid)),
      (\<lambda>now p code sig. dir_update p (set_result now code sig)), now, ev, d)"
      rule: replay_with.cases)
    (use assms(2) in \<open>auto split: option.splits
      intro!: dir_update_same durable_set_state durable_set_result
      simp: dir_create_def same_durable_upd\<close>)

lemma replay_all_same:
  "replay_all dir_event clk n ls d = Some e \<Longrightarrow> same_durable d' d \<Longrightarrow>
     \<exists>e'. replay_all dir_event clk' n' ls d' = Some e' \<and> same_durable e' e"
proof (induction ls arbitrary: n n' d d')
  case (Cons line ls)
  show ?case
  proof (cases line)
    case (L_event ev)
    then obtain d1 where d1: "dir_event (clk n) ev d = Some d1"
      "replay_all dir_event clk (n + 1) ls d1 = Some e"
      using Cons.prems(1) by (auto split: option.splits)
    obtain d1' where "dir_event (clk' n') ev d' = Some d1'" "same_durable d1' d1"
      using dir_event_same [OF d1(1) Cons.prems(2)] by blast
    then show ?thesis using Cons.IH [OF d1(2)] L_event by auto
  qed (use Cons in \<open>auto\<close>)
qed simp

lemma startup_lines:
  "scheduler_startup_wal clk (F_lines ls) =
     (case ReplayWAL clk (F_lines ls) NewProcessTable of
        None \<Rightarrow> None | Some (_, pt) \<Rightarrow> Some (PT_AttachWAL ls pt, F_lines ls))"
  by (auto simp: scheduler_startup_wal_def WriteHeader_def OpenWAL_def split: option.split)

lemma startup_lines_dir:
  assumes "scheduler_startup_wal clk (F_lines ls) = Some (t, f')"
  shows "f' = F_lines ls" "pt_wal t = Some ls" "pt_inv t"
    "replay_all dir_event clk 0 ls Map.empty = Some (dir t)"
proof -
  obtain res err pt where r: "ReplayWAL clk (F_lines ls) NewProcessTable = Some ((res, err), pt)"
    "t = PT_AttachWAL ls pt" "f' = F_lines ls"
    using assms by (auto simp: startup_lines split: option.splits)
  then show "f' = F_lines ls" "pt_wal t = Some ls" by (simp_all add: PT_AttachWAL_def)
  show "pt_inv t" unfolding r(2)
    by (rule pt_inv_AttachWAL, rule pt_inv_ReplayWAL [OF r(1) pt_inv_New])
  show "replay_all dir_event clk 0 ls Map.empty = Some (dir t)"
    using ReplayWAL_dir [OF r(1)] r(2) by simp
qed

lemma wal_inv_startup:
  assumes "scheduler_startup_wal clk (F_lines ls) = Some (t, f')"
  shows "wal_inv t"
  using replay_all_same [OF startup_lines_dir(4) [OF assms] same_durable_refl]
    startup_lines_dir(2) [OF assms]
  by (simp add: wal_inv_def log_explains_def)

lemma startup_recovers:
  assumes "wal_inv t" "pt_wal t = Some ls"
  obtains t' where "scheduler_startup_wal clk (F_lines ls) = Some (t', F_lines ls)"
    "same_durable (dir t') (dir t)"
proof -
  obtain d where d: "replay_all dir_event clk 0 ls Map.empty = Some d" "same_durable d (dir t)"
    using assms by (auto simp: wal_inv_def log_explains_def)
  have "ReplayWAL clk (F_lines ls) NewProcessTable \<noteq> None"
    unfolding ReplayWAL_panics_iff using d(1) by simp
  then obtain t' where t': "scheduler_startup_wal clk (F_lines ls) = Some (t', F_lines ls)"
    by (auto simp: startup_lines split: option.splits)
  moreover have "dir t' = d" using startup_lines_dir(4) [OF t'] d(1) by simp
  ultimately show thesis using that d(2) by blast
qed

subsection \<open>New processes in the log\<close>

text \<open>
  A process is created alive, with no restart on its account, for a validated order. The creations
  in the log are such, so that a replay, which closes the exited channel of a process only when it meets its
  final state, leaves no finished process with an open channel.
\<close>

text \<open>What a validated request asks for.\<close>

definition valid_order :: "process_info \<Rightarrow> bool" where
  "valid_order i \<longleftrightarrow> pi_tenant_id i \<noteq> '''' \<and> pi_exec_path i \<noteq> '''' \<and>
     resources_valid (pi_resources i) \<and> pi_max_restarts i \<noteq> 0"

definition fresh_info :: "process_info \<Rightarrow> bool" where
  "fresh_info i \<longleftrightarrow> \<not> final_state (pi_state i) \<and> pi_restart_count i = 0 \<and>
     pi_process_id i \<noteq> '''' \<and> valid_order i"

lemma fresh_json [simp]: "fresh_info (json_info i) = fresh_info i"
  by (simp add: fresh_info_def valid_order_def json_info_def)

fun fresh_line :: "wal_line \<Rightarrow> bool" where
  "fresh_line (L_event (W_create (InfoSome i))) = fresh_info i"
| "fresh_line _ = True"

definition log_fresh :: "process_table \<Rightarrow> bool" where
  "log_fresh t \<longleftrightarrow> (case pt_wal t of None \<Rightarrow> True | Some ls \<Rightarrow> \<forall>line\<in>set ls. fresh_line line)"

lemma log_fresh_cong: "pt_wal t' = pt_wal t \<Longrightarrow> log_fresh t' = log_fresh t"
  by (simp add: log_fresh_def)

lemma log_fresh_Create [inv_intros]:
  "log_fresh t \<Longrightarrow> fresh_info info \<Longrightarrow> log_fresh (snd (PT_Create info t))"
  by (auto simp: log_fresh_def PT_Create_simps WAL_AppendCreate_def WAL_append_def
      split: option.splits)

lemma log_fresh_UpdateState [inv_intros]:
  "log_fresh t \<Longrightarrow> log_fresh (PE_UpdateState now a st l pid t)"
  by (auto simp: log_fresh_def wal_UpdateState WAL_AppendState_def WAL_append_def split: option.splits)

lemma log_fresh_UpdateResult [inv_intros]:
  "log_fresh t \<Longrightarrow> log_fresh (PE_UpdateResult now a c s t)"
  by (auto simp: log_fresh_def wal_UpdateResult WAL_AppendResult_def WAL_append_def split: option.splits)

lemma log_fresh_UpdateLordForHostname [inv_intros]:
  "log_fresh t \<Longrightarrow> log_fresh (snd (PT_UpdateLordForHostname ks ol nl t))"
  using log_fresh_cong [of "snd (PT_UpdateLordForHostname ks ol nl t)" t]
  by (simp add: PT_UpdateLordForHostname_def rebind_loop_frame)

lemma replay_event_keeps:
  assumes "\<And>now info t. fresh_info info \<Longrightarrow> P t \<Longrightarrow> P (snd (PT_Create info t))"
    and "\<And>now a st l pid t. P t \<Longrightarrow> P (PE_UpdateState now a st l pid t)"
    and "\<And>now a c s t. P t \<Longrightarrow> P (PE_UpdateResult now a c s t)"
    and "replay_event now ev (t, r) = Some (t', r')" "fresh_line (L_event ev)" "P t"
  shows "P t'"
  using assms(4-)
  by (cases "(now, ev, t, r)" rule: replay_event.cases)
    (auto split: option.splits intro: assms(1-3))

lemma replay_loop_keeps:
  assumes "\<And>info t. fresh_info info \<Longrightarrow> P t \<Longrightarrow> P (snd (PT_Create info t))"
    and "\<And>now a st l pid t. P t \<Longrightarrow> P (PE_UpdateState now a st l pid t)"
    and "\<And>now a c s t. P t \<Longrightarrow> P (PE_UpdateResult now a c s t)"
    and "replay_loop clk n first ls (t, r) = Some (t', r')" "\<forall>line\<in>set ls. fresh_line line" "P t"
  shows "P t'"
  using assms(4-)
proof (induction ls arbitrary: n first t r)
  case (Cons line ls)
  show ?case
  proof (cases line)
    case (L_event ev)
    then obtain t1 r1 where "replay_event (clk n) ev (t, r) = Some (t1, r1)"
      "replay_loop clk (n + 1) False ls (t1, r1) = Some (t', r')"
      using Cons.prems(1) by (auto split: option.splits)
    moreover have "P t1"
      using replay_event_keeps [of P, OF assms(1-3) calculation(1)] Cons.prems(2,3) L_event by simp
    ultimately show ?thesis using Cons.IH Cons.prems(2) by simp
  qed (use Cons in \<open>auto split: if_splits\<close>)
qed simp

lemma startup_keeps:
  assumes "\<And>info t. fresh_info info \<Longrightarrow> P t \<Longrightarrow> P (snd (PT_Create info t))"
    and "\<And>now a st l pid t. P t \<Longrightarrow> P (PE_UpdateState now a st l pid t)"
    and "\<And>now a c s t. P t \<Longrightarrow> P (PE_UpdateResult now a c s t)"
    and "P NewProcessTable" "\<And>t. P (PT_AttachWAL ls t) = P t" "\<forall>line\<in>set ls. fresh_line line"
    and "scheduler_startup_wal clk (F_lines ls) = Some (t, f)"
  shows "P t"
proof -
  obtain r t0 where r: "replay_loop clk 0 True ls (NewProcessTable, zero_replay) = Some (t0, r)"
    "t = PT_AttachWAL ls t0"
    using assms(7) by (auto simp: startup_lines ReplayWAL_def split: option.splits)
  then show ?thesis
    using replay_loop_keeps [of P, OF assms(1-3) r(1) assms(6,4)] assms(5) by simp
qed

lemma exit_inv_startup:
  assumes "scheduler_startup_wal clk (F_lines ls) = Some (t, f)" "\<forall>line\<in>set ls. fresh_line line"
  shows "exit_inv t"
proof (rule startup_keeps [of exit_inv, OF _ _ _ _ _ assms(2,1)])
  show "exit_inv (PT_AttachWAL ls t) = exit_inv t" for t
    by (simp add: exit_inv_def PT_AttachWAL_def)
qed (auto simp: fresh_info_def intro: exit_inv_New exit_inv_Create exit_inv_UpdateState
    exit_inv_UpdateResult)

subsection \<open>Properties\<close>

text \<open>A restart recovers the table: when the log explains a table (which every logged operation
  preserves), starting up on that log succeeds and gives a well-formed table that holds exactly
  the same processes with the same durable data: tenant, program, arguments, environment,
  resources, state, local pid and result.\<close>

theorem restart_recovers_table:
  assumes "wal_inv t" "pt_wal t = Some ls"
  shows "\<exists>t'. scheduler_startup_wal clk (F_lines ls) = Some (t', F_lines ls) \<and>
    pt_inv t' \<and> wal_inv t' \<and>
    (\<forall>p. map_option durable (dir t' p) = map_option durable (dir t p))"
proof -
  obtain t' where t': "scheduler_startup_wal clk (F_lines ls) = Some (t', F_lines ls)"
    "same_durable (dir t') (dir t)"
    by (rule startup_recovers [OF assms])
  then show ?thesis
    using startup_lines_dir(3) [OF t'(1)] wal_inv_startup [OF t'(1)] by (auto simp: same_durable_def)
qed

lemma demo_table_wal: "wal_inv demo_table"
proof -
  have "wal_inv (PT_AttachWAL [L_header] NewProcessTable)"
    by (simp add: wal_inv_def wal_AttachWAL log_explains_start)
  then show ?thesis
    unfolding demo_table_def
    by (intro wal_inv_UpdateState [where p = "''p1''"] inv_intros)
      (simp_all add: PT_Get_def PT_Create_simps PT_AttachWAL_def NewProcessTable_def demo_info_def)
qed

definition demo_log :: "wal_line list" where
  "demo_log = [L_header, L_event (W_create (InfoSome (demo_info ''p1'' ''t1'' ''L1''))),
     L_event (W_create (InfoSome (demo_info ''p2'' ''t2'' ''L1''))),
     L_event (W_state ''p1'' ''PROCESS_STATE_RUNNING'' ''L1'' 42)]"

lemma demo_table_log: "pt_wal demo_table = Some demo_log"
  by (simp add: demo_table_def demo_log_def wal_UpdateState PT_Create_simps PT_AttachWAL_def
      NewProcessTable_def WAL_AppendCreate_def WAL_AppendState_def WAL_append_def json_info_def
      omit_empty_def demo_info_def zero_process_info_def info_at_def entry_at_def new_entry_def)

theorem restart_recovers_table_witness:
  "\<exists>t'. scheduler_startup_wal (\<lambda>n. 100 + int n) (F_lines demo_log) = Some (t', F_lines demo_log) \<and>
    pt_inv t' \<and> wal_inv t' \<and>
    (\<forall>p. map_option durable (dir t' p) = map_option durable (dir demo_table p))"
  by (rule restart_recovers_table [OF demo_table_wal demo_table_log])

text \<open>The log keeps explaining the table: each of the operations that create a process, change
  its state, record its result or move it to another lord preserves both invariants.\<close>

theorem table_operations_keep_log:
  assumes "pt_inv t" "wal_inv t" "PT_Get t p = Some a" "iter_order (pt_byID t) ks"
  shows "wal_inv (snd (PT_Create info t)) \<and> wal_inv (PE_UpdateState now a st l pid t) \<and>
    wal_inv (PE_UpdateResult now a code sig t) \<and>
    wal_inv (snd (PT_UpdateLordForHostname ks ol nl t)) \<and>
    pt_inv (snd (PT_Create info t)) \<and> pt_inv (PE_UpdateState now a st l pid t) \<and>
    pt_inv (PE_UpdateResult now a code sig t) \<and>
    pt_inv (snd (PT_UpdateLordForHostname ks ol nl t))"
  by (intro conjI wal_inv_Create wal_inv_UpdateState wal_inv_UpdateResult
      wal_inv_UpdateLordForHostname pt_inv_Create pt_inv_UpdateState pt_inv_UpdateResult
      pt_inv_UpdateLordForHostname; fact assms)

theorem table_operations_keep_log_witness:
  "wal_inv (snd (PT_UpdateLordForHostname [''p2'', ''p1''] ''L1'' ''L2'' demo_table))"
proof -
  have "PT_Get demo_table ''p2'' = Some 1"
    by (simp add: PT_Get_def demo_table_def PE_UpdateState_def PT_Create_simps PT_AttachWAL_def
        NewProcessTable_def demo_info_def)
  from table_operations_keep_log [OF demo_table_inv demo_table_wal this demo_table_order]
  show ?thesis by blast
qed

text \<open>A log line that creates a process whose ref is null brings the scheduler down at every
  start: the replay dereferences it, whatever comes before and after the line.\<close>

theorem replay_null_ref_panics:
  "scheduler_startup_wal clk (F_lines (ls @ L_event (W_create InfoNoRef) # ls')) = None"
proof -
  have "replay_all dir_event clk n (ls @ L_event (W_create InfoNoRef) # ls') d = None" for n d
  proof (induction ls arbitrary: n d)
    case (Cons line ls)
    then show ?case by (cases line) (auto split: option.split)
  qed (simp add: dir_event_def)
  then have "ReplayWAL clk (F_lines (ls @ L_event (W_create InfoNoRef) # ls')) NewProcessTable = None"
    by (simp add: ReplayWAL_panics_iff)
  then show ?thesis by (simp add: startup_lines)
qed

text \<open>Moving processes to a new lord is not logged: after rebinding the demo processes from
  \<open>L1\<close> to \<open>L2\<close> and restarting, they are on \<open>L1\<close> again.\<close>

theorem rebind_lost_at_restart:
  "\<exists>t1 t2. PT_UpdateLordForHostname [''p2'', ''p1''] ''L1'' ''L2'' demo_table = (2, t1) \<and>
    map_option pi_lord_id (dir t1 ''p1'') = Some ''L2'' \<and>
    pt_wal t1 = Some demo_log \<and>
    scheduler_startup_wal clk (F_lines demo_log) = Some (t2, F_lines demo_log) \<and>
    map_option pi_lord_id (dir t2 ''p1'') = Some ''L1''"
proof -
  obtain t2 where t2: "scheduler_startup_wal clk (F_lines demo_log) = Some (t2, F_lines demo_log)"
    by (rule startup_recovers [OF demo_table_wal demo_table_log])
  have "map_option pi_lord_id (dir t2 ''p1'') = Some ''L1''"
    using startup_lines_dir(4) [OF t2, symmetric]
    by (auto simp: demo_log_def dir_event_def processStateByName_def dir_create_def dir_update_def
        demo_info_def)
  moreover have "map_option pi_lord_id (dir (snd (PT_UpdateLordForHostname [''p2'', ''p1'']
      ''L1'' ''L2'' demo_table)) ''p1'') = Some ''L2''"
    "fst (PT_UpdateLordForHostname [''p2'', ''p1''] ''L1'' ''L2'' demo_table) = 2"
    by (simp_all add: PT_UpdateLordForHostname_def go_values_def demo_table_def PE_UpdateState_def
        PT_Create_simps PT_AttachWAL_def NewProcessTable_def demo_info_def dir_def heap_modify
        info_at_def entry_at_def new_entry_def)
  moreover have "pt_wal (snd (PT_UpdateLordForHostname [''p2'', ''p1''] ''L1'' ''L2'' demo_table)) =
      Some demo_log"
    by (simp add: PT_UpdateLordForHostname_def rebind_loop_frame demo_table_log)
  ultimately show ?thesis using t2 by (metis prod.collapse)
qed

end
