(* ===== verification/Stores.thy ===== *)
theory Stores
  imports Prelude
begin

section \<open>Two interfaces the components share\<close>

text \<open>
  \<open>keyed_map\<close> and \<open>keyed_store\<close>: a map written under a lock (the kernel maps; the sessions of the
  server and the waiters of the stdin acks, which are also removed). \<open>bounded_queue\<close>: a buffered channel (the outbox of a session, the ack
  channel of a stdin write), with the first-in first-out law of every interleaving of sends and
  receives. The theories that define the stores interpret them.
\<close>

subsection \<open>Keyed stores\<close>

locale keyed_map =
  fixes get :: "'s \<Rightarrow> 'k \<Rightarrow> 'v option"
    and put :: "'k \<Rightarrow> 'v \<Rightarrow> 's \<Rightarrow> 's"
  assumes get_put: "get (put k v s) k' = (if k' = k then Some v else get s k')"
begin

lemma get_put_same [simp]: "get (put k v s) k = Some v"
  by (simp add: get_put)

lemma get_put_other: "k' \<noteq> k \<Longrightarrow> get (put k v s) k' = get s k'"
  by (simp add: get_put)

lemma put_put: "get (put k v (put k w s)) = get (put k v s)"
  by (simp add: fun_eq_iff get_put)

lemma dom_put: "dom (get (put k v s)) = insert k (dom (get s))"
  by (auto simp: dom_def get_put)

lemma get_puts: "get (fold (\<lambda>(k, v). put k v) kvs s) k =
    (case map_of (rev kvs) k of Some v \<Rightarrow> Some v | None \<Rightarrow> get s k)"
proof (induction kvs arbitrary: s)
  case (Cons kv kvs)
  then show ?case
    by (cases kv) (auto simp: get_put map_add_def map_of_append split: option.split)
qed simp

end

text \<open>A map whose entries are also removed.\<close>

locale keyed_store = keyed_map get put
  for get :: "'s \<Rightarrow> 'k \<Rightarrow> 'v option" and put :: "'k \<Rightarrow> 'v \<Rightarrow> 's \<Rightarrow> 's" +
  fixes del :: "'k \<Rightarrow> 's \<Rightarrow> 's"
  assumes get_del: "get (del k s) k' = (if k' = k then None else get s k')"
begin

lemma get_del_same [simp]: "get (del k s) k = None"
  by (simp add: get_del)

lemma get_del_other: "k' \<noteq> k \<Longrightarrow> get (del k s) k' = get s k'"
  by (simp add: get_del)

lemma del_put: "get s k = None \<Longrightarrow> get (del k (put k v s)) = get s"
  by (auto simp: fun_eq_iff get_put get_del)

lemma dom_del: "dom (get (del k s)) = dom (get s) - {k}"
  by (auto simp: dom_def get_del split: if_splits)

end

subsection \<open>Buffered channels\<close>

datatype 'a chan_op = Send 'a | Recv

text \<open>
  A run of sends and receives: what was accepted, what was delivered, and the channel at the end.
  A send on a full channel and a receive on an empty one change nothing.
\<close>

fun chan_run ::
  "('a \<Rightarrow> 'q \<Rightarrow> 'q option) \<Rightarrow> ('q \<Rightarrow> ('a \<times> 'q) option) \<Rightarrow> 'a chan_op list \<Rightarrow> 'q \<Rightarrow>
     'a list \<times> 'a list \<times> 'q"
where
  "chan_run push pop [] q = ([], [], q)"
| "chan_run push pop (Send x # ops) q =
     (case push x q of
        None \<Rightarrow> chan_run push pop ops q
      | Some q' \<Rightarrow> (case chan_run push pop ops q' of (acc, dlv, q'') \<Rightarrow> (x # acc, dlv, q'')))"
| "chan_run push pop (Recv # ops) q =
     (case pop q of
        None \<Rightarrow> chan_run push pop ops q
      | Some (x, q') \<Rightarrow> (case chan_run push pop ops q' of (acc, dlv, q'') \<Rightarrow> (acc, x # dlv, q'')))"

locale bounded_queue =
  fixes items :: "'q \<Rightarrow> 'a list"
    and push :: "'a \<Rightarrow> 'q \<Rightarrow> 'q option"
    and pop :: "'q \<Rightarrow> ('a \<times> 'q) option"
    and capacity :: nat
  assumes push_full: "push x q = None \<longleftrightarrow> capacity \<le> length (items q)"
    and push_items: "push x q = Some q' \<Longrightarrow> items q' = items q @ [x]"
    and pop_empty: "pop q = None \<longleftrightarrow> items q = []"
    and pop_items: "pop q = Some (x, q') \<Longrightarrow> items q = x # items q'"
begin

lemma push_bounded: "push x q = Some q' \<Longrightarrow> length (items q') \<le> capacity"
  using push_full [of x q] push_items [of x q q'] by auto

lemma fifo:
  "chan_run push pop ops q = (acc, dlv, q') \<Longrightarrow> items q @ acc = dlv @ items q'"
proof (induction ops arbitrary: q acc dlv)
  case (Cons op ops)
  show ?case
  proof (cases op)
    case (Send x)
    then show ?thesis
      using Cons push_items [of x q] by (cases "push x q") (fastforce split: prod.splits)+
  next
    case Recv
    then show ?thesis
      using Cons pop_items [of q] by (cases "pop q") (fastforce split: prod.splits)+
  qed
qed simp

lemma run_bounded:
  "chan_run push pop ops q = (acc, dlv, q') \<Longrightarrow> length (items q) \<le> capacity \<Longrightarrow>
     length (items q') \<le> capacity"
proof (induction ops arbitrary: q acc dlv)
  case (Cons op ops)
  show ?case
  proof (cases op)
    case (Send x)
    then show ?thesis
      using Cons push_bounded [of x q] by (cases "push x q") (fastforce split: prod.splits)+
  next
    case Recv
    then show ?thesis
      using Cons pop_items [of q] by (cases "pop q") (fastforce split: prod.splits)+
  qed
qed simp

end

end
