(* ===== verification/Bpf.thy ===== *)
theory Bpf
  imports Proto Stores
begin

unbundle bit_operations_syntax

section \<open>The kernel placement maps (bpf.go)\<close>

text \<open>
  The scheduler mirrors its placement into three pinned BPF hash maps: task to lord, lord to CPU
  mask, lord to dispatch queue. The state holds the contents of the maps and the cache of opened
  handles; whether a path exists, can be loaded and accepts a write is up to the environment. The
  key of a lord is the first word of the SHA-256 of its host name; the hash is written out on
  32-bit words.
\<close>

subsection \<open>SHA-256 (crypto/sha256)\<close>

text \<open>The constants of the standard: fractional parts of cube and square roots of the first primes.\<close>

definition sha256_k :: "u32 list" where
  "sha256_k =
    [1116352408, 1899447441, 3049323471, 3921009573, 961987163, 1508970993, 2453635748, 2870763221,
     3624381080, 310598401, 607225278, 1426881987, 1925078388, 2162078206, 2614888103, 3248222580,
     3835390401, 4022224774, 264347078, 604807628, 770255983, 1249150122, 1555081692, 1996064986,
     2554220882, 2821834349, 2952996808, 3210313671, 3336571891, 3584528711, 113926993, 338241895,
     666307205, 773529912, 1294757372, 1396182291, 1695183700, 1986661051, 2177026350, 2456956037,
     2730485921, 2820302411, 3259730800, 3345764771, 3516065817, 3600352804, 4094571909, 275423344,
     430227734, 506948616, 659060556, 883997877, 958139571, 1322822218, 1537002063, 1747873779,
     1955562222, 2024104815, 2227730452, 2361852424, 2428436474, 2756734187, 3204031479, 3329325298]"

definition sha256_init :: "u32 list" where
  "sha256_init =
    [1779033703, 3144134277, 1013904242, 2773480762, 1359893119, 2600822924, 528734635, 1541459225]"

text \<open>Big-endian bytes of a word and back.\<close>

definition be_bytes32 :: "u32 \<Rightarrow> byte list" where
  "be_bytes32 w = [ucast (drop_bit 24 w), ucast (drop_bit 16 w), ucast (drop_bit 8 w), ucast w]"

definition be_bytes64 :: "u64 \<Rightarrow> byte list" where
  "be_bytes64 w = map (\<lambda>i. ucast (drop_bit i w)) [56, 48, 40, 32, 24, 16, 8, 0]"

fun be_words :: "byte list \<Rightarrow> u32 list" where
  "be_words (a # b # c # d # bs) =
     (push_bit 24 (ucast a) OR push_bit 16 (ucast b) OR push_bit 8 (ucast c) OR ucast d) # be_words bs"
| "be_words _ = []"

definition sha256_pad :: "byte list \<Rightarrow> byte list" where
  "sha256_pad m = m @ [0x80] @ replicate ((119 - length m mod 64) mod 64) 0 @
     be_bytes64 (of_nat (8 * length m))"

text \<open>The message schedule, latest word first, extended \<open>n\<close> times.\<close>

fun sha256_schedule :: "nat \<Rightarrow> u32 list \<Rightarrow> u32 list" where
  "sha256_schedule 0 w = w"
| "sha256_schedule (Suc n) w =
     (let w2 = w ! 1; w7 = w ! 6; w15 = w ! 14; w16 = w ! 15;
          s0 = word_rotr 7 w15 XOR word_rotr 18 w15 XOR drop_bit 3 w15;
          s1 = word_rotr 17 w2 XOR word_rotr 19 w2 XOR drop_bit 10 w2
      in sha256_schedule n ((w16 + s0 + w7 + s1) # w))"

fun sha256_round :: "u32 \<times> u32 \<Rightarrow> u32 list \<Rightarrow> u32 list" where
  "sha256_round (k, w) [a, b, c, d, e, f, g, h] =
     (let s1 = word_rotr 6 e XOR word_rotr 11 e XOR word_rotr 25 e;
          ch = (e AND f) XOR (NOT e AND g);
          t1 = h + s1 + ch + k + w;
          s0 = word_rotr 2 a XOR word_rotr 13 a XOR word_rotr 22 a;
          maj = (a AND b) XOR (a AND c) XOR (b AND c)
      in [t1 + (s0 + maj), a, b, c, d + t1, e, f, g])"
| "sha256_round _ hs = hs"

definition sha256_block :: "u32 list \<Rightarrow> u32 list \<Rightarrow> u32 list" where
  "sha256_block blk hs =
     map2 (+) hs (fold sha256_round (zip sha256_k (rev (sha256_schedule 48 (rev blk)))) hs)"

fun sha256_blocks :: "nat \<Rightarrow> u32 list \<Rightarrow> u32 list \<Rightarrow> u32 list" where
  "sha256_blocks 0 ws hs = hs"
| "sha256_blocks (Suc n) ws hs = sha256_blocks n (drop 16 ws) (sha256_block (take 16 ws) hs)"

definition sha256 :: "byte list \<Rightarrow> byte list" where
  "sha256 m = (let p = sha256_pad m in
     concat (map be_bytes32 (sha256_blocks (length p div 64) (be_words p) sha256_init)))"

subsection \<open>Keys and values\<close>

definition go_bytes :: "string \<Rightarrow> byte list" where
  "go_bytes s = map of_char s"

definition LordIDFromHostname :: "string \<Rightarrow> u32" where
  "LordIDFromHostname hostname =
     (let h = sha256 (go_bytes hostname) in
      ucast (h ! 0) OR push_bit 8 (ucast (h ! 1)) OR push_bit 16 (ucast (h ! 2)) OR push_bit 24 (ucast (h ! 3)))"

definition LordDSQID :: "u32 \<Rightarrow> u64" where
  "LordDSQID lordID = 0xE7700000000000 OR ucast (lordID AND 0xFF)"

definition LordCPUMaskFromShares :: "u32 \<Rightarrow> u64" where
  "LordCPUMaskFromShares shares =
     (if shares = 0 \<or> 16 < shares then 1 else push_bit (unat shares) 1 - 1)"

subsection \<open>The pinned maps\<close>

datatype bpf_path = TaskLord | LordCpus | LordDSQ

text \<open>What the kernel answers: an error of \<open>Stat\<close>, of the load, and of a write.\<close>

record bpf_env =
  be_stat :: "bpf_path \<Rightarrow> string option"
  be_load :: "bpf_path \<Rightarrow> string option"
  be_put :: "bpf_path \<Rightarrow> string option"

record bpf_maps =
  bm_cache :: "bpf_path \<Rightarrow> bool"
  bm_task :: "u32 \<Rightarrow> u32 option"
  bm_cpus :: "u32 \<Rightarrow> u64 option"
  bm_dsq :: "u32 \<Rightarrow> u64 option"

definition empty_bpf :: bpf_maps where
  "empty_bpf = \<lparr>bm_cache = (\<lambda>_. False), bm_task = Map.empty, bm_cpus = Map.empty,
     bm_dsq = Map.empty\<rparr>"

definition openPin :: "bpf_env \<Rightarrow> bpf_path \<Rightarrow> bpf_maps \<Rightarrow> go_error option \<times> bpf_maps" where
  "openPin env path m =
     (if bm_cache m path then (None, m)
      else case be_stat env path of
        Some err \<Rightarrow> (Some (Errorf (''pinned map not found: '' @ err)), m)
      | None \<Rightarrow>
          (case be_load env path of
             Some err \<Rightarrow> (Some (Errorf (''load pinned map: '' @ err)), m)
           | None \<Rightarrow> (None, m\<lparr>bm_cache := (bm_cache m)(path := True)\<rparr>)))"

definition put_cpus :: "u32 \<Rightarrow> u64 \<Rightarrow> bpf_maps \<Rightarrow> bpf_maps" where
  "put_cpus k v m = m\<lparr>bm_cpus := (bm_cpus m)(k \<mapsto> v)\<rparr>"

definition put_dsq :: "u32 \<Rightarrow> u64 \<Rightarrow> bpf_maps \<Rightarrow> bpf_maps" where
  "put_dsq k v m = m\<lparr>bm_dsq := (bm_dsq m)(k \<mapsto> v)\<rparr>"

definition put_task :: "u32 \<Rightarrow> u32 \<Rightarrow> bpf_maps \<Rightarrow> bpf_maps" where
  "put_task k v m = m\<lparr>bm_task := (bm_task m)(k \<mapsto> v)\<rparr>"

text \<open>Open a map and write one entry, with the wrapped error texts of the callers.\<close>

definition open_and_put ::
  "bpf_env \<Rightarrow> bpf_path \<Rightarrow> string \<Rightarrow> (bpf_maps \<Rightarrow> bpf_maps) \<Rightarrow> bpf_maps \<Rightarrow> go_error option \<times> bpf_maps"
where
  "open_and_put env path name upd m =
     (case openPin env path m of
        (Some err, m1) \<Rightarrow> (Some (Errorf (''open '' @ name @ '': '' @ error_text err)), m1)
      | (None, m1) \<Rightarrow>
          (case be_put env path of
             Some err \<Rightarrow> (Some (Errorf (''put '' @ name @ '': '' @ err)), m1)
           | None \<Rightarrow> (None, upd m1)))"

definition RegisterLordBPF ::
  "bpf_env \<Rightarrow> string \<Rightarrow> u32 \<Rightarrow> bpf_maps \<Rightarrow> go_error option \<times> bpf_maps" where
  "RegisterLordBPF env hostname cpuShares m =
     (let lordID = LordIDFromHostname hostname;
          cpuMask = LordCPUMaskFromShares cpuShares;
          dsqID = LordDSQID lordID in
      case open_and_put env LordCpus ''etr_lord_cpus'' (put_cpus lordID cpuMask) m of
        (Some err, m1) \<Rightarrow> (Some err, m1)
      | (None, m1) \<Rightarrow> open_and_put env LordDSQ ''etr_lord_dsq'' (put_dsq lordID dsqID) m1)"

definition AssignTaskBPF :: "bpf_env \<Rightarrow> u32 \<Rightarrow> u32 \<Rightarrow> bpf_maps \<Rightarrow> go_error option \<times> bpf_maps" where
  "AssignTaskBPF env taskPID lordID m =
     open_and_put env TaskLord ''etr_task_lord'' (put_task taskPID lordID) m"

definition UpdateLordCPUMask ::
  "bpf_env \<Rightarrow> string \<Rightarrow> u32 \<Rightarrow> bpf_maps \<Rightarrow> (go_error + u64) \<times> bpf_maps" where
  "UpdateLordCPUMask env hostname newShares m =
     (let lordID = LordIDFromHostname hostname; newMask = LordCPUMaskFromShares newShares in
      case open_and_put env LordCpus ''etr_lord_cpus'' (put_cpus lordID newMask) m of
        (Some err, m1) \<Rightarrow> (Inl err, m1)
      | (None, m1) \<Rightarrow> (Inr newMask, m1))"

interpretation bpf_cpus: keyed_map bm_cpus put_cpus
  by unfold_locales (simp add: put_cpus_def)

interpretation bpf_dsq: keyed_map bm_dsq put_dsq
  by unfold_locales (simp add: put_dsq_def)

interpretation bpf_task: keyed_map bm_task put_task
  by unfold_locales (simp add: put_task_def)

lemma put_frame [frame_simps, simp]:
  "bm_dsq (put_cpus k v m) = bm_dsq m" "bm_task (put_cpus k v m) = bm_task m"
  "bm_cpus (put_dsq k v m) = bm_cpus m" "bm_task (put_dsq k v m) = bm_task m"
  "bm_cpus (put_task k w m) = bm_cpus m" "bm_dsq (put_task k w m) = bm_dsq m"
  by (simp_all add: put_cpus_def put_dsq_def put_task_def)

lemma openPin_frame [frame_simps]:
  "openPin env path m = (r, m') \<Longrightarrow>
     bm_cpus m' = bm_cpus m \<and> bm_dsq m' = bm_dsq m \<and> bm_task m' = bm_task m"
  by (auto simp: openPin_def split: if_splits option.splits)

lemma open_and_put_cases:
  assumes "open_and_put env path name upd m = (r, m')"
  obtains (err) err where "r = Some err" "bm_cpus m' = bm_cpus m" "bm_dsq m' = bm_dsq m"
      "bm_task m' = bm_task m"
  | (ok) m1 where "r = None" "m' = upd m1" "bm_cpus m1 = bm_cpus m" "bm_dsq m1 = bm_dsq m"
      "bm_task m1 = bm_task m"
  using assms unfolding open_and_put_def
  by (auto split: prod.splits option.splits dest: openPin_frame)

subsection \<open>The hash has 32 bytes\<close>

lemma length_be_bytes32 [simp]: "length (be_bytes32 w) = 4"
  by (simp add: be_bytes32_def)

lemma length_sha256_round: "length hs = 8 \<Longrightarrow> length (sha256_round kw hs) = 8"
  by (cases "(kw, hs)" rule: sha256_round.cases) (auto simp: Let_def)

lemma length_fold_round: "length hs = 8 \<Longrightarrow> length (fold sha256_round kws hs) = 8"
  by (induction kws arbitrary: hs) (simp_all add: length_sha256_round)

lemma length_sha256_block: "length hs = 8 \<Longrightarrow> length (sha256_block blk hs) = 8"
  by (simp add: sha256_block_def length_fold_round)

lemma length_sha256_blocks: "length hs = 8 \<Longrightarrow> length (sha256_blocks n ws hs) = 8"
  by (induction n arbitrary: ws hs) (simp_all add: length_sha256_block)

lemma length_sha256: "length (sha256 m) = 32"
proof -
  have "length (concat (map be_bytes32 ws)) = 4 * length ws" for ws
    by (induction ws) simp_all
  then show ?thesis
    by (simp add: sha256_def Let_def length_sha256_blocks sha256_init_def)
qed

subsection \<open>Queue ids\<close>

lemma low_byte_mask: "(0xFF :: u32) = mask 8"
  by (simp add: mask_eq_exp_minus_1)

lemma ucast_low_byte: "ucast ((ucast (a AND 0xFF :: u32)) :: u64) = (a AND 0xFF :: u32)"
  by (rule bit_word_eqI) (simp add: bit_simps)

text \<open>The fixed part of the id has no bit among the low eight.\<close>

lemma LordDSQID_low: "ucast (LordDSQID a AND 0xFF) = (a AND 0xFF :: u32)"
proof -
  have "LordDSQID a AND 0xFF =
      (0xE7700000000000 AND 0xFF) OR (ucast (a AND 0xFF) AND (0xFF :: u64))"
    unfolding LordDSQID_def by (simp only: bit.conj_disj_distrib2)
  also have "(0xE7700000000000 AND 0xFF :: u64) = 0" by simp
  also have "ucast (a AND 0xFF) AND (0xFF :: u64) = ucast (a AND 0xFF :: u32)"
  proof -
    have m: "(0xFF :: u64) = mask 8" by (simp add: mask_eq_exp_minus_1)
    show ?thesis unfolding m low_byte_mask by (rule bit_word_eqI) (auto simp: bit_simps)
  qed
  finally show ?thesis by (simp add: ucast_low_byte)
qed

lemma bit_LordDSQID: "\<not> bit (LordDSQID a) 63"
proof -
  have "\<not> bit (0xE7700000000000 :: u64) 63" by code_simp
  moreover have "\<not> bit (ucast (a AND 0xFF :: u32) :: u64) 63"
    unfolding low_byte_mask by (simp add: bit_simps)
  ultimately show ?thesis unfolding LordDSQID_def bit_or_iff by blast
qed

subsection \<open>Properties\<close>

text \<open>The CPU mask of a lord is never empty: it has exactly the low \<open>shares\<close> bits for 1 to 16
  advertised shares, and only CPU 0 for every other value, however large.\<close>

theorem LordCPUMask_bits:
  "bit (LordCPUMaskFromShares shares) n \<longleftrightarrow>
     (if shares = 0 \<or> 16 < shares then n = 0 else n < unat shares)"
proof (cases "shares = 0 \<or> 16 < shares")
  case True
  then show ?thesis by (simp add: LordCPUMaskFromShares_def bit_1_iff)
next
  case False
  then have "unat shares \<le> 16" by (simp add: word_le_nat_alt not_less)
  then show ?thesis
    using False
    by (auto simp: LordCPUMaskFromShares_def mask_eq_exp_minus_1 [symmetric] push_bit_of_1
        bit_mask_iff)
qed

text \<open>The dispatch queue id is no builtin one (bit 63 is clear), and two lords share a queue
  exactly when the low bytes of their keys agree: there are only 256 queues for all lords.\<close>

theorem LordDSQID_collides_iff:
  "\<not> bit (LordDSQID a) 63 \<and> (LordDSQID a = LordDSQID b \<longleftrightarrow> a AND 0xFF = b AND 0xFF)"
proof (intro conjI iffI)
  assume "LordDSQID a = LordDSQID b"
  then show "a AND 0xFF = b AND 0xFF" by (metis LordDSQID_low)
qed (rule bit_LordDSQID, simp add: LordDSQID_def)

text \<open>Registering a lord writes its mask and its queue and nothing else; when it fails, the
  queue map is as it was, whatever the kernel answered.\<close>

theorem RegisterLordBPF_effect:
  assumes "RegisterLordBPF env hostname shares m = (r, m')"
  shows "case r of
      None \<Rightarrow> bm_cpus m' = (bm_cpus m)(LordIDFromHostname hostname \<mapsto> LordCPUMaskFromShares shares) \<and>
              bm_dsq m' = (bm_dsq m)(LordIDFromHostname hostname \<mapsto>
                LordDSQID (LordIDFromHostname hostname)) \<and>
              bm_task m' = bm_task m
    | Some _ \<Rightarrow> bm_dsq m' = bm_dsq m \<and> bm_task m' = bm_task m \<and>
        (\<forall>k. k \<noteq> LordIDFromHostname hostname \<longrightarrow> bm_cpus m' k = bm_cpus m k)"
proof -
  let ?k = "LordIDFromHostname hostname"
  obtain r1 m1 where r1: "open_and_put env LordCpus ''etr_lord_cpus''
      (put_cpus ?k (LordCPUMaskFromShares shares)) m = (r1, m1)" by fastforce
  show ?thesis
  proof (cases r1)
    case (Some err)
    then have "r = Some err" "m' = m1"
      using r1 assms by (simp_all add: RegisterLordBPF_def Let_def)
    then show ?thesis using r1 Some by (elim open_and_put_cases) auto
  next
    case None
    then have "open_and_put env LordDSQ ''etr_lord_dsq'' (put_dsq ?k (LordDSQID ?k)) m1 = (r, m')"
      using r1 assms by (simp add: RegisterLordBPF_def Let_def)
    moreover have "bm_cpus m1 = (bm_cpus m)(?k \<mapsto> LordCPUMaskFromShares shares) \<and>
        bm_dsq m1 = bm_dsq m \<and> bm_task m1 = bm_task m"
      using r1 None by (elim open_and_put_cases) (auto simp: put_cpus_def)
    ultimately show ?thesis
      by (elim open_and_put_cases) (auto simp: put_dsq_def)
  qed
qed

definition demo_bpf_env :: bpf_env where
  "demo_bpf_env = \<lparr>be_stat = (\<lambda>_. None), be_load = (\<lambda>_. None), be_put = (\<lambda>_. None)\<rparr>"

theorem RegisterLordBPF_effect_witness:
  "bm_cpus (snd (RegisterLordBPF demo_bpf_env ''lord-1'' 4 empty_bpf))
     (LordIDFromHostname ''lord-1'') = Some (LordCPUMaskFromShares 4)"
proof -
  obtain r m' where r: "RegisterLordBPF demo_bpf_env ''lord-1'' 4 empty_bpf = (r, m')" by fastforce
  then have "r = None"
    by (auto simp: RegisterLordBPF_def Let_def open_and_put_def openPin_def demo_bpf_env_def
        empty_bpf_def split: if_splits)
  then show ?thesis using RegisterLordBPF_effect [OF r] r by simp
qed

end
