(* ===== verification/Server_State.thy ===== *)
theory Server_State
  imports Registry Wal Bpf
begin

section \<open>The state of the server and the sessions of the lords (server.go, connect.go)\<close>

text \<open>
  A connected lord has a session: its outbox, a channel of 1024 events that the RPC handlers fill
  and the send loop empties, and the table of its local pids. The server holds the process table,
  the lord registry, the sessions, the last recovery of each dead lord, the waiters of the stdin
  writes (with the one-place channels they wait on), the kernel maps, and the background
  goroutines it has started: pending recoveries and the 30 second timers of respawned processes.

  Handlers are atomic steps over this state. What a handler reads from outside (the clock, a fresh
  id, the order in which maps are iterated, whether a full outbox drains within the timeout, what
  the kernel answers) is the record \<open>go_env\<close>.
\<close>

subsection \<open>Sessions\<close>

record lord_session =
  ls_lordID :: string
  ls_outbox :: "lord_event list"
  ls_sent :: "lord_event list"             \<comment> \<open>what the stream has taken\<close>
  ls_late :: "lord_event list"             \<comment> \<open>sends that were given up but still run\<close>
  ls_procs :: "i32 \<Rightarrow> string option"       \<comment> \<open>local pid to process id\<close>

definition outbox_cap :: nat where
  "outbox_cap = 1024"

definition newLordSession :: "string \<Rightarrow> lord_session" where
  "newLordSession lordID =
     \<lparr>ls_lordID = lordID, ls_outbox = [], ls_sent = [], ls_late = [],
      ls_procs = Map.empty\<rparr>"

text \<open>A send that does not block (\<open>select\<close> with a default), and the receive of the send loop.\<close>

definition outbox_push :: "lord_event \<Rightarrow> lord_session \<Rightarrow> lord_session option" where
  "outbox_push ev sess =
     (if length (ls_outbox sess) < outbox_cap
      then Some (sess\<lparr>ls_outbox := ls_outbox sess @ [ev]\<rparr>) else None)"

definition outbox_pop :: "lord_session \<Rightarrow> (lord_event \<times> lord_session) option" where
  "outbox_pop sess =
     (case ls_outbox sess of
        [] \<Rightarrow> None
      | ev # evs \<Rightarrow> Some (ev, sess\<lparr>ls_outbox := evs\<rparr>))"

interpretation outbox: bounded_queue ls_outbox outbox_push outbox_pop outbox_cap
  by unfold_locales (auto simp: outbox_push_def outbox_pop_def split: list.splits if_splits)

text \<open>
  One round of \<open>sendLoop\<close>: the session was cancelled while idle, or an event was taken and the send
  succeeded, failed, timed out after two seconds or was cancelled. The first component is the error
  the loop ends with. The loop logs that it drops a send that times out, but the goroutine that
  sends it runs on, beside the sends that follow: the event is late.
\<close>

datatype send_outcome = Idle_cancelled | Sent | Send_failed string | Send_slow | Send_cancelled

definition sendLoop_step ::
  "send_outcome \<Rightarrow> lord_session \<Rightarrow> go_error option \<times> lord_session" where
  "sendLoop_step oc sess =
     (if oc = Idle_cancelled then (Some (Errorf ''context canceled''), sess)
      else case outbox_pop sess of
        None \<Rightarrow> (None, sess)
      | Some (ev, sess1) \<Rightarrow>
          (case oc of
             Sent \<Rightarrow> (None, sess1\<lparr>ls_sent := ls_sent sess1 @ [ev]\<rparr>)
           | Send_failed msg \<Rightarrow> (Some (Errorf msg), sess1)
           | Send_slow \<Rightarrow> (None, sess1\<lparr>ls_late := ls_late sess1 @ [ev]\<rparr>)
           | _ \<Rightarrow> (Some (Errorf ''context canceled''), sess1\<lparr>ls_late := ls_late sess1 @ [ev]\<rparr>)))"

text \<open>A late send ends: the stream takes the event after all, or the send fails and nobody hears of it.\<close>

definition late_send :: "nat \<Rightarrow> bool \<Rightarrow> lord_session \<Rightarrow> lord_session" where
  "late_send i taken sess =
     (if i < length (ls_late sess)
      then sess\<lparr>ls_late := take i (ls_late sess) @ drop (i + 1) (ls_late sess),
             ls_sent := ls_sent sess @ (if taken then [ls_late sess ! i] else [])\<rparr>
      else sess)"

text \<open>
  A send that waits up to five seconds: when the outbox is full it either stays full, or the send
  loop takes the oldest event (delivering it or dropping it) and makes room.
\<close>

datatype room = Stays_full | Drained bool

definition outbox_send5 :: "room \<Rightarrow> lord_event \<Rightarrow> lord_session \<Rightarrow> lord_session option" where
  "outbox_send5 room ev sess =
     (case outbox_push ev sess of
        Some s \<Rightarrow> Some s
      | None \<Rightarrow>
          (case room of
             Stays_full \<Rightarrow> None
           | Drained delivered \<Rightarrow>
               outbox_push ev (snd (sendLoop_step (if delivered then Sent else Send_slow) sess))))"

lemma ls_lordID_frame [frame_simps, simp]:
  "ls_lordID (snd (sendLoop_step oc sess)) = ls_lordID sess"
  "ls_lordID (late_send i taken sess) = ls_lordID sess"
  "ls_outbox (late_send i taken sess) = ls_outbox sess"
  "outbox_push ev sess = Some s \<Longrightarrow> ls_lordID s = ls_lordID sess"
  "outbox_push ev sess = Some s \<Longrightarrow> ls_procs s = ls_procs sess"
  by (auto simp: sendLoop_step_def outbox_pop_def outbox_push_def late_send_def
      split: list.splits send_outcome.splits if_splits)

lemma outbox_send5_props:
  assumes "outbox_send5 room ev sess = Some s"
  shows "ls_lordID s = ls_lordID sess" "length (ls_outbox s) \<le> outbox_cap"
    "\<exists>evs. ls_outbox s = evs @ [ev]"
proof -
  obtain s0 where s0: "outbox_push ev s0 = Some s" "ls_lordID s0 = ls_lordID sess"
    using assms by (auto simp: outbox_send5_def split: option.splits room.splits)
  show "ls_lordID s = ls_lordID sess" using s0 by simp
  show "length (ls_outbox s) \<le> outbox_cap" by (rule outbox.push_bounded [OF s0(1)])
  show "\<exists>evs. ls_outbox s = evs @ [ev]" using outbox.push_items [OF s0(1)] by blast
qed

lemma outbox_send5_room: "length (ls_outbox sess) < outbox_cap \<Longrightarrow>
    outbox_send5 room ev sess = Some (sess\<lparr>ls_outbox := ls_outbox sess @ [ev]\<rparr>)"
  by (simp add: outbox_send5_def outbox_push_def)

text \<open>It fails exactly when the outbox is full and stays full.\<close>

lemma outbox_send5_None:
  assumes "length (ls_outbox sess) \<le> outbox_cap"
  shows "outbox_send5 room ev sess = None \<longleftrightarrow> length (ls_outbox sess) = outbox_cap \<and> room = Stays_full"
proof -
  have "length (ls_outbox (snd (sendLoop_step oc sess))) < outbox_cap"
    if "length (ls_outbox sess) = outbox_cap" "oc \<noteq> Idle_cancelled" for oc
    using that by (auto simp: sendLoop_step_def outbox_pop_def outbox_cap_def
        split: list.splits send_outcome.splits)
  then show ?thesis
    using assms by (auto simp: outbox_send5_def outbox_push_def split: room.splits)
qed

lemma outbox_sendLoop_bounded:
  "length (ls_outbox sess) \<le> outbox_cap \<Longrightarrow>
     length (ls_outbox (snd (sendLoop_step oc sess))) \<le> outbox_cap"
  by (auto simp: sendLoop_step_def outbox_pop_def split: list.splits send_outcome.splits)

subsection \<open>The environment of a handler\<close>

record go_env =
  ge_now :: time
  ge_id :: string                \<comment> \<open>the next ULID\<close>
  ge_lords :: "string list"      \<comment> \<open>iteration over the lords\<close>
  ge_procs :: "string list"      \<comment> \<open>iteration over the processes\<close>
  ge_tenant :: "string list"     \<comment> \<open>iteration over the processes of one tenant\<close>
  ge_pids :: "i32 list"          \<comment> \<open>iteration over the local pids of one session\<close>
  ge_room :: room
  ge_bpf :: bpf_env

subsection \<open>The server\<close>

text \<open>
  Where a recovery goroutine stands: about to start, about to make its n-th attempt for the given
  candidates, or about to close the books on them.
\<close>

datatype recovery =
    R_start string
  | R_attempt string "nat list" nat
  | R_finish string "nat list"

fun rec_addrs :: "recovery \<Rightarrow> nat list" where
  "rec_addrs (R_start l) = []"
| "rec_addrs (R_attempt l as n) = as"
| "rec_addrs (R_finish l as) = as"

record server =
  sv_processes :: process_table
  sv_lords :: lord_registry
  sv_sessions :: "string \<Rightarrow> lord_session option"
  sv_lastRecoveryAt :: "string \<Rightarrow> time option"
  sv_waiters :: "string \<Rightarrow> nat option"                 \<comment> \<open>process id to ack channel\<close>
  sv_acks :: "nat \<Rightarrow> write_stdin_ack option"            \<comment> \<open>the one place of each ack channel\<close>
  sv_nextChan :: nat
  sv_bpf :: bpf_maps
  sv_recoveries :: "recovery list"                     \<comment> \<open>running recoveries\<close>
  sv_timers :: "nat list"                              \<comment> \<open>entries with a respawn ack timer\<close>

text \<open>The entries that background goroutines hold pointers to.\<close>

definition pending :: "server \<Rightarrow> nat set" where
  "pending sv = set (sv_timers sv) \<union> (\<Union>r\<in>set (sv_recoveries sv). set (rec_addrs r))"

definition NewServer :: "process_table \<Rightarrow> lord_registry \<Rightarrow> server" where
  "NewServer processes lords =
     \<lparr>sv_processes = processes, sv_lords = lords, sv_sessions = Map.empty,
      sv_lastRecoveryAt = Map.empty, sv_waiters = Map.empty, sv_acks = Map.empty,
      sv_nextChan = 0, sv_bpf = empty_bpf, sv_recoveries = [], sv_timers = []\<rparr>"

definition put_session :: "string \<Rightarrow> lord_session \<Rightarrow> server \<Rightarrow> server" where
  "put_session lordID sess sv = sv\<lparr>sv_sessions := (sv_sessions sv)(lordID \<mapsto> sess)\<rparr>"

definition del_session :: "string \<Rightarrow> server \<Rightarrow> server" where
  "del_session lordID sv = sv\<lparr>sv_sessions := (sv_sessions sv)(lordID := None)\<rparr>"

definition put_waiter :: "string \<Rightarrow> nat \<Rightarrow> server \<Rightarrow> server" where
  "put_waiter processID ch sv = sv\<lparr>sv_waiters := (sv_waiters sv)(processID \<mapsto> ch)\<rparr>"

definition del_waiter :: "string \<Rightarrow> server \<Rightarrow> server" where
  "del_waiter processID sv = sv\<lparr>sv_waiters := (sv_waiters sv)(processID := None)\<rparr>"

interpretation sessions: keyed_store sv_sessions put_session del_session
  by unfold_locales (simp_all add: put_session_def del_session_def)

interpretation waiters: keyed_store sv_waiters put_waiter del_waiter
  by unfold_locales (simp_all add: put_waiter_def del_waiter_def)

text \<open>Applying an operation to one of the two tables.\<close>

definition on_processes :: "(process_table \<Rightarrow> process_table) \<Rightarrow> server \<Rightarrow> server" where
  "on_processes f sv = sv\<lparr>sv_processes := f (sv_processes sv)\<rparr>"

definition on_lords :: "(lord_registry \<Rightarrow> lord_registry) \<Rightarrow> server \<Rightarrow> server" where
  "on_lords f sv = sv\<lparr>sv_lords := f (sv_lords sv)\<rparr>"

text \<open>Reading an entry through the server.\<close>

definition sv_info :: "server \<Rightarrow> nat \<Rightarrow> process_info" where
  "sv_info sv a = info_at (sv_processes sv) a"

definition UpdateState ::
  "go_env \<Rightarrow> nat \<Rightarrow> process_state \<Rightarrow> string \<Rightarrow> i32 \<Rightarrow> server \<Rightarrow> server" where
  "UpdateState env a st lordID pid = on_processes (PE_UpdateState (ge_now env) a st lordID pid)"

definition UpdateResult :: "go_env \<Rightarrow> nat \<Rightarrow> i32 \<Rightarrow> i32 \<Rightarrow> server \<Rightarrow> server" where
  "UpdateResult env a code sig = on_processes (PE_UpdateResult (ge_now env) a code sig)"

definition upd_info :: "nat \<Rightarrow> (process_info \<Rightarrow> process_info) \<Rightarrow> server \<Rightarrow> server" where
  "upd_info a f = on_processes (pt_modify a (pe_upd_info f))"

subsection \<open>Pushing commands to a lord\<close>

definition getSession :: "server \<Rightarrow> string \<Rightarrow> go_error + lord_session" where
  "getSession sv lordID =
     (case sv_sessions sv lordID of
        None \<Rightarrow> Inl (Errorf (''no active session for lord '' @ lordID))
      | Some sess \<Rightarrow> Inr sess)"

definition SendSpawn ::
  "go_env \<Rightarrow> string \<Rightarrow> spawn_request \<Rightarrow> server \<Rightarrow> go_error option \<times> server" where
  "SendSpawn env lordID req sv =
     (case getSession sv lordID of
        Inl err \<Rightarrow> (Some err, sv)
      | Inr sess \<Rightarrow>
          (case outbox_send5 (ge_room env) (Ev_Spawn req) sess of
             Some sess' \<Rightarrow> (None, put_session lordID sess' sv)
           | None \<Rightarrow> (Some (Errorf ''send spawn timeout''), sv)))"

definition SendKill ::
  "go_env \<Rightarrow> string \<Rightarrow> kill_request \<Rightarrow> server \<Rightarrow> go_error option \<times> server" where
  "SendKill env lordID req sv =
     (case getSession sv lordID of
        Inl err \<Rightarrow> (Some err, sv)
      | Inr sess \<Rightarrow>
          (case outbox_send5 (ge_room env) (Ev_Kill req) sess of
             Some sess' \<Rightarrow> (None, put_session lordID sess' sv)
           | None \<Rightarrow> (Some (Errorf ''send kill timeout''), sv)))"

lemma SendSpawn_cases:
  assumes "SendSpawn env lordID req sv = (r, sv')"
  obtains (no_session) "sv_sessions sv lordID = None"
      "r = Some (Errorf (''no active session for lord '' @ lordID))" "sv' = sv"
  | (timeout) sess where "sv_sessions sv lordID = Some sess"
      "outbox_send5 (ge_room env) (Ev_Spawn req) sess = None"
      "r = Some (Errorf ''send spawn timeout'')" "sv' = sv"
  | (sent) sess sess' where "sv_sessions sv lordID = Some sess"
      "outbox_send5 (ge_room env) (Ev_Spawn req) sess = Some sess'" "r = None"
      "sv' = put_session lordID sess' sv"
  using assms by (auto simp: SendSpawn_def getSession_def split: option.splits)

lemma SendKill_cases:
  assumes "SendKill env lordID req sv = (r, sv')"
  obtains (no_session) "sv_sessions sv lordID = None"
      "r = Some (Errorf (''no active session for lord '' @ lordID))" "sv' = sv"
  | (timeout) sess where "sv_sessions sv lordID = Some sess"
      "outbox_send5 (ge_room env) (Ev_Kill req) sess = None"
      "r = Some (Errorf ''send kill timeout'')" "sv' = sv"
  | (sent) sess sess' where "sv_sessions sv lordID = Some sess"
      "outbox_send5 (ge_room env) (Ev_Kill req) sess = Some sess'" "r = None"
      "sv' = put_session lordID sess' sv"
  using assms by (auto simp: SendKill_def getSession_def split: option.splits)

subsection \<open>The invariant of the server\<close>

text \<open>The table, its closed channels and its log.\<close>

definition tbl_inv :: "process_table \<Rightarrow> bool" where
  "tbl_inv t \<longleftrightarrow> pt_inv t \<and> exit_inv t \<and> wal_inv t \<and> log_fresh t"

lemma tbl_invD: "tbl_inv t \<Longrightarrow> pt_inv t" "tbl_inv t \<Longrightarrow> exit_inv t" "tbl_inv t \<Longrightarrow> wal_inv t" "tbl_inv t \<Longrightarrow> log_fresh t"
  by (simp_all add: tbl_inv_def)

text \<open>An entry that the index by id still reaches.\<close>

definition live :: "process_table \<Rightarrow> nat \<Rightarrow> bool" where
  "live t a \<longleftrightarrow> (\<exists>p. PT_Get t p = Some a)"

lemma live_Get: "PT_Get t p = Some a \<Longrightarrow> live t a"
  by (auto simp: live_def)

lemma live_heap: "pt_inv t \<Longrightarrow> live t a \<Longrightarrow> pt_heap t a \<noteq> None"
  by (auto simp: live_def PT_Get_def dest: pt_inv_byID)

lemma live_cong: "pt_byID t' = pt_byID t \<Longrightarrow> live t' a = live t a"
  by (simp add: live_def PT_Get_def)

lemma byID_ops [frame_simps, simp]:
  "pt_byID (PE_UpdateState now a st l pid t) = pt_byID t"
  "pt_byID (PE_UpdateResult now a c s t) = pt_byID t"
  "pt_byID (snd (PT_UpdateLordForHostname ks ol nl t)) = pt_byID t"
  by (simp_all add: PE_UpdateState_def PE_UpdateResult_def PT_UpdateLordForHostname_def
      rebind_loop_frame)

lemma live_ops [frame_simps, simp]:
  "live (PE_UpdateState now a st l pid t) b = live t b"
  "live (PE_UpdateResult now a c s t) b = live t b"
  "live (pt_modify a f t) b = live t b"
  "live (snd (PT_UpdateLordForHostname ks ol nl t)) b = live t b"
  by (rule live_cong, simp)+

lemma live_Create:
  "pt_inv t \<Longrightarrow> PT_Get t (pi_process_id info) = None \<Longrightarrow>
     live (snd (PT_Create info t)) a \<longleftrightarrow> live t a \<or> a = pt_next t"
  unfolding live_def PT_Get_def PT_Create_simps by (metis fun_upd_apply option.distinct(1) option.inject)

lemma tbl_inv_Create [inv_intros]:
  "tbl_inv t \<Longrightarrow> fresh_info info \<Longrightarrow> tbl_inv (snd (PT_Create info t))"
  unfolding tbl_inv_def
  by (intro conjI pt_inv_Create exit_inv_Create wal_inv_Create log_fresh_Create)
    (auto simp: fresh_info_def)

lemma tbl_inv_UpdateState [inv_intros]:
  "tbl_inv t \<Longrightarrow> live t a \<Longrightarrow> tbl_inv (PE_UpdateState now a st l pid t)"
  unfolding tbl_inv_def live_def
  by (auto intro: pt_inv_UpdateState exit_inv_UpdateState wal_inv_UpdateState log_fresh_UpdateState)

lemma tbl_inv_UpdateResult [inv_intros]:
  "tbl_inv t \<Longrightarrow> live t a \<Longrightarrow> tbl_inv (PE_UpdateResult now a c s t)"
  unfolding tbl_inv_def live_def
  by (auto intro: pt_inv_UpdateResult exit_inv_UpdateResult wal_inv_UpdateResult
      log_fresh_UpdateResult)

lemma tbl_inv_UpdateLordForHostname [inv_intros]:
  "tbl_inv t \<Longrightarrow> iter_order (pt_byID t) ks \<Longrightarrow>
     tbl_inv (snd (PT_UpdateLordForHostname ks ol nl t))"
  unfolding tbl_inv_def
  by (auto intro: pt_inv_UpdateLordForHostname exit_inv_UpdateLordForHostname
      wal_inv_UpdateLordForHostname log_fresh_UpdateLordForHostname)

text \<open>A write to an entry that changes no durable field.\<close>

definition unlogged :: "(proc_entry \<Rightarrow> proc_entry) \<Rightarrow> bool" where
  "unlogged f \<longleftrightarrow> keeps_identity f \<and>
     (\<forall>e. durable (pe_info (f e)) = durable (pe_info e) \<and>
          pi_state (pe_info (f e)) = pi_state (pe_info e) \<and> pe_exited (f e) = pe_exited e)"

lemma tbl_inv_unlogged [inv_intros]:
  assumes "tbl_inv t" "unlogged f"
  shows "tbl_inv (pt_modify a f t)"
proof -
  have "same_durable (dir t) (dir (pt_modify a f t))"
  proof -
    have "durable (info_at (pt_modify a f t) b) = durable (info_at t b)" for b
      using assms(2) by (auto simp: info_at_def entry_at_def heap_modify unlogged_def
          split: option.split)
    then have "map_option durable (dir t p) = map_option durable (dir (pt_modify a f t) p)" for p
      by (cases "pt_byID t p") (simp_all add: dir_def)
    then show ?thesis by (simp add: same_durable_def)
  qed
  then have "wal_inv (pt_modify a f t)"
    using wal_inv_cong [OF tbl_invD(3) [OF assms(1)]] by simp
  moreover have "pt_inv (pt_modify a f t)"
    using assms by (auto simp: tbl_inv_def unlogged_def intro: pt_inv_modify)
  moreover have "exit_inv (pt_modify a f t)"
    using assms by (intro exit_inv_modify) (simp_all add: tbl_inv_def unlogged_def)
  moreover have "log_fresh (pt_modify a f t)"
    using log_fresh_cong [of "pt_modify a f t" t] tbl_invD(4) [OF assms(1)] by simp
  ultimately show ?thesis by (simp add: tbl_inv_def)
qed

lemma unlogged_upd_info:
  assumes "\<And>i. durable (f i) = durable i \<and> pi_state (f i) = pi_state i \<and>
      pi_process_id (f i) = pi_process_id i \<and> pi_tenant_id (f i) = pi_tenant_id i"
  shows "unlogged (pe_upd_info f)"
  using assms by (auto simp: unlogged_def intro!: keeps_identity_upd_info)

definition sess_ok :: "string \<Rightarrow> lord_session \<Rightarrow> bool" where
  "sess_ok k s \<longleftrightarrow> ls_lordID s = k \<and> length (ls_outbox s) \<le> outbox_cap"

definition sv_inv :: "server \<Rightarrow> bool" where
  "sv_inv sv \<longleftrightarrow> tbl_inv (sv_processes sv) \<and> lr_inv (sv_lords sv) \<and>
     (\<forall>k s. sv_sessions sv k = Some s \<longrightarrow> sess_ok k s) \<and>
     (\<forall>a\<in>pending sv. live (sv_processes sv) a)"

lemma sv_invI:
  assumes "tbl_inv (sv_processes sv)" "lr_inv (sv_lords sv)"
    "\<And>k s. sv_sessions sv k = Some s \<Longrightarrow> sess_ok k s"
    "\<And>a. a \<in> pending sv \<Longrightarrow> live (sv_processes sv) a"
  shows "sv_inv sv"
  using assms by (auto simp: sv_inv_def)

lemma sv_invD:
  assumes "sv_inv sv"
  shows "tbl_inv (sv_processes sv)" "lr_inv (sv_lords sv)"
    "sv_sessions sv k = Some s \<Longrightarrow> sess_ok k s"
    "a \<in> pending sv \<Longrightarrow> live (sv_processes sv) a"
  using assms by (auto simp: sv_inv_def)

lemma sv_inv_on_processes:
  assumes "sv_inv sv" "tbl_inv (f (sv_processes sv))"
    "\<And>a. live (sv_processes sv) a \<Longrightarrow> live (f (sv_processes sv)) a"
  shows "sv_inv (on_processes f sv)"
  using assms by (auto simp: sv_inv_def on_processes_def pending_def)

lemma sv_inv_on_lords [inv_intros]:
  "sv_inv sv \<Longrightarrow> lr_inv (f (sv_lords sv)) \<Longrightarrow> sv_inv (on_lords f sv)"
  by (auto simp: sv_inv_def on_lords_def pending_def)

lemma sv_inv_put_session [inv_intros]:
  "sv_inv sv \<Longrightarrow> sess_ok k s \<Longrightarrow> sv_inv (put_session k s sv)"
  by (auto simp: sv_inv_def put_session_def pending_def)

lemma sv_inv_del_session [inv_intros]: "sv_inv sv \<Longrightarrow> sv_inv (del_session k sv)"
  by (auto simp: sv_inv_def del_session_def pending_def)

lemma sv_inv_put_waiter [inv_intros]: "sv_inv sv \<Longrightarrow> sv_inv (put_waiter k s sv)"
  by (auto simp: sv_inv_def put_waiter_def pending_def)

lemma sv_inv_del_waiter [inv_intros]: "sv_inv sv \<Longrightarrow> sv_inv (del_waiter k sv)"
  by (auto simp: sv_inv_def del_waiter_def pending_def)

lemma sv_inv_UpdateState [inv_intros]:
  "sv_inv sv \<Longrightarrow> live (sv_processes sv) a \<Longrightarrow> sv_inv (UpdateState env a st l pid sv)"
  unfolding UpdateState_def
  by (rule sv_inv_on_processes) (simp_all add: tbl_inv_UpdateState sv_invD)

lemma sv_inv_UpdateResult [inv_intros]:
  "sv_inv sv \<Longrightarrow> live (sv_processes sv) a \<Longrightarrow> sv_inv (UpdateResult env a c s sv)"
  unfolding UpdateResult_def
  by (rule sv_inv_on_processes) (simp_all add: tbl_inv_UpdateResult sv_invD)

lemma sv_inv_upd_info [inv_intros]:
  "sv_inv sv \<Longrightarrow> unlogged (pe_upd_info f) \<Longrightarrow> sv_inv (upd_info a f sv)"
  unfolding upd_info_def
  by (rule sv_inv_on_processes) (simp_all add: tbl_inv_unlogged sv_invD)

lemma outbox_send5_ok: "outbox_send5 room ev s = Some s' \<Longrightarrow> sess_ok k s \<Longrightarrow> sess_ok k s'"
  by (simp add: sess_ok_def outbox_send5_props)

lemma sv_inv_SendSpawn [inv_intros]:
  assumes "sv_inv sv"
  shows "sv_inv (snd (SendSpawn env lordID req sv))"
proof (cases "SendSpawn env lordID req sv")
  case (Pair r sv')
  then have "sv_inv sv'"
    by (cases rule: SendSpawn_cases)
      (auto intro: sv_inv_put_session assms outbox_send5_ok sv_invD(3) [OF assms])
  then show ?thesis using Pair by simp
qed

lemma sv_inv_SendKill [inv_intros]:
  assumes "sv_inv sv"
  shows "sv_inv (snd (SendKill env lordID req sv))"
proof (cases "SendKill env lordID req sv")
  case (Pair r sv')
  then have "sv_inv sv'"
    by (cases rule: SendKill_cases)
      (auto intro: sv_inv_put_session assms outbox_send5_ok sv_invD(3) [OF assms])
  then show ?thesis using Pair by simp
qed

text \<open>The parts of the server each operation leaves alone.\<close>

lemma on_processes_frame [frame_simps, simp]:
  "sv_processes (on_processes f sv) = f (sv_processes sv)"
  "sv_lords (on_processes f sv) = sv_lords sv" "sv_sessions (on_processes f sv) = sv_sessions sv"
  "sv_waiters (on_processes f sv) = sv_waiters sv" "sv_acks (on_processes f sv) = sv_acks sv"
  "sv_recoveries (on_processes f sv) = sv_recoveries sv"
  "sv_timers (on_processes f sv) = sv_timers sv" "sv_bpf (on_processes f sv) = sv_bpf sv"
  "sv_lastRecoveryAt (on_processes f sv) = sv_lastRecoveryAt sv"
  by (simp_all add: on_processes_def)

lemma on_lords_frame [frame_simps, simp]:
  "sv_lords (on_lords g sv) = g (sv_lords sv)"
  "sv_processes (on_lords g sv) = sv_processes sv" "sv_sessions (on_lords g sv) = sv_sessions sv"
  "sv_timers (on_lords g sv) = sv_timers sv" "sv_recoveries (on_lords g sv) = sv_recoveries sv"
  by (simp_all add: on_lords_def)

lemma put_session_frame [frame_simps, simp]:
  "sv_processes (put_session k s sv) = sv_processes sv" "sv_lords (put_session k s sv) = sv_lords sv"
  "sv_timers (put_session k s sv) = sv_timers sv"
  "sv_recoveries (put_session k s sv) = sv_recoveries sv"
  "sv_sessions (put_session k s sv) = (sv_sessions sv)(k \<mapsto> s)"
  by (simp_all add: put_session_def)

lemma del_session_frame [frame_simps, simp]:
  "sv_processes (del_session k sv) = sv_processes sv" "sv_lords (del_session k sv) = sv_lords sv"
  "sv_timers (del_session k sv) = sv_timers sv"
  "sv_recoveries (del_session k sv) = sv_recoveries sv"
  "sv_sessions (del_session k sv) = (sv_sessions sv)(k := None)"
  by (simp_all add: del_session_def)

lemma sv_update_frame [frame_simps, simp]:
  "sv_processes (UpdateState env a st l pid sv) =
     PE_UpdateState (ge_now env) a st l pid (sv_processes sv)"
  "sv_lords (UpdateState env a st l pid sv) = sv_lords sv"
  "sv_sessions (UpdateState env a st l pid sv) = sv_sessions sv"
  "sv_timers (UpdateState env a st l pid sv) = sv_timers sv"
  "sv_processes (UpdateResult env a c s sv) = PE_UpdateResult (ge_now env) a c s (sv_processes sv)"
  "sv_lords (UpdateResult env a c s sv) = sv_lords sv"
  "sv_sessions (UpdateResult env a c s sv) = sv_sessions sv"
  "sv_timers (UpdateResult env a c s sv) = sv_timers sv"
  "sv_processes (upd_info a f sv) = pt_modify a (pe_upd_info f) (sv_processes sv)"
  "sv_lords (upd_info a f sv) = sv_lords sv" "sv_sessions (upd_info a f sv) = sv_sessions sv"
  "sv_timers (upd_info a f sv) = sv_timers sv"
  by (simp_all add: UpdateState_def UpdateResult_def upd_info_def)

lemma SendSpawn_frame [frame_simps, simp]:
  "sv_processes (snd (SendSpawn env l req sv)) = sv_processes sv"
  "sv_lords (snd (SendSpawn env l req sv)) = sv_lords sv"
  "sv_timers (snd (SendSpawn env l req sv)) = sv_timers sv"
  "sv_recoveries (snd (SendSpawn env l req sv)) = sv_recoveries sv"
  by (auto simp: SendSpawn_def split: sum.split option.split)

lemma SendKill_frame [frame_simps, simp]:
  "sv_processes (snd (SendKill env l req sv)) = sv_processes sv"
  "sv_lords (snd (SendKill env l req sv)) = sv_lords sv"
  "sv_timers (snd (SendKill env l req sv)) = sv_timers sv"
  "sv_recoveries (snd (SendKill env l req sv)) = sv_recoveries sv"
  by (auto simp: SendKill_def split: sum.split option.split)

end
