(* ===== verification/Tenant_Api.thy ===== *)
theory Tenant_Api
  imports Server_State
begin

section \<open>The calls of the tenants (server.go)\<close>

text \<open>
  The RPCs of \<open>SchedulerService\<close>: spawn, kill, wait, the stdin and output streams, the listings,
  and the shutdown. Calls that block (wait, stdin, follow) are split at the points where they
  block. A result is a gRPC error or the response; the server state is returned in every case.
\<close>

subsection \<open>Validation and requests\<close>

definition validateResources :: "resource_spec option \<Rightarrow> go_error option" where
  "validateResources res =
     (case res of
        None \<Rightarrow> None
      | Some r \<Rightarrow>
          if sint (rs_cpu_shares r) < 0 \<or> 10000 < sint (rs_cpu_shares r)
          then Some (Errorf (''cpu_shares out of range [0..10000]: '' @ show_int (sint (rs_cpu_shares r))))
          else if sint (rs_cpu_quota_pct r) < 0 \<or> 100 < sint (rs_cpu_quota_pct r)
          then Some (Errorf (''cpu_quota_pct out of range [0..100]: '' @ show_int (sint (rs_cpu_quota_pct r))))
          else if sint (rs_mem_limit_bytes r) < 0
          then Some (Errorf (''mem_limit_bytes must be > 0: '' @ show_int (sint (rs_mem_limit_bytes r))))
          else if sint (rs_io_weight r) < 0 \<or> 10000 < sint (rs_io_weight r)
          then Some (Errorf (''io_weight out of range [0..10000]: '' @ show_int (sint (rs_io_weight r))))
          else if sint (rs_pids_limit r) < 0 \<or> 1000000 < sint (rs_pids_limit r)
          then Some (Errorf (''pids_limit out of range [0..1000000]: '' @ show_int (sint (rs_pids_limit r))))
          else None)"

definition copyMap :: "str_map \<Rightarrow> str_map" where
  "copyMap src = (case src of None \<Rightarrow> None | Some m \<Rightarrow> Some m)"

definition buildSpawnRequest :: "process_info \<Rightarrow> spawn_request \<Rightarrow> spawn_request" where
  "buildSpawnRequest info req =
     (let lordEnv = copyMap (sr_env req);
          lordEnv' =
            (if pi_state_dump_path info \<noteq> '''' then
               (case lordEnv of
                  None \<Rightarrow> Some [''ETRONIUM_STATE_DUMP'' \<mapsto> pi_state_dump_path info]
                | Some m \<Rightarrow> Some (m(''ETRONIUM_STATE_DUMP'' \<mapsto> pi_state_dump_path info)))
             else lordEnv)
      in \<lparr>sr_tenant_id = pi_tenant_id info, sr_exec_path = sr_exec_path req,
          sr_argv = sr_argv req, sr_env = lordEnv', sr_resources = sr_resources req,
          sr_working_dir = sr_working_dir req, sr_prefer_lord_id = '''',
          sr_stdin_initial = sr_stdin_initial req, sr_process_id = pi_process_id info,
          sr_max_restarts = pi_max_restarts info,
          sr_state_dump_path_hint = pi_state_dump_path info\<rparr>)"

lemma validateResources_None: "validateResources res = None \<longleftrightarrow> resources_valid res"
  by (auto simp: validateResources_def resources_valid_def not_less split: option.split)

subsection \<open>Spawn\<close>

text \<open>The entry a spawn creates.\<close>

definition spawn_info :: "go_env \<Rightarrow> string \<Rightarrow> spawn_request \<Rightarrow> process_info" where
  "spawn_info env lordID req = zero_process_info
     \<lparr>pi_ref := \<lparr>ref_process_id = ge_id env, ref_lord_id = lordID, ref_local_pid = 0\<rparr>,
      pi_tenant_id := sr_tenant_id req,
      pi_exec_path := sr_exec_path req,
      pi_argv := sr_argv req,
      pi_env := copyMap (sr_env req),
      pi_working_dir := sr_working_dir req,
      pi_state := PROCESS_STATE_READY,
      pi_state_changed_at := Some (ge_now env),
      pi_resources := sr_resources req,
      pi_state_dump_path := sr_state_dump_path_hint req,
      pi_max_restarts := (if sr_max_restarts req = 0 then 10 else sr_max_restarts req)\<rparr>"

definition Spawn :: "go_env \<Rightarrow> spawn_request \<Rightarrow> server \<Rightarrow> (go_error + process_info) \<times> server" where
  "Spawn env req sv =
     (if sr_tenant_id req = '''' then (Inl (Status InvalidArgument ''tenant_id required''), sv)
      else if sr_exec_path req = '''' then (Inl (Status InvalidArgument ''exec_path required''), sv)
      else case validateResources (sr_resources req) of
        Some err \<Rightarrow> (Inl (Status InvalidArgument (''invalid resources: '' @ error_text err)), sv)
      | None \<Rightarrow>
      (case Lords_Pick (sv_lords sv) (ge_lords env) (sr_prefer_lord_id req) of
        None \<Rightarrow> (Inl (Status Unavailable ''no healthy lord available''), sv)
      | Some lrd \<Rightarrow>
      (case getSession sv (l_lord_id lrd) of
        Inl err \<Rightarrow> (Inl (Status Unavailable
            (''lord '' @ l_lord_id lrd @ '' not connected: '' @ error_text err)), sv)
      | Inr _ \<Rightarrow>
          let info = spawn_info env (l_lord_id lrd) req;
              (a, pt) = PT_Create info (sv_processes sv);
              sv1 = on_processes (\<lambda>_. pt) sv;
              spawnReq = buildSpawnRequest info req in
          (case SendSpawn env (l_lord_id lrd) spawnReq sv1 of
             (Some err, sv2) \<Rightarrow>
               (Inl (Status Internal (''send spawn: '' @ error_text err)),
                UpdateResult env a (- 1) 0 (UpdateState env a PROCESS_STATE_STOPPED '''' 0 sv2))
           | (None, sv2) \<Rightarrow> (Inr (sv_info sv2 a), sv2)))))"

subsection \<open>Kill\<close>

definition kill_signal :: "kill_request \<Rightarrow> i32" where
  "kill_signal req =
     (let signal = (if kr_signal_number req = 0 then 15 else kr_signal_number req) in
      if kr_force req then 9 else signal)"

definition Kill :: "go_env \<Rightarrow> kill_request \<Rightarrow> server \<Rightarrow> (go_error + kill_response) \<times> server" where
  "Kill env req sv =
     (case PT_Get (sv_processes sv) (kr_process_id req) of
        None \<Rightarrow> (Inl (Status NotFound (''process '' @ kr_process_id req @ '' not found'')), sv)
      | Some a \<Rightarrow>
          let lordID = pi_lord_id (sv_info sv a) in
          if lordID = '''' then (Inl (Status FailedPrecondition ''process not running (no lord)''), sv)
          else case SendKill env lordID
                 \<lparr>kr_process_id = kr_process_id req, kr_signal_number = kill_signal req,
                  kr_force = kr_force req\<rparr> sv of
            (Some err, sv1) \<Rightarrow> (Inl (Status Unavailable (''send kill: '' @ error_text err)), sv1)
          | (None, sv1) \<Rightarrow>
              (Inr \<lparr>kp_acknowledged = True, kp_current_state = pi_state (sv_info sv1 a)\<rparr>, sv1))"

subsection \<open>Wait\<close>

text \<open>
  The select of \<open>Wait\<close>: the results of the branches that are ready once the call has been blocked
  for \<open>elapsed\<close>, \<open>ctx\<close> being the error of the context when it is done. The call is still blocked
  exactly when the list is empty; when several branches are ready the runtime chooses one.
\<close>

definition Wait_ready ::
  "server \<Rightarrow> wait_request \<Rightarrow> go_error option \<Rightarrow> duration \<Rightarrow> (go_error + process_info) list"
where
  "Wait_ready sv req ctx elapsed =
     (case PT_Get (sv_processes sv) (wr_process_id req) of
        None \<Rightarrow> [Inl (Status NotFound (''process '' @ wr_process_id req @ '' not found''))]
      | Some a \<Rightarrow>
          let requested = sint (wr_timeout_sec req) * Second;
              timeout = (if requested = 0 then 600 * Second else requested);
              timer = (if 0 < sint (wr_timeout_sec req) then Some timeout else None) in
          (if pe_exited (entry_at (sv_processes sv) a) then [Inr (sv_info sv a)] else []) @
          (case ctx of Some err \<Rightarrow> [Inl err] | None \<Rightarrow> []) @
          (case timer of
             Some d \<Rightarrow> if d \<le> elapsed then [Inr (sv_info sv a)] else []
           | None \<Rightarrow> []))"

subsection \<open>Writing to the standard input\<close>

definition registerWriteStdinWaiter :: "string \<Rightarrow> nat \<Rightarrow> server \<Rightarrow> server" where
  "registerWriteStdinWaiter processID ch sv = put_waiter processID ch sv"

definition unregisterWriteStdinWaiter :: "string \<Rightarrow> server \<Rightarrow> server" where
  "unregisterWriteStdinWaiter processID sv = del_waiter processID sv"

definition deliverWriteStdinAck :: "write_stdin_ack \<Rightarrow> server \<Rightarrow> server" where
  "deliverWriteStdinAck ack sv =
     (case sv_waiters sv (wa_process_id ack) of
        None \<Rightarrow> sv
      | Some ch \<Rightarrow>
          (case sv_acks sv ch of
             None \<Rightarrow> sv\<lparr>sv_acks := (sv_acks sv)(ch \<mapsto> ack)\<rparr>
           | Some _ \<Rightarrow> sv))"

definition closed_response :: write_stdin_response where
  "closed_response = \<lparr>wp_bytes_written = 0, wp_closed = True\<rparr>"

text \<open>
  The call up to the point where it waits for the ack: either it has returned already, or it is
  waiting on a channel.
\<close>

datatype stdin_call = Returned "go_error + write_stdin_response" | Waiting nat

definition WriteStdin_send :: "go_env \<Rightarrow> write_stdin_request \<Rightarrow> server \<Rightarrow> stdin_call \<times> server" where
  "WriteStdin_send env req sv =
     (case PT_Get (sv_processes sv) (ws_process_id req) of
        None \<Rightarrow> (Returned (Inl (Status NotFound
            (''process '' @ ws_process_id req @ '' not found''))), sv)
      | Some a \<Rightarrow>
          let lordID = pi_lord_id (sv_info sv a) in
          if lordID = '''' then
            (Returned (Inl (Status FailedPrecondition
               (''process '' @ ws_process_id req @ '' has no lord assigned''))), sv)
          else
            let ch = sv_nextChan sv;
                sv1 = registerWriteStdinWaiter (ws_process_id req) ch
                        (sv\<lparr>sv_nextChan := ch + 1\<rparr>) in
            (case getSession sv1 lordID of
               Inl _ \<Rightarrow> (Returned (Inr closed_response),
                         unregisterWriteStdinWaiter (ws_process_id req) sv1)
             | Inr sess \<Rightarrow>
                 (case outbox_send5 (ge_room env)
                         (Ev_WriteStdin \<lparr>ws_lord_id = lordID, ws_process_id = ws_process_id req,
                                         ws_data = ws_data req, ws_eof = ws_eof req\<rparr>) sess of
                    None \<Rightarrow> (Returned (Inr closed_response),
                             unregisterWriteStdinWaiter (ws_process_id req) sv1)
                  | Some sess' \<Rightarrow> (Waiting ch, put_session lordID sess' sv1))))"

text \<open>
  The end of a waiting call. A branch of the select that is not ready gives None.
\<close>

datatype stdin_wake = Got_ack | Ack_timeout | Ctx_done go_error

definition WriteStdin_wait ::
  "stdin_wake \<Rightarrow> string \<Rightarrow> nat \<Rightarrow> server \<Rightarrow> ((go_error + write_stdin_response) \<times> server) option"
where
  "WriteStdin_wait wake processID ch sv =
     (case wake of
        Got_ack \<Rightarrow>
          (case sv_acks sv ch of
             None \<Rightarrow> None
           | Some ack \<Rightarrow>
               Some (Inr \<lparr>wp_bytes_written = wa_bytes_written ack, wp_closed = wa_closed ack\<rparr>,
                     unregisterWriteStdinWaiter processID (sv\<lparr>sv_acks := (sv_acks sv)(ch := None)\<rparr>)))
      | Ack_timeout \<Rightarrow> Some (Inr closed_response, unregisterWriteStdinWaiter processID sv)
      | Ctx_done err \<Rightarrow> Some (Inl err, unregisterWriteStdinWaiter processID sv))"

subsection \<open>Listings\<close>

definition GetProcess :: "server \<Rightarrow> string \<Rightarrow> go_error + process_info" where
  "GetProcess sv processID =
     (case PT_Get (sv_processes sv) processID of
        None \<Rightarrow> Inl (Status NotFound (''process '' @ processID @ '' not found''))
      | Some a \<Rightarrow> Inr (sv_info sv a))"

definition ListProcesses ::
  "go_env \<Rightarrow> server \<Rightarrow> list_processes_request \<Rightarrow> go_error + process_info list" where
  "ListProcesses env sv req =
     (if lp_tenant_id req = '''' then Inl (Status InvalidArgument ''tenant_id required'')
      else
        let entries = PT_ListByTenant (sv_processes sv) (ge_tenant env) (lp_tenant_id req)
                        (lp_only_running req);
            out = map (sv_info sv) entries;
            limit = (if sint (lp_limit req) \<le> 0 \<or> 500 < sint (lp_limit req) then 500
                     else nat (sint (lp_limit req))) in
        Inr (if limit < length out then take limit out else out))"

definition ListLords :: "go_env \<Rightarrow> server \<Rightarrow> bool \<Rightarrow> lord list" where
  "ListLords env sv onlyHealthy = Lords_ListAll (sv_lords sv) (ge_lords env) onlyHealthy"

subsection \<open>Streaming the output\<close>

text \<open>A chunk as the server sends it: the offset is not set.\<close>

definition stdout_chunk :: "byte list \<Rightarrow> io_chunk" where
  "stdout_chunk data = \<lparr>io_stream = STREAM_STDOUT, io_data = data, io_offset = 0\<rparr>"

text \<open>Without follow: one chunk with the contents of the ring buffer, if there is any.\<close>

definition StreamProcessIO_dump :: "server \<Rightarrow> string \<Rightarrow> go_error + io_chunk list" where
  "StreamProcessIO_dump sv processID =
     (case PT_Get (sv_processes sv) processID of
        None \<Rightarrow> Inl (Status NotFound (''process '' @ processID @ '' not found''))
      | Some a \<Rightarrow>
          let data = rb_Bytes (pe_ioBuf (entry_at (sv_processes sv) a)) in
          Inr (if 0 < length data then [stdout_chunk data] else []))"

text \<open>With follow: the start reads the last offset sent; every wake-up of the loop is a step.\<close>

definition StreamProcessIO_start :: "server \<Rightarrow> string \<Rightarrow> go_error + (nat \<times> int)" where
  "StreamProcessIO_start sv processID =
     (case PT_Get (sv_processes sv) processID of
        None \<Rightarrow> Inl (Status NotFound (''process '' @ processID @ '' not found''))
      | Some a \<Rightarrow> Inr (a, pe_ioLastSent (entry_at (sv_processes sv) a)))"

datatype stream_wake = Stream_ctx go_error | Stream_exited "go_error option" | Stream_tick "go_error option"

datatype stream_next = Stream_return "go_error option" | Stream_loop int

definition set_ioLastSent :: "nat \<Rightarrow> int \<Rightarrow> server \<Rightarrow> server" where
  "set_ioLastSent a n = on_processes (pt_modify a (\<lambda>e. e\<lparr>pe_ioLastSent := n\<rparr>))"

text \<open>
  The argument of a wake-up by the channel or the ticker is the error of the send, if it fails.
  The result is the chunk handed to the stream, where the loop goes, and the server; None when the
  branch is not ready (the process has not exited).
\<close>

definition StreamProcessIO_step ::
  "stream_wake \<Rightarrow> nat \<Rightarrow> int \<Rightarrow> server \<Rightarrow> (io_chunk list \<times> stream_next \<times> server) option"
where
  "StreamProcessIO_step wake a lastTotal sv =
     (let (data, newTotal) =
            rb_SinceOffset (pe_ioBuf (entry_at (sv_processes sv) a)) lastTotal in
      case wake of
        Stream_ctx err \<Rightarrow> Some ([], Stream_return (Some err), sv)
      | Stream_exited sendErr \<Rightarrow>
          if \<not> pe_exited (entry_at (sv_processes sv) a) then None
          else if 0 < length data
          then Some ([stdout_chunk data], Stream_return None, set_ioLastSent a newTotal sv)
          else Some ([], Stream_return None, sv)
      | Stream_tick sendErr \<Rightarrow>
          if 0 < length data then
            (case sendErr of
               Some err \<Rightarrow> Some ([stdout_chunk data], Stream_return (Some err), sv)
             | None \<Rightarrow> Some ([stdout_chunk data], Stream_loop newTotal, set_ioLastSent a newTotal sv))
          else Some ([], Stream_loop lastTotal, sv))"

subsection \<open>Shutdown and the calls that are not implemented\<close>

text \<open>
  The loop over the sessions: a full outbox is skipped; \<open>cancelled\<close> says before which session the
  context is found done.
\<close>

fun shutdown_loop ::
  "i32 \<Rightarrow> (string \<Rightarrow> go_error option) \<Rightarrow> string list \<Rightarrow> server \<Rightarrow> go_error option \<times> server"
where
  "shutdown_loop grace cancelled [] sv = (None, sv)"
| "shutdown_loop grace cancelled (k # ks) sv =
     (case sv_sessions sv k of
        None \<Rightarrow> shutdown_loop grace cancelled ks sv
      | Some sess \<Rightarrow>
          (case cancelled k of
             Some err \<Rightarrow> (Some err, sv)
           | None \<Rightarrow>
               (case outbox_push (Ev_SetDrain grace '''') sess of
                  Some sess' \<Rightarrow> shutdown_loop grace cancelled ks (put_session k sess' sv)
                | None \<Rightarrow> shutdown_loop grace cancelled ks sv)))"

definition Shutdown ::
  "(string \<Rightarrow> go_error option) \<Rightarrow> go_error option \<Rightarrow> string list \<Rightarrow> duration \<Rightarrow> server \<Rightarrow>
     go_error option \<times> server"
where
  "Shutdown cancelled cancelled_later ks drainTimeout sv =
     (if ks = [] then (None, sv)
      else case shutdown_loop (f64_to_i32 (duration_Seconds drainTimeout)) cancelled ks sv of
        (Some err, sv1) \<Rightarrow> (Some err, sv1)
      | (None, sv1) \<Rightarrow> (cancelled_later, sv1))"

definition WatchProcess :: "go_error" where
  "WatchProcess = Status Unimplemented ''watch process not yet implemented''"

definition PullFile :: "go_error" where
  "PullFile = Status Unimplemented ''pull file not yet implemented (Phase 4)''"

definition PushFile :: "go_error" where
  "PushFile = Status Unimplemented ''push file not yet implemented (Phase 4)''"

definition InvalidateFileCache :: "go_error" where
  "InvalidateFileCache = Status Unimplemented ''invalidate cache not yet implemented (Phase 4)''"

subsection \<open>The calls keep the invariant\<close>

lemma SendSpawn_sessions:
  "SendSpawn env l req sv = (None, sv') \<Longrightarrow>
     \<exists>s s'. sv_sessions sv l = Some s \<and> sv_sessions sv' l = Some s' \<and>
       (\<exists>evs. ls_outbox s' = evs @ [Ev_Spawn req])"
  by (erule SendSpawn_cases) (auto dest: outbox_send5_props)

lemma SendSpawn_error: "SendSpawn env l req sv = (Some err, sv') \<Longrightarrow> sv' = sv"
  by (erule SendSpawn_cases) auto

lemma SendKill_sessions:
  "SendKill env l req sv = (None, sv') \<Longrightarrow>
     \<exists>s s'. sv_sessions sv l = Some s \<and> sv_sessions sv' l = Some s' \<and>
       (\<exists>evs. ls_outbox s' = evs @ [Ev_Kill req])"
  by (erule SendKill_cases) (auto dest: outbox_send5_props)

lemma SendKill_error: "SendKill env l req sv = (Some err, sv') \<Longrightarrow> sv' = sv"
  by (erule SendKill_cases) auto

text \<open>Spawn, with the intermediate results named.\<close>

text \<open>The guards of \<open>Spawn\<close>: the request is incomplete or out of range, or no connected lord is found.\<close>

definition refused :: "go_env \<Rightarrow> spawn_request \<Rightarrow> server \<Rightarrow> bool" where
  "refused env req sv \<longleftrightarrow> sr_tenant_id req = '''' \<or> sr_exec_path req = '''' \<or>
     validateResources (sr_resources req) \<noteq> None \<or>
     (case Lords_Pick (sv_lords sv) (ge_lords env) (sr_prefer_lord_id req) of
        None \<Rightarrow> True | Some l \<Rightarrow> sv_sessions sv (l_lord_id l) = None)"

lemma Spawn_cases:
  assumes "Spawn env req sv = (r, sv')"
  obtains (rejected) c msg where "r = Inl (Status c msg)" "sv' = sv" "refused env req sv"
  | (failed) l err where "Lords_Pick (sv_lords sv) (ge_lords env) (sr_prefer_lord_id req) = Some l"
      "r = Inl (Status Internal (''send spawn: '' @ error_text err))"
      "sv' = UpdateResult env (pt_next (sv_processes sv)) (- 1) 0
               (UpdateState env (pt_next (sv_processes sv)) PROCESS_STATE_STOPPED '''' 0
                 (on_processes (\<lambda>t. snd (PT_Create (spawn_info env (l_lord_id l) req) t)) sv))"
      "sr_tenant_id req \<noteq> ''''" "sr_exec_path req \<noteq> ''''" "validateResources (sr_resources req) = None"
      "\<exists>sess. sv_sessions sv (l_lord_id l) = Some sess \<and> err = Errorf ''send spawn timeout'' \<and>
         outbox_send5 (ge_room env) (Ev_Spawn (buildSpawnRequest (spawn_info env (l_lord_id l) req) req)) sess = None"
  | (spawned) l sv1 where "sr_tenant_id req \<noteq> ''''" "sr_exec_path req \<noteq> ''''"
      "validateResources (sr_resources req) = None"
      "Lords_Pick (sv_lords sv) (ge_lords env) (sr_prefer_lord_id req) = Some l"
      "sv1 = on_processes (\<lambda>t. snd (PT_Create (spawn_info env (l_lord_id l) req) t)) sv"
      "SendSpawn env (l_lord_id l) (buildSpawnRequest (spawn_info env (l_lord_id l) req) req) sv1 =
         (None, sv')"
      "r = Inr (info_at (sv_processes sv1) (pt_next (sv_processes sv)))"
proof (cases "sr_tenant_id req = '''' \<or> sr_exec_path req = '''' \<or>
    validateResources (sr_resources req) \<noteq> None")
  case True
  then have "\<exists>c msg. Spawn env req sv = (Inl (Status c msg), sv)"
  proof (elim disjE)
    assume "validateResources (sr_resources req) \<noteq> None"
    then obtain err where "validateResources (sr_resources req) = Some err" by blast
    then show ?thesis
      by (cases "sr_tenant_id req = ''''"; cases "sr_exec_path req = ''''") (simp_all add: Spawn_def)
  qed (cases "sr_tenant_id req = ''''"; simp add: Spawn_def)+
  moreover have "refused env req sv" using True by (auto simp: refused_def)
  ultimately show ?thesis using rejected assms by auto
next
  case valid: False
  show ?thesis
  proof (cases "Lords_Pick (sv_lords sv) (ge_lords env) (sr_prefer_lord_id req)")
    case None
    then have "\<exists>c msg. Spawn env req sv = (Inl (Status c msg), sv)"
      using valid by (simp add: Spawn_def)
    moreover have "refused env req sv" using None by (simp add: refused_def)
    ultimately show ?thesis using rejected assms by auto
  next
    case (Some l)
    let ?i = "spawn_info env (l_lord_id l) req"
    let ?sv1 = "on_processes (\<lambda>t. snd (PT_Create ?i t)) sv"
    have sv1: "on_processes (\<lambda>_. snd (PT_Create ?i (sv_processes sv))) sv = ?sv1"
      by (simp add: on_processes_def)
    show ?thesis
    proof (cases "getSession sv (l_lord_id l)")
      case (Inl err)
      then have "\<exists>c msg. Spawn env req sv = (Inl (Status c msg), sv)"
        using valid Some by (simp add: Spawn_def)
      moreover have "refused env req sv"
        using Inl Some by (simp add: refused_def getSession_def split: option.splits)
      ultimately show ?thesis using rejected assms by auto
    next
      case (Inr sess)
      obtain e sv2 where send: "SendSpawn env (l_lord_id l) (buildSpawnRequest ?i req) ?sv1 = (e, sv2)"
        by fastforce
      have res: "Spawn env req sv = (case e of
          Some err \<Rightarrow> (Inl (Status Internal (''send spawn: '' @ error_text err)),
            UpdateResult env (pt_next (sv_processes sv)) (- 1) 0
              (UpdateState env (pt_next (sv_processes sv)) PROCESS_STATE_STOPPED '''' 0 sv2))
        | None \<Rightarrow> (Inr (sv_info sv2 (pt_next (sv_processes sv))), sv2))"
        using valid Some Inr send
        by (simp add: Spawn_def Let_def case_prod_beta PT_Create_simps(1) sv1 split: option.split)
      show ?thesis
      proof (cases e)
        case (Some err)
        then have "sv2 = ?sv1" using send SendSpawn_error by blast
        then have "(r, sv') = (Inl (Status Internal (''send spawn: '' @ error_text err)),
            UpdateResult env (pt_next (sv_processes sv)) (- 1) 0
              (UpdateState env (pt_next (sv_processes sv)) PROCESS_STATE_STOPPED '''' 0 ?sv1))"
          using res Some unfolding assms by simp
        moreover have "sv_sessions ?sv1 = sv_sessions sv" by simp
        moreover from this have "\<exists>sess. sv_sessions sv (l_lord_id l) = Some sess \<and>
            err = Errorf ''send spawn timeout'' \<and>
            outbox_send5 (ge_room env) (Ev_Spawn (buildSpawnRequest ?i req)) sess = None"
          using send Some Inr
          by (cases rule: SendSpawn_cases [OF send]) (auto simp: getSession_def split: option.splits)
        ultimately show ?thesis
          using \<open>Lords_Pick _ _ _ = Some l\<close> valid by (intro failed [of l err]) simp_all
      next
        case None
        moreover have "sv_processes sv2 = sv_processes ?sv1"
          using send SendSpawn_frame(1) [of env "l_lord_id l" "buildSpawnRequest ?i req" ?sv1] by simp
        moreover have "(r, sv') = (Inr (sv_info sv2 (pt_next (sv_processes sv))), sv2)"
          using res None unfolding assms by simp
        ultimately show ?thesis
          using send valid Some None by (intro spawned [of l ?sv1]) (simp_all add: sv_info_def)
      qed
    qed
  qed
qed

lemma spawn_info_simps [simp]:
  "pi_process_id (spawn_info env l req) = ge_id env" "pi_lord_id (spawn_info env l req) = l"
  "pi_tenant_id (spawn_info env l req) = sr_tenant_id req"
  "pi_state (spawn_info env l req) = PROCESS_STATE_READY"
  "pi_max_restarts (spawn_info env l req) \<noteq> 0"
  "pi_state_dump_path (spawn_info env l req) = sr_state_dump_path_hint req"
  by (simp_all add: spawn_info_def)

lemma sv_inv_create:
  assumes "sv_inv sv" "PT_Get (sv_processes sv) (pi_process_id info) = None"
    "fresh_info info"
  shows "sv_inv (on_processes (\<lambda>t. snd (PT_Create info t)) sv)"
proof (rule sv_inv_on_processes [OF assms(1)])
  note tbl = sv_invD(1) [OF assms(1)]
  show "tbl_inv (snd (PT_Create info (sv_processes sv)))"
    by (rule tbl_inv_Create [OF tbl assms(3)])
  show "live (snd (PT_Create info (sv_processes sv))) a" if "live (sv_processes sv) a" for a
    using that by (simp add: live_Create [OF tbl_invD(1) [OF tbl] assms(2)])
qed

lemma spawn_info_fresh:
  assumes "ge_id env \<noteq> ''''" "sr_tenant_id req \<noteq> ''''" "sr_exec_path req \<noteq> ''''"
    "validateResources (sr_resources req) = None"
  shows "fresh_info (spawn_info env l req)"
  using assms
  by (simp add: fresh_info_def valid_order_def spawn_info_def zero_process_info_def validateResources_None)

lemma sv_inv_Spawn:
  assumes "sv_inv sv" "PT_Get (sv_processes sv) (ge_id env) = None" "ge_id env \<noteq> ''''"
  shows "sv_inv (snd (Spawn env req sv))"
proof (cases "Spawn env req sv")
  case (Pair r sv')
  have cr: "sv_inv (on_processes (\<lambda>t. snd (PT_Create (spawn_info env l req) t)) sv)"
    if "sr_tenant_id req \<noteq> ''''" "sr_exec_path req \<noteq> ''''" "validateResources (sr_resources req) = None" for l
    using assms spawn_info_fresh [OF assms(3) that] by (intro sv_inv_create) simp_all
  have lv: "live (snd (PT_Create (spawn_info env l req) (sv_processes sv))) (pt_next (sv_processes sv))"
    for l
    using assms by (simp add: live_Create sv_invD(1) tbl_invD)
  from Pair have "sv_inv sv'"
  proof (cases rule: Spawn_cases)
    case (failed l err)
    then show ?thesis
      using cr [of "l_lord_id l"] lv [of "l_lord_id l"]
      by (auto intro!: sv_inv_UpdateResult sv_inv_UpdateState)
  next
    case (spawned l sv1)
    then show ?thesis using cr [of "l_lord_id l"] sv_inv_SendSpawn by (metis snd_conv)
  qed (use assms in simp)
  then show ?thesis using Pair by simp
qed

lemma sv_inv_Kill: "sv_inv sv \<Longrightarrow> sv_inv (snd (Kill env req sv))"
  using sv_inv_SendKill
  by (auto simp: Kill_def Let_def split: option.split prod.split) (metis snd_conv)+

lemma sv_inv_new_chan: "sv_inv (sv\<lparr>sv_nextChan := n\<rparr>) = sv_inv sv"
  "sv_inv (sv\<lparr>sv_acks := m\<rparr>) = sv_inv sv"
  by (simp_all add: sv_inv_def pending_def)

lemma sv_inv_WriteStdin_send: "sv_inv sv \<Longrightarrow> sv_inv (snd (WriteStdin_send env req sv))"
  using sv_invD(3) [of sv]
  by (auto simp: WriteStdin_send_def Let_def registerWriteStdinWaiter_def getSession_def
      unregisterWriteStdinWaiter_def put_waiter_def del_waiter_def sv_inv_def put_session_def pending_def
      split: option.split sum.split intro: outbox_send5_ok)

lemma sv_inv_WriteStdin_wait:
  "sv_inv sv \<Longrightarrow> WriteStdin_wait wake p ch sv = Some (r, sv') \<Longrightarrow> sv_inv sv'"
  by (auto simp: WriteStdin_wait_def unregisterWriteStdinWaiter_def sv_inv_new_chan
      split: stdin_wake.splits option.splits intro!: sv_inv_del_waiter)

lemma sv_inv_deliver: "sv_inv sv \<Longrightarrow> sv_inv (deliverWriteStdinAck ack sv)"
  by (auto simp: deliverWriteStdinAck_def sv_inv_new_chan split: option.split)

lemma unlogged_ioLastSent: "unlogged (\<lambda>e. e\<lparr>pe_ioLastSent := n\<rparr>)"
  by (simp add: unlogged_def keeps_identity_def pe_ok_def)

lemma sv_inv_set_ioLastSent: "sv_inv sv \<Longrightarrow> sv_inv (set_ioLastSent a n sv)"
  unfolding set_ioLastSent_def
  by (rule sv_inv_on_processes) (simp_all add: tbl_inv_unlogged unlogged_ioLastSent sv_invD)

lemma sv_inv_StreamProcessIO_step:
  "sv_inv sv \<Longrightarrow> StreamProcessIO_step wake a n sv = Some (cs, nx, sv') \<Longrightarrow> sv_inv sv'"
  by (auto simp: StreamProcessIO_step_def Let_def sv_inv_set_ioLastSent
      split: prod.splits stream_wake.splits if_splits option.splits)

lemma sv_inv_shutdown_loop: "sv_inv sv \<Longrightarrow> sv_inv (snd (shutdown_loop g c ks sv))"
proof (induction g c ks sv rule: shutdown_loop.induct)
  case (2 g c k ks sv)
  show ?case
  proof (cases "sv_sessions sv k")
    case (Some sess)
    have "sv_inv (put_session k s' sv)" if "outbox_push ev sess = Some s'" for ev s'
      using that sv_invD(3) [OF 2(4) Some] outbox.push_bounded [OF that]
      by (intro sv_inv_put_session 2(4)) (simp add: sess_ok_def)
    then show ?thesis using 2 Some by (auto split: option.split)
  qed (use 2 in simp)
qed simp

lemma sv_inv_Shutdown: "sv_inv sv \<Longrightarrow> sv_inv (snd (Shutdown c c' ks d sv))"
  using sv_inv_shutdown_loop [of sv "f64_to_i32 (duration_Seconds d)" c ks]
  by (auto simp: Shutdown_def split: prod.split option.split)

subsection \<open>Properties\<close>

text \<open>C15: a spawn that succeeds was valid, chose a placeable lord, created exactly one process, the
  one it returns (in state READY, with the documented restart default), and left the spawn event for it at the end of that
  lord's outbox.\<close>

theorem Spawn_success:
  assumes "sv_inv sv" "iter_order (lr_byID (sv_lords sv)) (ge_lords env)"
    and "Spawn env req sv = (Inr info, sv')"
  shows "\<exists>l. placeable (sv_lords sv) l \<and>
    pi_ref info = \<lparr>ref_process_id = ge_id env, ref_lord_id = l_lord_id l, ref_local_pid = 0\<rparr> \<and>
    pi_tenant_id info = sr_tenant_id req \<and> pi_exec_path info = sr_exec_path req \<and>
    pi_argv info = sr_argv req \<and> pi_resources info = sr_resources req \<and>
    pi_state info = PROCESS_STATE_READY \<and> pi_restart_count info = 0 \<and>
    pi_max_restarts info = (if sr_max_restarts req = 0 then 10 else sr_max_restarts req) \<and>
    sr_tenant_id req \<noteq> '''' \<and> sr_exec_path req \<noteq> '''' \<and> resources_valid (sr_resources req) \<and>
    dir (sv_processes sv') = (dir (sv_processes sv))(ge_id env \<mapsto> info) \<and>
    (\<exists>s evs. sv_sessions sv' (l_lord_id l) = Some s \<and>
       ls_outbox s = evs @ [Ev_Spawn (buildSpawnRequest info req)])"
  using assms(3)
proof (cases rule: Spawn_cases)
  case (spawned l sv1)
  note pt = tbl_invD(1) [OF sv_invD(1) [OF assms(1)]]
  have info: "info = spawn_info env (l_lord_id l) req"
    using spawned(5,7) by (simp add: info_at_Create [OF pt])
  have "sv_processes sv' = sv_processes sv1"
    using spawned(6) by (metis SendSpawn_frame(1) snd_conv)
  then have "dir (sv_processes sv') = (dir (sv_processes sv))(ge_id env \<mapsto> info)"
    by (simp add: spawned(5) dir_Create [OF pt] info)
  moreover have "placeable (sv_lords sv) l"
    using Lords_Pick_sound [OF sv_invD(2) [OF assms(1)] assms(2) spawned(4)] .
  moreover have "\<exists>s evs. sv_sessions sv' (l_lord_id l) = Some s \<and>
      ls_outbox s = evs @ [Ev_Spawn (buildSpawnRequest info req)]"
    using SendSpawn_sessions [OF spawned(6)] info by auto
  ultimately show ?thesis
    using info spawned(1-3)
    by (auto simp: validateResources_None spawn_info_def zero_process_info_def)
qed simp_all

text \<open>C22: a spawn that fails was refused by a guard (the tenant or the executable is missing, the
  resources are out of range, no lord is placeable, or the chosen one is not connected) and has then changed
  nothing; or every guard let it pass, and the outbox of the chosen lord was full and stayed full until
  the send timed out: then the process exists, stopped, with exit code -1 and its waiters released,
  and no lord was told of it.\<close>

theorem Spawn_failure:
  assumes "sv_inv sv" "PT_Get (sv_processes sv) (ge_id env) = None"
    and "Spawn env req sv = (Inl err, sv')"
  shows "if sr_tenant_id req = '''' \<or> sr_exec_path req = '''' \<or> validateResources (sr_resources req) \<noteq> None
    then (\<exists>msg. err = Status InvalidArgument msg) \<and> sv' = sv
    else case Lords_Pick (sv_lords sv) (ge_lords env) (sr_prefer_lord_id req) of
      None \<Rightarrow> err = Status Unavailable ''no healthy lord available'' \<and> sv' = sv
    | Some l \<Rightarrow> (case sv_sessions sv (l_lord_id l) of
        None \<Rightarrow> (\<exists>msg. err = Status Unavailable msg) \<and> sv' = sv
      | Some sess \<Rightarrow> length (ls_outbox sess) = 1024 \<and> ge_room env = Stays_full \<and>
          err = Status Internal ''send spawn: send spawn timeout'' \<and>
          (\<exists>a i. PT_Get (sv_processes sv') (ge_id env) = Some a \<and>
             dir (sv_processes sv') = (dir (sv_processes sv))(ge_id env \<mapsto> i) \<and>
             pi_state i = PROCESS_STATE_STOPPED \<and> pi_exit_code i = - 1 \<and>
             pe_exited (entry_at (sv_processes sv') a) \<and> sv_sessions sv' = sv_sessions sv))"
  using assms(3)
proof (cases rule: Spawn_cases)
  case (failed l e)
  note pt = tbl_invD(1) [OF sv_invD(1) [OF assms(1)]]
  let ?a = "pt_next (sv_processes sv)" and ?i = "spawn_info env (l_lord_id l) req"
  let ?t1 = "snd (PT_Create ?i (sv_processes sv))"
  let ?t2 = "PE_UpdateState (ge_now env) ?a PROCESS_STATE_STOPPED '''' 0 ?t1"
  have inv: "pt_inv ?t1" "pt_inv ?t2" by (intro inv_intros pt)+
  have get: "PT_Get ?t1 (ge_id env) = Some ?a" "PT_Get ?t2 (ge_id env) = Some ?a"
    by (simp_all add: PT_Get_def PT_Create_simps)
  have tab: "sv_processes sv' = PE_UpdateResult (ge_now env) ?a (- 1) 0 ?t2"
    by (simp add: failed(3))
  have h: "pt_heap ?t1 ?a \<noteq> None" by (simp add: PT_Create_simps)
  have "pe_exited (entry_at (sv_processes sv') ?a)"
    using exited_UpdateState_final [OF h, of PROCESS_STATE_STOPPED] h unfolding tab PE_UpdateResult_def
    by (subst entry_at_modify) (auto simp: PE_UpdateState_def heap_modify)
  moreover have "dir (sv_processes sv') = (dir (sv_processes sv))(ge_id env \<mapsto>
      set_result (ge_now env) (- 1) 0 (info_at ?t2 ?a))"
    unfolding tab dir_UpdateResult [OF inv(2) get(2)] dir_UpdateState [OF inv(1) get(1)]
      dir_Create [OF pt] by simp
  moreover have "pi_state (set_result (ge_now env) (- 1) 0 (info_at ?t2 ?a)) = PROCESS_STATE_STOPPED"
    using entry_at_UpdateState [OF h] by (simp add: info_at_def)
  moreover have "PT_Get (sv_processes sv') (ge_id env) = Some ?a"
    unfolding tab using get(2) by (simp add: PT_Get_def)
  moreover have "sv_sessions sv' = sv_sessions sv" by (simp add: failed(3))
  ultimately have stopped: "\<exists>a i. PT_Get (sv_processes sv') (ge_id env) = Some a \<and>
      dir (sv_processes sv') = (dir (sv_processes sv))(ge_id env \<mapsto> i) \<and>
      pi_state i = PROCESS_STATE_STOPPED \<and> pi_exit_code i = - 1 \<and>
      pe_exited (entry_at (sv_processes sv') a) \<and> sv_sessions sv' = sv_sessions sv"
    by (intro exI [of _ ?a]) auto
  obtain sess where sess: "sv_sessions sv (l_lord_id l) = Some sess" "e = Errorf ''send spawn timeout''"
    "length (ls_outbox sess) = 1024" "ge_room env = Stays_full"
    using failed(7) outbox_send5_None sv_invD(3) [OF assms(1)] by (auto simp: sess_ok_def outbox_cap_def)
  then show ?thesis using stopped failed(1,2,4-6) by simp
next
  case (rejected c msg)
  then show ?thesis
    using assms(3)
    by (auto simp: refused_def Spawn_def getSession_def split: option.splits if_splits)
qed simp

text \<open>A kill never touches the tables; when it is acknowledged, the signal (15 unless given, 9
  when forced) is at the end of the outbox of the lord that runs the process, and when it is not,
  nothing has changed.\<close>

theorem Kill_effect:
  assumes "Kill env req sv = (r, sv')"
  shows "sv_processes sv' = sv_processes sv \<and> sv_lords sv' = sv_lords sv \<and>
    (case r of
       Inl _ \<Rightarrow> sv' = sv
     | Inr resp \<Rightarrow> \<exists>i s evs. dir (sv_processes sv) (kr_process_id req) = Some i \<and>
         sv_sessions sv' (pi_lord_id i) = Some s \<and>
         ls_outbox s = evs @ [Ev_Kill \<lparr>kr_process_id = kr_process_id req,
           kr_signal_number = kill_signal req, kr_force = kr_force req\<rparr>] \<and>
         kp_current_state resp = pi_state i)"
proof (cases "PT_Get (sv_processes sv) (kr_process_id req)")
  case None
  then show ?thesis using assms by (auto simp: Kill_def)
next
  case (Some a)
  let ?l = "pi_lord_id (sv_info sv a)"
  let ?req = "\<lparr>kr_process_id = kr_process_id req, kr_signal_number = kill_signal req,
      kr_force = kr_force req\<rparr>"
  obtain e sv1 where send: "SendKill env ?l ?req sv = (e, sv1)" by fastforce
  have fr: "sv_processes sv1 = sv_processes sv" "sv_lords sv1 = sv_lords sv"
    using SendKill_frame [of env ?l ?req sv] send by simp_all
  show ?thesis
  proof (cases "?l = ''''")
    case True
    then show ?thesis using assms Some by (auto simp: Kill_def)
  next
    case False
    show ?thesis
    proof (cases e)
      case None
      then have "r = Inr \<lparr>kp_acknowledged = True, kp_current_state = pi_state (sv_info sv1 a)\<rparr>"
        "sv' = sv1"
        using assms Some False send by (auto simp: Kill_def)
      then show ?thesis
        using SendKill_sessions [OF send [unfolded None]] fr Some
        by (auto simp: dir_Get sv_info_def)
    next
      case (Some err)
      then have "sv1 = sv" using send SendKill_error by blast
      then show ?thesis using assms \<open>PT_Get _ _ = Some a\<close> False send Some by (auto simp: Kill_def)
    qed
  qed
qed

text \<open>C36: waiting on a process that is over never blocks, and it returns its final info and nothing else,
  whatever the timeout; only when the caller has gone as well may it get the error of its context instead.\<close>

theorem Wait_returns_when_final:
  assumes "sv_inv sv" "dir (sv_processes sv) (wr_process_id req) = Some i"
    and "final_state (pi_state i)"
  shows "set (Wait_ready sv req ctx elapsed) = insert (Inr i) (case ctx of None \<Rightarrow> {} | Some err \<Rightarrow> {Inl err})"
proof -
  note tbl = sv_invD(1) [OF assms(1)]
  obtain a where a: "PT_Get (sv_processes sv) (wr_process_id req) = Some a"
    "i = info_at (sv_processes sv) a"
    using assms(2) by (auto simp: dir_def PT_Get_def)
  have "pt_heap (sv_processes sv) a \<noteq> None"
    using live_heap [OF tbl_invD(1) [OF tbl] live_Get [OF a(1)]] .
  then have "pe_exited (entry_at (sv_processes sv) a)"
    using tbl_invD(2) [OF tbl] assms(3) a(2) by (auto simp: exit_inv_def info_at_def)
  then show ?thesis using a by (auto simp: Wait_ready_def Let_def sv_info_def split: option.split)
qed

text \<open>A wait without a positive timeout has none: although the code computes a default of 600
  seconds, it never returns while the process runs and the caller stays connected.\<close>

theorem Wait_without_timeout_blocks:
  assumes "PT_Get (sv_processes sv) (wr_process_id req) = Some a"
    and "\<not> pe_exited (entry_at (sv_processes sv) a)"
    and "sint (wr_timeout_sec req) \<le> 0"
  shows "Wait_ready sv req None elapsed = []"
  using assms by (simp add: Wait_ready_def Let_def)

text \<open>A listing holds at most 500 processes and at most the requested number, and only
  processes of the tenant that asked.\<close>

theorem ListProcesses_bounded:
  assumes "sv_inv sv" "ListProcesses env sv req = Inr ps"
    and "pt_byTenant (sv_processes sv) (lp_tenant_id req) = Some m" "iter_order m (ge_tenant env)"
  shows "length ps \<le> 500 \<and> (0 < sint (lp_limit req) \<longrightarrow> length ps \<le> nat (sint (lp_limit req))) \<and>
    (\<forall>p\<in>set ps. pi_tenant_id p = lp_tenant_id req)"
proof -
  note pt = tbl_invD(1) [OF sv_invD(1) [OF assms(1)]]
  let ?es = "PT_ListByTenant (sv_processes sv) (ge_tenant env) (lp_tenant_id req) (lp_only_running req)"
  define lim where "lim = (if sint (lp_limit req) \<le> 0 \<or> 500 < sint (lp_limit req) then 500
      else nat (sint (lp_limit req)))"
  have ps: "ps = take lim (map (sv_info sv) ?es)"
    using assms(2) unfolding lim_def
    by (auto simp: ListProcesses_def Let_def split: if_splits)
  have "length ps \<le> lim" by (simp add: ps)
  moreover have "pi_tenant_id p = lp_tenant_id req" if p: "p \<in> set ps" for p
  proof -
    obtain a where "a \<in> set ?es" "p = sv_info sv a" using p by (auto simp: ps dest!: in_set_takeD)
    then show ?thesis
      using pt_inv_byTenant(3) [OF pt] unfolding set_ListByTenant [OF assms(3,4)]
      by (auto simp: sv_info_def)
  qed
  ultimately show ?thesis by (auto simp: lim_def split: if_splits)
qed

text \<open>A stdin write gets its own ack: after a write alone on its process, the first ack for that
  process is what the call returns, and afterwards nobody waits for the process.\<close>

theorem WriteStdin_roundtrip:
  assumes "sv_acks sv (sv_nextChan sv) = None"
    and "WriteStdin_send env req sv = (Waiting ch, sv1)"
    and "wa_process_id ack = ws_process_id req"
  shows "\<exists>sv2. WriteStdin_wait Got_ack (ws_process_id req) ch (deliverWriteStdinAck ack sv1) =
    Some (Inr \<lparr>wp_bytes_written = wa_bytes_written ack, wp_closed = wa_closed ack\<rparr>, sv2) \<and>
    sv_waiters sv2 (ws_process_id req) = None"
proof -
  have "sv_waiters sv1 (ws_process_id req) = Some ch" "sv_acks sv1 ch = None"
    using assms(1,2)
    by (auto simp: WriteStdin_send_def Let_def registerWriteStdinWaiter_def put_waiter_def
        put_session_def split: option.splits if_splits sum.splits)
  then show ?thesis
    by (simp add: deliverWriteStdinAck_def assms(3) WriteStdin_wait_def
        unregisterWriteStdinWaiter_def del_waiter_def)
qed

text \<open>Two writes at a time on one process disturb each other: the second takes over the only
  waiter, and when the first times out it removes the second's, so that every later ack for the
  process is dropped.\<close>

theorem WriteStdin_concurrent_ack_lost:
  assumes "WriteStdin_send env req sv = (Waiting ch1, sv1)"
    and "WriteStdin_send env' req sv1 = (Waiting ch2, sv2)"
    and "WriteStdin_wait Ack_timeout (ws_process_id req) ch1 sv2 = Some (r, sv3)"
    and "wa_process_id ack = ws_process_id req"
  shows "ch1 \<noteq> ch2 \<and> sv_waiters sv2 (ws_process_id req) = Some ch2 \<and>
    r = Inr closed_response \<and> deliverWriteStdinAck ack sv3 = sv3"
proof -
  have "ch1 = sv_nextChan sv" "sv_nextChan sv1 = sv_nextChan sv + 1"
    using assms(1)
    by (auto simp: WriteStdin_send_def Let_def registerWriteStdinWaiter_def put_waiter_def
        put_session_def split: option.splits if_splits sum.splits)
  moreover have "ch2 = sv_nextChan sv1" "sv_waiters sv2 (ws_process_id req) = Some ch2"
    using assms(2)
    by (auto simp: WriteStdin_send_def Let_def registerWriteStdinWaiter_def put_waiter_def
        put_session_def split: option.splits if_splits sum.splits)
  ultimately show ?thesis
    using assms(3,4)
    by (auto simp: WriteStdin_wait_def unregisterWriteStdinWaiter_def del_waiter_def
        deliverWriteStdinAck_def)
qed

text \<open>A server with one connected lord and one process on it, for the witnesses.\<close>

definition demo_env :: go_env where
  "demo_env = \<lparr>ge_now = 50, ge_id = ''p9'', ge_lords = [''a'', ''b''], ge_procs = [''p2'', ''p1''],
     ge_tenant = [''p1''], ge_pids = [], ge_room = Stays_full, ge_bpf = demo_bpf_env\<rparr>"

definition demo_server :: server where
  "demo_server = put_session ''L1'' (newLordSession ''L1'')
     (put_session ''a'' (newLordSession ''a'') (put_session ''b'' (newLordSession ''b'')
       (NewServer demo_table demo_registry)))"

lemma exit_demo_table: "exit_inv demo_table"
proof -
  have "exit_inv (PT_AttachWAL [L_header] NewProcessTable)" by (intro inv_intros)
  then show ?thesis
    unfolding demo_table_def
    by (intro exit_inv_UpdateState exit_inv_Create) (simp_all add: demo_info_def)
qed

lemma fresh_demo_table: "log_fresh demo_table"
  by (simp add: log_fresh_def demo_table_log demo_log_def fresh_info_def demo_info_def
      valid_order_def resources_valid_def zero_process_info_def)

lemma demo_server_inv: "sv_inv demo_server"
proof (rule sv_invI)
  show "tbl_inv (sv_processes demo_server)"
    by (simp add: demo_server_def NewServer_def tbl_inv_def demo_table_inv demo_table_wal
        exit_demo_table fresh_demo_table)
  show "lr_inv (sv_lords demo_server)"
    by (simp add: demo_server_def NewServer_def demo_registry_inv)
qed (auto simp: demo_server_def NewServer_def sess_ok_def newLordSession_def pending_def
    split: if_splits)

lemma demo_server_tables:
  "sv_processes demo_server = demo_table" "sv_lords demo_server = demo_registry"
  by (simp_all add: demo_server_def NewServer_def)

lemma demo_table_Get: "PT_Get demo_table ''p1'' = Some 0" "PT_Get demo_table ''p2'' = Some 1"
  "PT_Get demo_table ''p9'' = None"
  by (simp_all add: PT_Get_def demo_table_def PE_UpdateState_def PT_Create_simps PT_AttachWAL_def
      NewProcessTable_def demo_info_def)

lemma demo_info_0: "pi_lord_id (info_at demo_table 0) = ''L1''"
  "pi_state (info_at demo_table 0) = PROCESS_STATE_RUNNING" "pe_exited (entry_at demo_table 0) = False"
  by (simp_all add: demo_table_def PE_UpdateState_def info_at_def entry_at_def heap_modify
      PT_Create_simps PT_AttachWAL_def NewProcessTable_def new_entry_def)

definition demo_spawn :: spawn_request where
  "demo_spawn = zero_spawn_request\<lparr>sr_tenant_id := ''t1'', sr_exec_path := ''/bin/ls'',
     sr_prefer_lord_id := ''a'', sr_state_dump_path_hint := ''/s/a.json''\<rparr>"

lemma demo_pick: "Lords_Pick demo_registry ks ''a'' = Some (demo_lord ''a'' 80)"
  by (simp add: Lords_Pick_def demo_registry_def Lords_Register_def hasCapacity_def demo_lord_def
      NewLordRegistry_def)

lemma demo_Spawn:
  "\<exists>info sv'. Spawn demo_env demo_spawn demo_server = (Inr info, sv')"
proof -
  have "l_lord_id (demo_lord ''a'' 80) = ''a''" by (simp add: demo_lord_def)
  moreover have "sv_sessions demo_server ''a'' = Some (newLordSession ''a'')"
    by (simp add: demo_server_def)
  ultimately show ?thesis
    by (simp add: Spawn_def demo_server_tables demo_pick demo_spawn_def zero_spawn_request_def
        validateResources_def getSession_def Let_def case_prod_beta SendSpawn_def on_processes_def
        outbox_send5_room newLordSession_def outbox_cap_def)
qed

theorem Spawn_success_witness:
  "\<exists>info sv'. Spawn demo_env demo_spawn demo_server = (Inr info, sv') \<and>
     dir (sv_processes sv') = (dir demo_table)(''p9'' \<mapsto> info)"
proof -
  obtain info sv' where sp: "Spawn demo_env demo_spawn demo_server = (Inr info, sv')"
    using demo_Spawn by blast
  have "iter_order (lr_byID (sv_lords demo_server)) (ge_lords demo_env)"
    using demo_registry_order by (simp add: demo_server_tables demo_env_def)
  from Spawn_success [OF demo_server_inv this sp] show ?thesis
    using sp by (auto simp: demo_server_tables demo_env_def)
qed

text \<open>The outbox of the chosen lord is full and stays full.\<close>

definition full_server :: server where
  "full_server = put_session ''a'' ((newLordSession ''a'')
     \<lparr>ls_outbox := replicate 1024 (Ev_HeartbeatAck True 10)\<rparr>) demo_server"

theorem Spawn_failure_witness:
  "\<exists>err sv' i. Spawn demo_env demo_spawn full_server = (Inl err, sv') \<and>
     dir (sv_processes sv') ''p9'' = Some i \<and> pi_exit_code i = - 1"
proof -
  have inv: "sv_inv full_server" unfolding full_server_def
    by (intro sv_inv_put_session demo_server_inv) (simp add: sess_ok_def newLordSession_def outbox_cap_def)
  have tab: "sv_processes full_server = demo_table" "sv_lords full_server = demo_registry"
    by (simp_all add: full_server_def demo_server_tables)
  have "l_lord_id (demo_lord ''a'' 80) = ''a''" by (simp add: demo_lord_def)
  moreover have sess: "sv_sessions full_server ''a'' = Some ((newLordSession ''a'')
     \<lparr>ls_outbox := replicate 1024 (Ev_HeartbeatAck True 10)\<rparr>)"
    by (simp add: full_server_def)
  ultimately obtain err sv' where sp: "Spawn demo_env demo_spawn full_server = (Inl err, sv')"
    by (simp add: Spawn_def tab demo_pick demo_spawn_def zero_spawn_request_def
        validateResources_def getSession_def Let_def case_prod_beta SendSpawn_def
        outbox_send5_def outbox_push_def outbox_cap_def newLordSession_def demo_env_def
        PE_UpdateResult_def PE_UpdateState_def PT_Create_simps)
  have req: "sr_tenant_id demo_spawn \<noteq> ''''" "sr_exec_path demo_spawn \<noteq> ''''"
    "validateResources (sr_resources demo_spawn) = None"
    by (simp_all add: demo_spawn_def zero_spawn_request_def validateResources_def)
  have pick: "Lords_Pick (sv_lords full_server) (ge_lords demo_env) (sr_prefer_lord_id demo_spawn) =
      Some (demo_lord ''a'' 80)" "l_lord_id (demo_lord ''a'' 80) = ''a''"
    using demo_pick by (simp_all add: tab demo_spawn_def demo_lord_def)
  have get: "PT_Get (sv_processes full_server) (ge_id demo_env) = None" "ge_id demo_env = ''p9''"
    using demo_table_Get by (simp_all add: tab demo_env_def)
  from Spawn_failure [OF inv get(1) sp] show ?thesis
    using sp get(2) by (auto simp: req pick sess)
qed

theorem Wait_returns_when_final_witness:
  "set (Wait_ready (UpdateState demo_env 0 PROCESS_STATE_EXITED '''' 0 demo_server)
       \<lparr>wr_process_id = ''p1'', wr_timeout_sec = 5\<rparr> None 0) =
     {Inr (info_at (sv_processes (UpdateState demo_env 0 PROCESS_STATE_EXITED '''' 0 demo_server)) 0)}"
proof -
  have l: "live (sv_processes demo_server) 0"
    using demo_table_Get by (auto simp: live_def demo_server_tables)
  have inv: "sv_inv (UpdateState demo_env 0 PROCESS_STATE_EXITED '''' 0 demo_server)"
    by (intro sv_inv_UpdateState demo_server_inv l)
  have h: "pt_heap demo_table 0 \<noteq> None"
    using live_heap [OF demo_table_inv] l by (simp add: demo_server_tables)
  let ?sv = "UpdateState demo_env 0 PROCESS_STATE_EXITED '''' 0 demo_server"
  have "dir (sv_processes ?sv) (wr_process_id \<lparr>wr_process_id = ''p1'', wr_timeout_sec = 5\<rparr>) =
      Some (info_at (sv_processes ?sv) 0)" "final_state (pi_state (info_at (sv_processes ?sv) 0))"
    using demo_table_Get(1) entry_at_UpdateState [OF h]
    by (auto simp: demo_server_tables dir_def PT_Get_def info_at_def)
  from Wait_returns_when_final [OF inv this, of None 0] show ?thesis by simp
qed

theorem Wait_without_timeout_blocks_witness:
  "Wait_ready demo_server \<lparr>wr_process_id = ''p1'', wr_timeout_sec = 0\<rparr> None (10 ^ 15) = []"
  by (rule Wait_without_timeout_blocks [where a = 0])
    (simp_all add: demo_server_tables demo_table_Get demo_info_0)

theorem Kill_effect_witness:
  "sv_processes (snd (Kill demo_env \<lparr>kr_process_id = ''p1'', kr_signal_number = 0, kr_force = False\<rparr>
     demo_server)) = demo_table \<and>
   kill_signal \<lparr>kr_process_id = ''p1'', kr_signal_number = 0, kr_force = False\<rparr> = 15"
proof -
  obtain r sv' where k: "Kill demo_env \<lparr>kr_process_id = ''p1'', kr_signal_number = 0,
      kr_force = False\<rparr> demo_server = (r, sv')" by fastforce
  from Kill_effect [OF k] show ?thesis
    by (simp add: k demo_server_tables kill_signal_def)
qed

definition demo_list :: list_processes_request where
  "demo_list = \<lparr>lp_tenant_id = ''t1'', lp_only_running = False, lp_limit = 1\<rparr>"

theorem ListProcesses_bounded_witness:
  "\<exists>ps. ListProcesses demo_env demo_server demo_list = Inr ps \<and> length ps \<le> 1"
proof -
  obtain ps where l: "ListProcesses demo_env demo_server demo_list = Inr ps"
    by (simp add: ListProcesses_def demo_list_def Let_def)
  have m: "pt_byTenant (sv_processes demo_server) (lp_tenant_id demo_list) = Some [''p1'' \<mapsto> 0]"
    by (simp add: demo_server_tables demo_list_def demo_table_def PE_UpdateState_def PT_Create_simps
        PT_AttachWAL_def NewProcessTable_def demo_info_def)
  have ord: "iter_order [''p1'' \<mapsto> 0::nat] (ge_tenant demo_env)"
    by (simp add: iter_order_def demo_env_def)
  from ListProcesses_bounded [OF demo_server_inv l m ord] show ?thesis
    using l by (simp add: demo_list_def)
qed

definition demo_write :: write_stdin_request where
  "demo_write = \<lparr>ws_lord_id = '''', ws_process_id = ''p1'', ws_data = [104, 105], ws_eof = False\<rparr>"

lemma demo_WriteStdin:
  "sv_acks sv (sv_nextChan sv) = None \<and> sv_processes sv = demo_table \<and>
     (\<exists>s. sv_sessions sv ''L1'' = Some s \<and> length (ls_outbox s) < 1024) \<Longrightarrow>
   \<exists>sv1. WriteStdin_send demo_env demo_write sv = (Waiting (sv_nextChan sv), sv1) \<and>
     sv_processes sv1 = demo_table \<and>
     (\<exists>s. sv_sessions sv1 ''L1'' = Some s \<and>
          length (ls_outbox s) = Suc (length (ls_outbox (the (sv_sessions sv ''L1'')))))"
  by (auto simp: WriteStdin_send_def demo_write_def demo_table_Get sv_info_def demo_info_0 Let_def
      registerWriteStdinWaiter_def put_waiter_def getSession_def outbox_send5_room outbox_cap_def)

lemma demo_server_session: "sv_sessions demo_server ''L1'' = Some (newLordSession ''L1'')"
  "sv_acks demo_server (sv_nextChan demo_server) = None"
  by (simp_all add: demo_server_def NewServer_def put_session_def)

theorem WriteStdin_roundtrip_witness:
  "\<exists>ch sv1 sv2. WriteStdin_send demo_env demo_write demo_server = (Waiting ch, sv1) \<and>
     WriteStdin_wait Got_ack ''p1'' ch (deliverWriteStdinAck
       \<lparr>wa_lord_id = ''L1'', wa_process_id = ''p1'', wa_bytes_written = 2, wa_closed = False\<rparr> sv1) =
     Some (Inr \<lparr>wp_bytes_written = 2, wp_closed = False\<rparr>, sv2)"
proof -
  obtain ch sv1 where w: "WriteStdin_send demo_env demo_write demo_server = (Waiting ch, sv1)"
    using demo_WriteStdin [of demo_server] demo_server_session
    by (auto simp: demo_server_tables newLordSession_def)
  from WriteStdin_roundtrip [OF demo_server_session(2) w, of
      "\<lparr>wa_lord_id = ''L1'', wa_process_id = ''p1'', wa_bytes_written = 2, wa_closed = False\<rparr>"]
  show ?thesis using w by (auto simp: demo_write_def)
qed

theorem WriteStdin_concurrent_ack_lost_witness:
  "\<exists>ch1 sv1 ch2 sv2. WriteStdin_send demo_env demo_write demo_server = (Waiting ch1, sv1) \<and>
     WriteStdin_send demo_env demo_write sv1 = (Waiting ch2, sv2) \<and> ch1 \<noteq> ch2"
proof -
  obtain ch1 sv1 where w1: "WriteStdin_send demo_env demo_write demo_server = (Waiting ch1, sv1)"
    "sv_processes sv1 = demo_table" "\<exists>s. sv_sessions sv1 ''L1'' = Some s \<and> length (ls_outbox s) = 1"
    "sv_acks sv1 (sv_nextChan sv1) = None"
  proof -
    have "\<exists>sv1. WriteStdin_send demo_env demo_write demo_server =
        (Waiting (sv_nextChan demo_server), sv1) \<and> sv_processes sv1 = demo_table \<and>
        (\<exists>s. sv_sessions sv1 ''L1'' = Some s \<and> length (ls_outbox s) = 1) \<and>
        sv_acks sv1 (sv_nextChan sv1) = None"
      by (simp add: WriteStdin_send_def demo_write_def demo_server_tables demo_table_Get sv_info_def
          demo_info_0 Let_def registerWriteStdinWaiter_def put_waiter_def getSession_def
          demo_server_session outbox_send5_room outbox_cap_def newLordSession_def put_session_def)
        (simp add: demo_server_def NewServer_def put_session_def)
    then show thesis using that by blast
  qed
  then obtain sv2 where w2: "WriteStdin_send demo_env demo_write sv1 =
      (Waiting (sv_nextChan sv1), sv2)"
    using demo_WriteStdin [of sv1] by auto
  have wt: "WriteStdin_wait Ack_timeout (ws_process_id demo_write) ch1 sv2 =
      Some (Inr closed_response, unregisterWriteStdinWaiter (ws_process_id demo_write) sv2)"
    by (simp add: WriteStdin_wait_def)
  have ack: "wa_process_id \<lparr>wa_lord_id = ''L1'', wa_process_id = ws_process_id demo_write,
      wa_bytes_written = 2, wa_closed = False\<rparr> = ws_process_id demo_write" by simp
  from WriteStdin_concurrent_ack_lost [OF w1(1) w2 wt ack] show ?thesis using w1(1) w2 by blast
qed

end
