(* ===== verification/Connect.thy ===== *)
theory Connect
  imports Tenant_Api
begin

section \<open>The stream of a lord (connect.go)\<close>

text \<open>
  The life of one bidirectional stream: the first message must register the lord, then every
  message of the lord is a step, and the end of the stream removes the session and starts a
  recovery. The send side is \<open>sendLoop_step\<close> of \<open>Server_State\<close>.
\<close>

subsection \<open>Connecting\<close>

definition registered_lord :: "go_env \<Rightarrow> register_request \<Rightarrow> lord" where
  "registered_lord env reg =
     zero_lord\<lparr>l_lord_id := ge_id env, l_hostname := rr_hostname reg, l_os := rr_os reg,
       l_arch := rr_arch reg, l_cpu_cores_physical := rr_cpu_cores_physical reg,
       l_mem_total_bytes_physical := rr_mem_total_bytes_physical reg,
       l_advertised_cpu_shares := rr_advertised_cpu_shares reg,
       l_advertised_mem_bytes := rr_advertised_mem_bytes reg,
       l_healthy := True, l_last_seen := Some (ge_now env), l_reputation := 1\<rparr>"

text \<open>Moving the processes of a lord with the same host name.\<close>

definition rebind_hostname :: "go_env \<Rightarrow> string \<Rightarrow> string \<Rightarrow> server \<Rightarrow> server" where
  "rebind_hostname env hostname lordID sv =
     (if hostname = '''' then sv
      else
        let oldLordID = Lords_FindByHostname (sv_lords sv) (ge_lords env) hostname in
        if oldLordID \<noteq> '''' \<and> oldLordID \<noteq> lordID
        then on_processes (\<lambda>t. snd (PT_UpdateLordForHostname (ge_procs env) oldLordID lordID t)) sv
        else sv)"

definition push_event :: "string \<Rightarrow> lord_event \<Rightarrow> server \<Rightarrow> server" where
  "push_event lordID ev sv =
     (case sv_sessions sv lordID of
        None \<Rightarrow> sv
      | Some sess \<Rightarrow>
          (case outbox_push ev sess of
             None \<Rightarrow> sv
           | Some sess' \<Rightarrow> put_session lordID sess' sv))"

definition Connect_start ::
  "go_env \<Rightarrow> (go_error + lord_cmd) \<Rightarrow> server \<Rightarrow> (go_error + string) \<times> server" where
  "Connect_start env first sv =
     (case first of
        Inl err \<Rightarrow> (Inl (Status InvalidArgument
            (''first message must be Register: '' @ error_text err)), sv)
      | Inr (Cmd_Register reg) \<Rightarrow>
          let lordID = ge_id env;
              sv1 = put_session lordID (newLordSession lordID) sv;
              sv2 = on_lords (Lords_Register (ge_now env) (registered_lord env reg)) sv1;
              sv3 = sv2\<lparr>sv_bpf := snd (RegisterLordBPF (ge_bpf env) (rr_hostname reg)
                         (rr_advertised_cpu_shares reg) (sv_bpf sv2))\<rparr>;
              sv4 = rebind_hostname env (rr_hostname reg) lordID sv3
          in (Inr lordID, push_event lordID (Ev_RegisterAck lordID 10) sv4)
      | Inr _ \<Rightarrow> (Inl (Status InvalidArgument ''first message must be Register''), sv))"

subsection \<open>Messages of the lord\<close>

definition session_set_pid :: "i32 \<Rightarrow> string \<Rightarrow> lord_session \<Rightarrow> lord_session" where
  "session_set_pid pid processID sess = sess\<lparr>ls_procs := (ls_procs sess)(pid \<mapsto> processID)\<rparr>"

definition on_session :: "string \<Rightarrow> (lord_session \<Rightarrow> lord_session) \<Rightarrow> server \<Rightarrow> server" where
  "on_session lordID f sv =
     (case sv_sessions sv lordID of None \<Rightarrow> sv | Some sess \<Rightarrow> put_session lordID (f sess) sv)"

definition handleStarted :: "go_env \<Rightarrow> string \<Rightarrow> process_started \<Rightarrow> server \<Rightarrow> server" where
  "handleStarted env lordID started sv =
     (case PT_Get (sv_processes sv) (ps_process_id started) of
        None \<Rightarrow> sv
      | Some a \<Rightarrow>
          let sv1 = UpdateState env a PROCESS_STATE_RUNNING lordID (ps_local_pid started) sv;
              sv2 = on_session lordID
                      (session_set_pid (ps_local_pid started) (ps_process_id started)) sv1
          in (case Lords_Get (sv_lords sv2) lordID of
                None \<Rightarrow> sv2
              | Some info \<Rightarrow>
                  if l_hostname info = '''' then sv2
                  else sv2\<lparr>sv_bpf := snd (AssignTaskBPF (ge_bpf env) (ps_local_pid started)
                              (LordIDFromHostname (l_hostname info)) (sv_bpf sv2))\<rparr>))"

definition io_bytes :: "process_io \<Rightarrow> byte list" where
  "io_bytes io = (case po_chunk io of None \<Rightarrow> [] | Some c \<Rightarrow> io_data c)"

definition write_ioBuf :: "byte list \<Rightarrow> proc_entry \<Rightarrow> proc_entry" where
  "write_ioBuf p e = e\<lparr>pe_ioBuf := rb_Write (pe_ioBuf e) p\<rparr>"

definition handleIo :: "process_io \<Rightarrow> server \<Rightarrow> server" where
  "handleIo io sv =
     (case PT_Get (sv_processes sv) (po_process_id io) of
        None \<Rightarrow> sv
      | Some a \<Rightarrow> on_processes (pt_modify a (write_ioBuf (io_bytes io))) sv)"

text \<open>\<open>for pid, pid2 := range sess.procs\<close>: the first match in iteration order is deleted.\<close>

fun forget_pid :: "string \<Rightarrow> i32 list \<Rightarrow> lord_session \<Rightarrow> lord_session" where
  "forget_pid processID [] sess = sess"
| "forget_pid processID (pid # pids) sess =
     (if ls_procs sess pid = Some processID
      then sess\<lparr>ls_procs := (ls_procs sess)(pid := None)\<rparr>
      else forget_pid processID pids sess)"

definition set_usage :: "process_exit \<Rightarrow> process_info \<Rightarrow> process_info" where
  "set_usage px p =
     p\<lparr>pi_cpu_usage_usec_total := px_cpu_usage_usec px, pi_mem_peak_bytes := px_mem_peak_bytes px\<rparr>"

definition handleProcessExit :: "go_env \<Rightarrow> string \<Rightarrow> process_exit \<Rightarrow> server \<Rightarrow> server" where
  "handleProcessExit env lordID px sv =
     (case PT_Get (sv_processes sv) (px_process_id px) of
        None \<Rightarrow> sv
      | Some a \<Rightarrow>
          let sv1 = upd_info a (set_usage px) sv;
              sv2 = (if px_exit_signal px \<noteq> 0
                     then UpdateState env a PROCESS_STATE_STOPPED '''' 0 sv1
                     else UpdateState env a PROCESS_STATE_EXITED '''' 0 sv1);
              sv3 = UpdateResult env a (px_exit_code px) (px_exit_signal px) sv2
          in on_session lordID (forget_pid (px_process_id px) (ge_pids env)) sv3)"

definition recv_cmd :: "go_env \<Rightarrow> string \<Rightarrow> lord_cmd \<Rightarrow> server \<Rightarrow> server" where
  "recv_cmd env lordID cmd sv =
     (case cmd of
        Cmd_Register _ \<Rightarrow> sv
      | Cmd_Heartbeat hb \<Rightarrow>
          push_event lordID (Ev_HeartbeatAck True 10)
            (on_lords (\<lambda>r. snd (Lords_UpdateStats (ge_now env) lordID (hb_cpu_used_pct hb)
                                 (hb_mem_used_bytes hb) (hb_active_processes hb) r)) sv)
      | Cmd_Started started \<Rightarrow> handleStarted env lordID started sv
      | Cmd_Io io \<Rightarrow> handleIo io sv
      | Cmd_ProcessExit px \<Rightarrow> handleProcessExit env lordID px sv
      | Cmd_WriteStdinAck ack \<Rightarrow> deliverWriteStdinAck ack sv
      | Cmd_LazyDeath ld \<Rightarrow>
          push_event lordID (Ev_LazyDeathAck True (ld_grace_period_sec ld))
            (on_lords (Lords_SetDrain lordID) sv))"

subsection \<open>The end of the stream\<close>

definition onLordDisconnect :: "string \<Rightarrow> server \<Rightarrow> server" where
  "onLordDisconnect lordID sv = sv\<lparr>sv_recoveries := sv_recoveries sv @ [R_start lordID]\<rparr>"

definition Connect_cleanup :: "string \<Rightarrow> server \<Rightarrow> server" where
  "Connect_cleanup lordID sv =
     onLordDisconnect lordID (on_lords (Lords_MarkUnhealthy lordID) (del_session lordID sv))"

text \<open>The value \<open>Connect\<close> returns: the receive error unless the stream ended, else the send error.\<close>

definition Connect_result :: "go_error option \<Rightarrow> go_error option \<Rightarrow> go_error option" where
  "Connect_result recvErr sendErr = (case recvErr of Some err \<Rightarrow> Some err | None \<Rightarrow> sendErr)"

subsection \<open>Every step keeps the invariant\<close>

lemma sv_inv_push_event [inv_intros]: "sv_inv sv \<Longrightarrow> sv_inv (push_event lordID ev sv)"
proof -
  have "sess_ok lordID s'" if "outbox_push ev s = Some s'" "sess_ok lordID s" for s s'
    using that outbox.push_bounded [OF that(1)] by (simp add: sess_ok_def)
  then show "sv_inv sv \<Longrightarrow> sv_inv (push_event lordID ev sv)"
    unfolding push_event_def
    by (auto split: option.split intro!: sv_inv_put_session dest: sv_invD(3))
qed

lemma sv_inv_set_bpf: "sv_inv (sv\<lparr>sv_bpf := m\<rparr>) = sv_inv sv"
  by (simp add: sv_inv_def pending_def)

lemma sv_inv_on_session:
  "sv_inv sv \<Longrightarrow> (\<And>s. sess_ok lordID s \<Longrightarrow> sess_ok lordID (f s)) \<Longrightarrow> sv_inv (on_session lordID f sv)"
  unfolding on_session_def
  by (auto split: option.split intro!: sv_inv_put_session dest: sv_invD(3))

lemma sv_inv_rebind_hostname:
  "sv_inv sv \<Longrightarrow> iter_order (pt_byID (sv_processes sv)) (ge_procs env) \<Longrightarrow>
     sv_inv (rebind_hostname env h lordID sv)"
  unfolding rebind_hostname_def Let_def
  by (auto intro!: sv_inv_on_processes tbl_inv_UpdateLordForHostname dest: sv_invD(1))

lemma sv_inv_Connect_start:
  assumes "sv_inv sv" "iter_order (pt_byID (sv_processes sv)) (ge_procs env)" "ge_id env \<noteq> ''''"
  shows "sv_inv (snd (Connect_start env first sv))"
proof -
  have "sv_inv (put_session (ge_id env) (newLordSession (ge_id env)) sv)"
    by (rule sv_inv_put_session [OF assms(1)]) (simp add: sess_ok_def newLordSession_def)
  then have "sv_inv (on_lords (Lords_Register (ge_now env) (registered_lord env reg))
      (put_session (ge_id env) (newLordSession (ge_id env)) sv))" for reg
    using assms(3)
    by (intro sv_inv_on_lords lr_inv_Register) (auto simp: registered_lord_def dest: sv_invD(2))
  then show ?thesis
    using assms
    by (auto simp: Connect_start_def Let_def sv_inv_set_bpf split: sum.split lord_cmd.split
        intro!: sv_inv_push_event sv_inv_rebind_hostname)
qed

lemma sv_inv_handleStarted:
  assumes "sv_inv sv"
  shows "sv_inv (handleStarted env lordID started sv)"
proof (cases "PT_Get (sv_processes sv) (ps_process_id started)")
  case (Some a)
  have "sv_inv (on_session lordID (session_set_pid pid pr) (UpdateState env a st l p sv))"
    for pid pr st l p
    by (intro sv_inv_on_session sv_inv_UpdateState assms live_Get [OF Some])
      (simp add: sess_ok_def session_set_pid_def)
  then show ?thesis
    using Some by (simp add: handleStarted_def Let_def sv_inv_set_bpf split: option.split)
qed (simp add: handleStarted_def assms)

lemma unlogged_write_ioBuf: "unlogged (write_ioBuf p)"
  by (auto simp: unlogged_def keeps_identity_def pe_ok_def write_ioBuf_def intro: rb_inv_Write)

lemma sv_inv_handleIo: "sv_inv sv \<Longrightarrow> sv_inv (handleIo io sv)"
  unfolding handleIo_def
  by (auto split: option.split intro!: sv_inv_on_processes tbl_inv_unlogged unlogged_write_ioBuf
      dest: sv_invD(1))

lemma unlogged_set_usage: "unlogged (pe_upd_info (set_usage px))"
  by (rule unlogged_upd_info) (simp add: durable_def set_usage_def)

lemma sess_ok_forget_pid: "sess_ok k s \<Longrightarrow> sess_ok k (forget_pid p pids s)"
  by (induction p pids s rule: forget_pid.induct) (auto simp: sess_ok_def)

lemma sv_inv_handleProcessExit:
  assumes "sv_inv sv"
  shows "sv_inv (handleProcessExit env lordID px sv)"
proof (cases "PT_Get (sv_processes sv) (px_process_id px)")
  case (Some a)
  have "sv_inv (upd_info a (set_usage px) sv)"
    by (intro sv_inv_upd_info assms unlogged_set_usage)
  then have "sv_inv (on_session lordID (forget_pid p pids) (UpdateResult env a c s
      (UpdateState env a st l pid (upd_info a (set_usage px) sv))))" for p pids c s st l pid
    using live_Get [OF Some]
    by (intro sv_inv_on_session sv_inv_UpdateResult sv_inv_UpdateState) (auto intro: sess_ok_forget_pid)
  then show ?thesis using Some by (simp add: handleProcessExit_def Let_def)
qed (simp add: handleProcessExit_def assms)

lemma sv_inv_recv_cmd: "sv_inv sv \<Longrightarrow> sv_inv (recv_cmd env lordID cmd sv)"
  unfolding recv_cmd_def
  by (auto split: lord_cmd.split dest: sv_invD(2)
      intro!: sv_inv_push_event sv_inv_on_lords lr_inv_UpdateStats lr_inv_SetDrain
        sv_inv_handleStarted sv_inv_handleIo sv_inv_handleProcessExit sv_inv_deliver)

lemma sv_inv_onLordDisconnect: "sv_inv sv \<Longrightarrow> sv_inv (onLordDisconnect lordID sv)"
  by (auto simp: sv_inv_def onLordDisconnect_def pending_def)

lemma sv_inv_Connect_cleanup: "sv_inv sv \<Longrightarrow> sv_inv (Connect_cleanup lordID sv)"
  unfolding Connect_cleanup_def
  by (intro sv_inv_onLordDisconnect sv_inv_on_lords sv_inv_del_session lr_inv_MarkUnhealthy)
    (auto dest: sv_invD(2))

subsection \<open>Effects\<close>

lemma on_session_frame [frame_simps, simp]:
  "sv_processes (on_session l f sv) = sv_processes sv" "sv_lords (on_session l f sv) = sv_lords sv"
  "sv_timers (on_session l f sv) = sv_timers sv"
  "sv_recoveries (on_session l f sv) = sv_recoveries sv"
  by (simp_all add: on_session_def split: option.split)

lemma push_event_frame [frame_simps, simp]:
  "sv_processes (push_event l ev sv) = sv_processes sv" "sv_lords (push_event l ev sv) = sv_lords sv"
  "sv_timers (push_event l ev sv) = sv_timers sv"
  "sv_recoveries (push_event l ev sv) = sv_recoveries sv"
  by (simp_all add: push_event_def split: option.split)

lemma processes_handleStarted:
  "sv_processes (handleStarted env l started sv) =
     pt_state (ge_now env) (ps_process_id started) PROCESS_STATE_RUNNING l (ps_local_pid started)
       (sv_processes sv)"
  by (auto simp: handleStarted_def Let_def pt_state_def split: option.split)

lemma processes_handleProcessExit:
  "sv_processes (handleProcessExit env l px sv) =
     (case PT_Get (sv_processes sv) (px_process_id px) of
        None \<Rightarrow> sv_processes sv
      | Some a \<Rightarrow> PE_UpdateResult (ge_now env) a (px_exit_code px) (px_exit_signal px)
          (PE_UpdateState (ge_now env) a
             (if px_exit_signal px \<noteq> 0 then PROCESS_STATE_STOPPED else PROCESS_STATE_EXITED) '''' 0
             (pt_modify a (pe_upd_info (set_usage px)) (sv_processes sv))))"
  by (simp add: handleProcessExit_def Let_def split: option.split)

lemma find_hostname_loop_Cons_hit:
  "m k = Some e \<Longrightarrow> l_hostname (le_info e) = h \<Longrightarrow>
     find_hostname_loop h (go_range m (k # ks)) = k"
  by simp

lemma FindByHostname_head:
  "lr_byID r k = Some e \<Longrightarrow> l_hostname (le_info e) = h \<Longrightarrow> h \<noteq> '''' \<Longrightarrow>
     Lords_FindByHostname r (k # ks) h = k"
  by (simp add: Lords_FindByHostname_def)

lemma iter_order_front:
  assumes "finite (dom m)" "k \<in> dom m"
  obtains ks where "iter_order m (k # ks)"
proof -
  obtain ks where "distinct ks" "set ks = dom m - {k}"
    using finite_distinct_list [of "dom m - {k}"] assms(1) by auto
  then have "iter_order m (k # ks)" using assms(2) by (auto simp: iter_order_def)
  then show thesis by (rule that)
qed

subsection \<open>Properties\<close>

text \<open>C28: the report that a process has ended is final for every process it names: the state follows
  the signal, code and signal are recorded, waiters are released; nothing is re-launched and no last
  error is set. That includes the report of a spawn that the lord has refused (code -1, no signal):
  the process is EXITED like one that ended on its own, although the comment in exec.go expects the scheduler
  to respawn it or to mark it STOPPED with an error. The lord that sends the report is not
  compared with the lord of the process: a late report of a former lord ends the new incarnation.\<close>

theorem ProcessExit_effect:
  assumes "sv_inv sv" "dir (sv_processes sv) (px_process_id px) = Some i"
  shows "\<exists>a j. PT_Get (sv_processes (handleProcessExit env lordID px sv)) (px_process_id px) = Some a \<and>
    dir (sv_processes (handleProcessExit env lordID px sv)) =
      (dir (sv_processes sv))(px_process_id px \<mapsto> j) \<and>
    pi_state j = (if px_exit_signal px \<noteq> 0 then PROCESS_STATE_STOPPED else PROCESS_STATE_EXITED) \<and>
    pi_exit_code j = px_exit_code px \<and> pi_exit_signal j = px_exit_signal px \<and>
    pi_lord_id j = pi_lord_id i \<and> pi_restart_count j = pi_restart_count i \<and>
    pi_last_error j = pi_last_error i \<and>
    pe_exited (entry_at (sv_processes (handleProcessExit env lordID px sv)) a)"
proof -
  let ?t = "sv_processes sv" and ?p = "px_process_id px"
  let ?s = "if px_exit_signal px \<noteq> 0 then PROCESS_STATE_STOPPED else PROCESS_STATE_EXITED"
  note pt = tbl_invD(1) [OF sv_invD(1) [OF assms(1)]]
  obtain a where a: "PT_Get ?t ?p = Some a" "i = info_at ?t a"
    using assms(2) by (auto simp: dir_def PT_Get_def)
  let ?t1 = "pt_modify a (pe_upd_info (set_usage px)) ?t"
  let ?t2 = "PE_UpdateState (ge_now env) a ?s '''' 0 ?t1"
  let ?t3 = "PE_UpdateResult (ge_now env) a (px_exit_code px) (px_exit_signal px) ?t2"
  have t3: "sv_processes (handleProcessExit env lordID px sv) = ?t3"
    by (simp add: processes_handleProcessExit a(1))
  have h: "pt_heap ?t a \<noteq> None" using live_heap [OF pt live_Get [OF a(1)]] .
  have inv1: "pt_inv ?t1" using pt_inv_modify [OF pt] unlogged_set_usage by (auto simp: unlogged_def)
  have inv2: "pt_inv ?t2" by (rule pt_inv_UpdateState [OF inv1])
  have get: "PT_Get ?t1 ?p = Some a" "PT_Get ?t2 ?p = Some a" "PT_Get ?t3 ?p = Some a"
    using a(1) by (simp_all add: PT_Get_def)
  have h1: "pt_heap ?t1 a \<noteq> None" "pt_heap ?t2 a \<noteq> None"
    using live_heap inv1 inv2 get(1,2) live_Get by metis+
  let ?j = "set_result (ge_now env) (px_exit_code px) (px_exit_signal px) (info_at ?t2 a)"
  have i2: "info_at ?t2 a = set_state (ge_now env) ?s '''' 0 (set_usage px i)"
    using entry_at_UpdateState [OF h1(1)] h a(2) by (simp add: info_at_def entry_at_modify)
  have "dir ?t3 = (dir ?t)(?p \<mapsto> ?j)"
    unfolding dir_UpdateResult [OF inv2 get(2)] dir_UpdateState [OF inv1 get(1)]
    using dir_modify [OF pt a(1) [unfolded PT_Get_def]] by simp
  moreover have "pe_exited (entry_at ?t3 a)"
    using entry_at_UpdateState [OF h1(1)] h1(2) unfolding PE_UpdateResult_def
    by (subst entry_at_modify) auto
  moreover have "pi_lord_id ?j = pi_lord_id i" "pi_state ?j = ?s"
    using i2 by (simp_all add: set_usage_def)
  moreover have "pi_restart_count ?j = pi_restart_count i" "pi_last_error ?j = pi_last_error i"
    using i2 by (simp_all add: set_usage_def set_result_def set_state_def pi_set_local_pid_def Let_def)
  ultimately show ?thesis
    unfolding t3 using get(3) by (intro exI [of _ a] exI [of _ ?j]) simp
qed

theorem ProcessExit_effect_witness:
  "\<exists>j. dir (sv_processes (handleProcessExit demo_env ''b'' \<lparr>px_process_id = ''p1'', px_exit_code = 3,
     px_exit_signal = 0, px_cpu_usage_usec = 0, px_mem_peak_bytes = 0\<rparr> demo_server)) ''p1'' = Some j \<and>
     pi_state j = PROCESS_STATE_EXITED \<and> pi_exit_code j = 3 \<and> pi_lord_id j = ''L1''"
proof -
  have "dir (sv_processes demo_server) ''p1'' = Some (info_at demo_table 0)"
    using demo_table_Get(1) by (simp add: demo_server_tables dir_Get)
  then have "dir (sv_processes demo_server) (px_process_id \<lparr>px_process_id = ''p1'', px_exit_code = 3,
      px_exit_signal = 0, px_cpu_usage_usec = 0, px_mem_peak_bytes = 0\<rparr>) =
      Some (info_at demo_table 0)" by simp
  from ProcessExit_effect [OF demo_server_inv this, of demo_env "''b''"]
  show ?thesis using demo_info_0 by auto
qed

text \<open>The report that a process has started makes it RUNNING on the lord that sends it, with the
  local pid, even when it had ended before: then it runs with its exited channel still closed,
  so that a wait on it returns at once with a running process.\<close>

theorem Started_after_end:
  assumes "sv_inv sv" "dir (sv_processes sv) (ps_process_id started) = Some i"
    and "lordID \<noteq> ''''" "final_state (pi_state i)"
  shows "\<exists>j. dir (sv_processes (handleStarted env lordID started sv)) =
      (dir (sv_processes sv))(ps_process_id started \<mapsto> j) \<and>
    pi_state j = PROCESS_STATE_RUNNING \<and> pi_lord_id j = lordID \<and>
    Inr j \<in> set (Wait_ready (handleStarted env lordID started sv)
                   \<lparr>wr_process_id = ps_process_id started, wr_timeout_sec = 0\<rparr> None 0)"
proof -
  let ?t = "sv_processes sv" and ?p = "ps_process_id started"
  note tbl = sv_invD(1) [OF assms(1)]
  note pt = tbl_invD(1) [OF tbl]
  obtain a where a: "PT_Get ?t ?p = Some a" "i = info_at ?t a"
    using assms(2) by (auto simp: dir_def PT_Get_def)
  have h: "pt_heap ?t a \<noteq> None" using live_heap [OF pt live_Get [OF a(1)]] .
  let ?t1 = "PE_UpdateState (ge_now env) a PROCESS_STATE_RUNNING lordID (ps_local_pid started) ?t"
  have t1: "sv_processes (handleStarted env lordID started sv) = ?t1"
    by (simp add: processes_handleStarted pt_state_def a(1))
  let ?j = "set_state (ge_now env) PROCESS_STATE_RUNNING lordID (ps_local_pid started) i"
  have "pe_exited (entry_at ?t a)"
    using tbl_invD(2) [OF tbl] assms(4) a(2) h by (auto simp: exit_inv_def info_at_def)
  then have "pe_exited (entry_at ?t1 a)" "info_at ?t1 a = ?j"
    using entry_at_UpdateState [OF h] a(2) by (auto simp: info_at_def)
  moreover have "PT_Get ?t1 ?p = Some a" using a(1) by (simp add: PT_Get_def)
  ultimately have "Inr ?j \<in> set (Wait_ready (handleStarted env lordID started sv)
      \<lparr>wr_process_id = ?p, wr_timeout_sec = 0\<rparr> None 0)"
    by (simp add: Wait_ready_def t1 sv_info_def Let_def)
  moreover have "dir ?t1 = (dir ?t)(?p \<mapsto> ?j)"
    using dir_UpdateState [OF pt a(1)] a(2) by simp
  ultimately show ?thesis
    unfolding t1 using assms(3) by (intro exI [of _ ?j]) simp
qed

theorem Started_after_end_witness:
  "\<exists>j. dir (sv_processes (handleStarted demo_env ''a'' \<lparr>ps_process_id = ''p1'', ps_local_pid = 7\<rparr>
     (UpdateState demo_env 0 PROCESS_STATE_EXITED '''' 0 demo_server))) ''p1'' = Some j \<and>
     pi_state j = PROCESS_STATE_RUNNING"
proof -
  let ?sv = "UpdateState demo_env 0 PROCESS_STATE_EXITED '''' 0 demo_server"
  let ?s = "\<lparr>ps_process_id = ''p1'', ps_local_pid = 7\<rparr>"
  have l: "live (sv_processes demo_server) 0"
    using demo_table_Get by (auto simp: live_def demo_server_tables)
  have inv: "sv_inv ?sv" by (intro sv_inv_UpdateState demo_server_inv l)
  have d: "dir (sv_processes ?sv) (ps_process_id ?s) =
      Some (set_state 50 PROCESS_STATE_EXITED '''' 0 (info_at demo_table 0))"
    using dir_UpdateState [OF demo_table_inv demo_table_Get(1)]
    by (simp add: demo_server_tables demo_env_def)
  have "\<exists>j. dir (sv_processes (handleStarted demo_env ''a'' ?s ?sv)) =
      (dir (sv_processes ?sv))(ps_process_id ?s \<mapsto> j) \<and> pi_state j = PROCESS_STATE_RUNNING"
    using Started_after_end [OF inv d, of "''a''" demo_env] by auto
  then show ?thesis by auto
qed

text \<open>Rebinding after a reconnect is a matter of luck: the reconnecting lord is registered before
  the search for its host name, so among the orders in which the runtime may iterate over the
  registry there is one that finds the old lord (and moves its processes) and one that finds the
  new lord (and moves nothing).\<close>

theorem rebind_depends_on_order:
  assumes "lr_inv (sv_lords sv)" "lr_byID (sv_lords sv) new = Some e"
    and "lr_byID (sv_lords sv) old = Some e'" "old \<noteq> new" "hostname \<noteq> ''''"
    and "l_hostname (le_info e) = hostname" "l_hostname (le_info e') = hostname"
  shows "\<exists>ks ls. iter_order (lr_byID (sv_lords sv)) ks \<and> iter_order (lr_byID (sv_lords sv)) ls \<and>
    rebind_hostname (env\<lparr>ge_lords := ks\<rparr>) hostname new sv = sv \<and>
    rebind_hostname (env\<lparr>ge_lords := ls\<rparr>) hostname new sv =
      on_processes (\<lambda>t. snd (PT_UpdateLordForHostname (ge_procs env) old new t)) sv"
proof -
  have fin: "finite (dom (lr_byID (sv_lords sv)))" using assms(1) by (simp add: lr_inv_def)
  obtain ks where ks: "iter_order (lr_byID (sv_lords sv)) (new # ks)"
    using iter_order_front [OF fin, of new] assms(2) by blast
  obtain ls where ls: "iter_order (lr_byID (sv_lords sv)) (old # ls)"
    using iter_order_front [OF fin, of old] assms(3) by blast
  have "old \<noteq> ''''" using lr_inv_entry [OF assms(1,3)] by (simp add: entry_ok_def)
  then have "rebind_hostname (env\<lparr>ge_lords := new # ks\<rparr>) hostname new sv = sv"
    "rebind_hostname (env\<lparr>ge_lords := old # ls\<rparr>) hostname new sv =
      on_processes (\<lambda>t. snd (PT_UpdateLordForHostname (ge_procs env) old new t)) sv"
    using assms by (simp_all add: rebind_hostname_def FindByHostname_head Let_def)
  then show ?thesis using ks ls by blast
qed

definition same_host_server :: server where
  "same_host_server =
     on_lords (Lords_Register 5 ((demo_lord ''b'' 20)\<lparr>l_hostname := ''h''\<rparr>))
       (on_lords (Lords_Register 4 ((demo_lord ''a'' 20)\<lparr>l_hostname := ''h''\<rparr>)) demo_server)"

theorem rebind_depends_on_order_witness:
  "\<exists>ks ls. iter_order (lr_byID (sv_lords same_host_server)) ks \<and>
    iter_order (lr_byID (sv_lords same_host_server)) ls \<and>
    rebind_hostname (demo_env\<lparr>ge_lords := ks\<rparr>) ''h'' ''b'' same_host_server = same_host_server \<and>
    rebind_hostname (demo_env\<lparr>ge_lords := ls\<rparr>) ''h'' ''b'' same_host_server =
      on_processes (\<lambda>t. snd (PT_UpdateLordForHostname (ge_procs demo_env) ''a'' ''b'' t))
        same_host_server"
proof -
  have inv: "lr_inv (sv_lords same_host_server)"
    unfolding same_host_server_def on_lords_frame demo_server_tables
    by (intro lr_inv_Register demo_registry_inv) (simp_all add: demo_lord_def)
  have "\<exists>e e'. lr_byID (sv_lords same_host_server) ''b'' = Some e \<and>
      lr_byID (sv_lords same_host_server) ''a'' = Some e' \<and>
      l_hostname (le_info e) = ''h'' \<and> l_hostname (le_info e') = ''h''"
    by (simp add: same_host_server_def Lords_Register_def demo_lord_def)
  then show ?thesis using rebind_depends_on_order [OF inv] by force
qed

end
