(* ===== verification/Recovery.thy ===== *)
theory Recovery
  imports Connect
begin

section \<open>Recovery and migration (recovery.go, migrate.go)\<close>

text \<open>
  When the stream of a lord ends, a goroutine re-launches the processes of the lord elsewhere. It
  sleeps between its attempts, so it is a sequence of steps that other handlers interleave with:
  a start that collects the candidates, up to ten attempts, and a final pass over the candidates.
  Every successful re-launch starts a timer of 30 seconds. Migration is a re-launch on request.
\<close>

subsection \<open>Re-launching one process\<close>

definition pi_set_error :: "string \<Rightarrow> process_info \<Rightarrow> process_info" where
  "pi_set_error msg p = p\<lparr>pi_last_error := msg\<rparr>"

text \<open>\<open>Ref.LordId = newLordID; RestartCount++\<close>, without an entry in the log.\<close>

definition pi_relaunch :: "string \<Rightarrow> process_info \<Rightarrow> process_info" where
  "pi_relaunch newLordID p =
     (pi_set_lord newLordID p)\<lparr>pi_restart_count := pi_restart_count p + 1\<rparr>"

text \<open>The three ways in which recovery gives up on an entry: last error, state STOPPED, exit code.\<close>

definition give_up :: "go_env \<Rightarrow> nat \<Rightarrow> string \<Rightarrow> i32 \<Rightarrow> server \<Rightarrow> server" where
  "give_up env a msg code sv =
     UpdateResult env a code 0
       (UpdateState env a PROCESS_STATE_STOPPED '''' 0 (upd_info a (pi_set_error msg) sv))"

definition respawn_request :: "process_info \<Rightarrow> spawn_request" where
  "respawn_request info = buildSpawnRequest info
     (zero_spawn_request\<lparr>sr_tenant_id := pi_tenant_id info, sr_exec_path := pi_exec_path info,
        sr_argv := pi_argv info, sr_env := pi_env info, sr_working_dir := pi_working_dir info,
        sr_resources := pi_resources info, sr_stdin_initial := []\<rparr>)"

definition respawnProcessOnLord ::
  "go_env \<Rightarrow> nat \<Rightarrow> string \<Rightarrow> server \<Rightarrow> go_error option \<times> server" where
  "respawnProcessOnLord env a newLordID sv =
     (let info = sv_info sv a;
          curState = pi_state info;
          maxR = pi_max_restarts info in
      if curState = PROCESS_STATE_EXITED \<or> curState = PROCESS_STATE_STOPPED then (None, sv)
      else if 0 \<le> sint maxR \<and> sint maxR \<le> sint (pi_restart_count info) then
        (let msg = ''max_restarts='' @ show_int (sint maxR) @ '' reached'' in
         (Some (Errorf msg), give_up env a msg (- 4) sv))
      else
        (let sv1 = UpdateState env a PROCESS_STATE_RESTARTING '''' 0 sv;
             sv2 = upd_info a (pi_relaunch newLordID) sv1 in
         case SendSpawn env newLordID (respawn_request (sv_info sv2 a)) sv2 of
           (Some err, sv3) \<Rightarrow>
             (Some err, give_up env a (''respawn on '' @ newLordID @ '': '' @ error_text err) (- 2) sv3)
         | (None, sv3) \<Rightarrow> (None, sv3\<lparr>sv_timers := sv_timers sv3 @ [a]\<rparr>)))"

text \<open>The timer of a re-launched process goes off.\<close>

definition respawn_timer :: "go_env \<Rightarrow> nat \<Rightarrow> server \<Rightarrow> server" where
  "respawn_timer env a sv =
     (let sv1 = sv\<lparr>sv_timers := remove1 a (sv_timers sv)\<rparr> in
      if pi_state (sv_info sv1 a) = PROCESS_STATE_RESTARTING
      then give_up env a ''respawn ack timeout (>30s)'' (- 3) sv1 else sv1)"

subsection \<open>The recovery goroutine\<close>

definition recoveryDebounce :: duration where
  "recoveryDebounce = 10 * Second"

definition maxAttempts :: nat where
  "maxAttempts = 10"

definition respawnable :: "process_state \<Rightarrow> bool" where
  "respawnable st \<longleftrightarrow> st = PROCESS_STATE_RUNNING \<or> st = PROCESS_STATE_READY \<or>
     st = PROCESS_STATE_PAUSED \<or> st = PROCESS_STATE_MIGRATING"

definition recovery_start :: "go_env \<Rightarrow> string \<Rightarrow> server \<Rightarrow> recovery option \<times> server" where
  "recovery_start env deadLordID sv =
     (let last = sv_lastRecoveryAt sv deadLordID;
          sv1 = sv\<lparr>sv_lastRecoveryAt := (sv_lastRecoveryAt sv)(deadLordID \<mapsto> ge_now env)\<rparr> in
      case last of
        Some t \<Rightarrow>
          if time_Sub (ge_now env) t < recoveryDebounce then (None, sv1)
          else (let cands = PT_ListByLord (sv_processes sv1) (ge_procs env) deadLordID
                              (\<lambda>e. respawnable (pi_state (pe_info e))) in
                (if cands = [] then None else Some (R_attempt deadLordID cands 0), sv1))
      | None \<Rightarrow>
          (let cands = PT_ListByLord (sv_processes sv1) (ge_procs env) deadLordID
                         (\<lambda>e. respawnable (pi_state (pe_info e))) in
           (if cands = [] then None else Some (R_attempt deadLordID cands 0), sv1)))"

text \<open>One pass over the candidates: the number of calls that returned no error.\<close>

fun respawn_pass :: "go_env \<Rightarrow> string \<Rightarrow> nat list \<Rightarrow> nat \<Rightarrow> server \<Rightarrow> nat \<times> server" where
  "respawn_pass env target [] succeeded sv = (succeeded, sv)"
| "respawn_pass env target (a # as) succeeded sv =
     (case respawnProcessOnLord env a target sv of
        (Some _, sv1) \<Rightarrow> respawn_pass env target as succeeded sv1
      | (None, sv1) \<Rightarrow> respawn_pass env target as (succeeded + 1) sv1)"

definition next_attempt :: "string \<Rightarrow> nat list \<Rightarrow> nat \<Rightarrow> recovery" where
  "next_attempt deadLordID cands attempt =
     (if attempt + 1 < maxAttempts then R_attempt deadLordID cands (attempt + 1)
      else R_finish deadLordID cands)"

definition recovery_attempt ::
  "go_env \<Rightarrow> string \<Rightarrow> nat list \<Rightarrow> nat \<Rightarrow> server \<Rightarrow> recovery \<times> server" where
  "recovery_attempt env deadLordID cands attempt sv =
     (case Lords_Pick (sv_lords sv) (ge_lords env) '''' of
        None \<Rightarrow> (next_attempt deadLordID cands attempt, sv)
      | Some target \<Rightarrow>
          (case respawn_pass env (l_lord_id target) cands 0 sv of (succeeded, sv1) \<Rightarrow>
             (if 0 < succeeded then R_finish deadLordID cands
              else next_attempt deadLordID cands attempt, sv1)))"

fun recovery_finish :: "go_env \<Rightarrow> nat list \<Rightarrow> server \<Rightarrow> server" where
  "recovery_finish env [] sv = sv"
| "recovery_finish env (a # as) sv =
     (if pi_state (sv_info sv a) = PROCESS_STATE_RESTARTING
      then recovery_finish env as (give_up env a ''no lord available for respawn'' (- 5) sv)
      else recovery_finish env as sv)"

text \<open>A step of the goroutine: what it does next (None when it returns), and the server.\<close>

fun recovery_step :: "go_env \<Rightarrow> recovery \<Rightarrow> server \<Rightarrow> recovery option \<times> server" where
  "recovery_step env (R_start l) sv = recovery_start env l sv"
| "recovery_step env (R_attempt l as n) sv =
     (case recovery_attempt env l as n sv of (r, sv1) \<Rightarrow> (Some r, sv1))"
| "recovery_step env (R_finish l as) sv = (None, recovery_finish env as sv)"

text \<open>The i-th recovery makes a step: its place is taken by what it does next.\<close>

definition run_recovery :: "go_env \<Rightarrow> nat \<Rightarrow> server \<Rightarrow> server" where
  "run_recovery env i sv =
     (if i < length (sv_recoveries sv) then
        (case recovery_step env (sv_recoveries sv ! i) sv of (nxt, sv1) \<Rightarrow>
           sv1\<lparr>sv_recoveries := take i (sv_recoveries sv) @
             (case nxt of Some r \<Rightarrow> [r] | None \<Rightarrow> []) @ drop (i + 1) (sv_recoveries sv)\<rparr>)
      else sv)"

subsection \<open>Migration on request\<close>

definition Migrate ::
  "go_env \<Rightarrow> migrate_request \<Rightarrow> server \<Rightarrow> (go_error + migrate_response) \<times> server" where
  "Migrate env req sv =
     (case PT_Get (sv_processes sv) (mr_process_id req) of
        None \<Rightarrow> (Inl (Errorf (''process '' @ mr_process_id req @ '' not found'')), sv)
      | Some a \<Rightarrow>
          let cur = pi_lord_id (sv_info sv a);
              pick = mr_auto req \<or> mr_target_lord_id req = '''';
              target = (if pick then Lords_PickDifferent (sv_lords sv) (ge_lords env) cur
                        else mr_target_lord_id req) in
          if pick \<and> target = '''' then (Inl (Errorf ''no alternative healthy lord available''), sv)
          else if target = cur then
            (Inr \<lparr>mp_acknowledged = False, mp_current_state = pi_state (sv_info sv a),
                  mp_new_lord_id = target, mp_new_local_pid = pi_local_pid (sv_info sv a)\<rparr>, sv)
          else
            (case respawnProcessOnLord env a target sv of
               (Some err, sv1) \<Rightarrow> (Inl (Errorf (''respawn: '' @ error_text err)), sv1)
             | (None, sv1) \<Rightarrow>
                 (Inr \<lparr>mp_acknowledged = True, mp_current_state = pi_state (sv_info sv1 a),
                       mp_new_lord_id = target, mp_new_local_pid = 0\<rparr>, sv1)))"

subsection \<open>Every step keeps the invariant\<close>

lemma unlogged_set_error: "unlogged (pe_upd_info (pi_set_error msg))"
  by (rule unlogged_upd_info) (simp add: durable_def pi_set_error_def)

lemma unlogged_relaunch: "unlogged (pe_upd_info (pi_relaunch l))"
  by (rule unlogged_upd_info) (simp add: durable_def pi_relaunch_def pi_set_lord_def)

lemma live_server_ops [simp]:
  "live (sv_processes (UpdateState env a st l p sv)) b = live (sv_processes sv) b"
  "live (sv_processes (UpdateResult env a c s sv)) b = live (sv_processes sv) b"
  "live (sv_processes (upd_info a f sv)) b = live (sv_processes sv) b"
  by simp_all

lemma give_up_frame [frame_simps, simp]:
  "sv_lords (give_up env a msg c sv) = sv_lords sv"
  "sv_sessions (give_up env a msg c sv) = sv_sessions sv"
  "sv_timers (give_up env a msg c sv) = sv_timers sv"
  "live (sv_processes (give_up env a msg c sv)) b = live (sv_processes sv) b"
  by (simp_all add: give_up_def)

lemma recoveries_frame [frame_simps, simp]:
  "sv_recoveries (UpdateState env a st l p sv) = sv_recoveries sv"
  "sv_recoveries (UpdateResult env a c s sv) = sv_recoveries sv"
  "sv_recoveries (upd_info a f sv) = sv_recoveries sv"
  "sv_recoveries (give_up env a msg c sv) = sv_recoveries sv"
  by (simp_all add: UpdateState_def UpdateResult_def upd_info_def give_up_def)

lemma sv_inv_give_up:
  assumes "sv_inv sv" "live (sv_processes sv) a"
  shows "sv_inv (give_up env a msg c sv)"
  unfolding give_up_def using assms
  by (intro sv_inv_UpdateResult sv_inv_UpdateState sv_inv_upd_info unlogged_set_error) simp_all

lemma sv_inv_add_timer:
  "sv_inv sv \<Longrightarrow> live (sv_processes sv) a \<Longrightarrow> sv_inv (sv\<lparr>sv_timers := sv_timers sv @ [a]\<rparr>)"
  by (auto simp: sv_inv_def pending_def)

lemma sv_inv_less_timers:
  "sv_inv sv \<Longrightarrow> set ts \<subseteq> set (sv_timers sv) \<Longrightarrow> sv_inv (sv\<lparr>sv_timers := ts\<rparr>)"
  by (auto simp: sv_inv_def pending_def)

text \<open>The outcomes of a re-launch.\<close>

lemma respawn_cases:
  assumes "respawnProcessOnLord env a l sv = (r, sv')"
  obtains (final) "final_state (pi_state (sv_info sv a))" "r = None" "sv' = sv"
  | (limit) msg where "\<not> final_state (pi_state (sv_info sv a))"
      "0 \<le> sint (pi_max_restarts (sv_info sv a))"
      "sint (pi_max_restarts (sv_info sv a)) \<le> sint (pi_restart_count (sv_info sv a))"
      "r = Some (Errorf msg)" "sv' = give_up env a msg (- 4) sv"
  | (failed) sv2 err where "\<not> final_state (pi_state (sv_info sv a))"
      "sv2 = upd_info a (pi_relaunch l) (UpdateState env a PROCESS_STATE_RESTARTING '''' 0 sv)"
      "SendSpawn env l (respawn_request (sv_info sv2 a)) sv2 = (Some err, sv2)" "r = Some err"
      "sv' = give_up env a (''respawn on '' @ l @ '': '' @ error_text err) (- 2) sv2"
      "\<not> (0 \<le> sint (pi_max_restarts (sv_info sv a)) \<and>
          sint (pi_max_restarts (sv_info sv a)) \<le> sint (pi_restart_count (sv_info sv a)))"
  | (sent) sv2 sv3 where "\<not> final_state (pi_state (sv_info sv a))"
      "\<not> (0 \<le> sint (pi_max_restarts (sv_info sv a)) \<and>
          sint (pi_max_restarts (sv_info sv a)) \<le> sint (pi_restart_count (sv_info sv a)))"
      "sv2 = upd_info a (pi_relaunch l) (UpdateState env a PROCESS_STATE_RESTARTING '''' 0 sv)"
      "SendSpawn env l (respawn_request (sv_info sv2 a)) sv2 = (None, sv3)" "r = None"
      "sv' = sv3\<lparr>sv_timers := sv_timers sv3 @ [a]\<rparr>"
proof (cases "final_state (pi_state (sv_info sv a))")
  case True
  then have "respawnProcessOnLord env a l sv = (None, sv)"
    by (simp add: respawnProcessOnLord_def Let_def final_state_def)
  then show ?thesis using True final unfolding assms by simp
next
  case nf: False
  show ?thesis
  proof (cases "0 \<le> sint (pi_max_restarts (sv_info sv a)) \<and>
      sint (pi_max_restarts (sv_info sv a)) \<le> sint (pi_restart_count (sv_info sv a))")
    case True
    then obtain msg where "respawnProcessOnLord env a l sv =
        (Some (Errorf msg), give_up env a msg (- 4) sv)"
      using nf by (simp add: respawnProcessOnLord_def Let_def final_state_def)
    then show ?thesis using True nf limit [of msg] unfolding assms by simp
  next
    case False
    let ?sv2 = "upd_info a (pi_relaunch l) (UpdateState env a PROCESS_STATE_RESTARTING '''' 0 sv)"
    obtain e sv3 where send: "SendSpawn env l (respawn_request (sv_info ?sv2 a)) ?sv2 = (e, sv3)"
      by fastforce
    have res: "respawnProcessOnLord env a l sv = (case e of
        Some err \<Rightarrow> (Some err, give_up env a (''respawn on '' @ l @ '': '' @ error_text err) (- 2) sv3)
      | None \<Rightarrow> (None, sv3\<lparr>sv_timers := sv_timers sv3 @ [a]\<rparr>))"
    proof -
      have fs: "(pi_state (sv_info sv a) = PROCESS_STATE_EXITED \<or>
          pi_state (sv_info sv a) = PROCESS_STATE_STOPPED) = False"
        using nf by (simp add: final_state_def)
      have lim: "(0 \<le> sint (pi_max_restarts (sv_info sv a)) \<and>
          sint (pi_max_restarts (sv_info sv a)) \<le> sint (pi_restart_count (sv_info sv a))) = False"
        using False by blast
      show ?thesis
        unfolding respawnProcessOnLord_def Let_def fs lim if_False send by (cases e) simp_all
    qed
    show ?thesis
    proof (cases e)
      case None
      then show ?thesis using res send sent [OF nf False refl] unfolding assms by simp
    next
      case (Some err)
      then have "sv3 = ?sv2" using send SendSpawn_error by blast
      then show ?thesis
        using res send Some failed [OF nf refl _ _ _ False, of err] unfolding assms by simp
    qed
  qed
qed

lemma sv_inv_respawn:
  assumes "sv_inv sv" "live (sv_processes sv) a"
  shows "sv_inv (snd (respawnProcessOnLord env a l sv))"
    "live (sv_processes (snd (respawnProcessOnLord env a l sv))) b = live (sv_processes sv) b"
proof -
  obtain r sv' where r: "respawnProcessOnLord env a l sv = (r, sv')" by fastforce
  have 2: "sv_inv (upd_info a (pi_relaunch l) (UpdateState env a PROCESS_STATE_RESTARTING '''' 0 sv))"
    by (intro sv_inv_upd_info sv_inv_UpdateState assms unlogged_relaunch)
  from r have "sv_inv sv' \<and> (live (sv_processes sv') b = live (sv_processes sv) b)"
  proof (cases rule: respawn_cases)
    case (sent sv2 sv3)
    have "sv_inv sv3" using sv_inv_SendSpawn sent(3,4) 2 by (metis snd_conv)
    moreover have "sv_processes sv3 = sv_processes sv2"
      using sent(4) SendSpawn_frame(1) by (metis snd_conv)
    ultimately show ?thesis
      using sent(3,6) assms(2) by (auto intro!: sv_inv_add_timer)
  qed (use assms 2 in \<open>auto intro!: sv_inv_give_up\<close>)
  then show "sv_inv (snd (respawnProcessOnLord env a l sv))"
    "live (sv_processes (snd (respawnProcessOnLord env a l sv))) b = live (sv_processes sv) b"
    using r by simp_all
qed

lemma sv_inv_respawn_timer:
  assumes "sv_inv sv" "live (sv_processes sv) a"
  shows "sv_inv (respawn_timer env a sv)"
proof -
  have "sv_inv (sv\<lparr>sv_timers := remove1 a (sv_timers sv)\<rparr>)"
    by (rule sv_inv_less_timers [OF assms(1) set_remove1_subset])
  then show ?thesis using assms(2) by (auto simp: respawn_timer_def Let_def intro: sv_inv_give_up)
qed

lemma sv_inv_respawn_pass:
  assumes "sv_inv sv" "\<forall>a\<in>set as. live (sv_processes sv) a"
  shows "sv_inv (snd (respawn_pass env l as n sv)) \<and>
    (live (sv_processes (snd (respawn_pass env l as n sv))) b = live (sv_processes sv) b)"
  using assms
proof (induction env l as n sv rule: respawn_pass.induct)
  case (2 env l a as n sv)
  obtain r sv1 where r: "respawnProcessOnLord env a l sv = (r, sv1)" by fastforce
  have "sv_inv sv1" "live (sv_processes sv1) b = live (sv_processes sv) b" for b
    using sv_inv_respawn [OF 2(3), of a env l] 2(4) r by auto
  then show ?case
    using 2(1) [OF r [symmetric]] 2(2) [OF r [symmetric]] 2(4) r by (cases r) simp_all
qed simp

lemma sv_inv_recovery_finish:
  "sv_inv sv \<Longrightarrow> \<forall>a\<in>set as. live (sv_processes sv) a \<Longrightarrow>
     sv_inv (recovery_finish env as sv) \<and>
     (live (sv_processes (recovery_finish env as sv)) b = live (sv_processes sv) b)"
  by (induction env as sv rule: recovery_finish.induct) (auto simp: sv_inv_give_up)

lemma live_ListByLord: "a \<in> set (PT_ListByLord t ks l keep) \<Longrightarrow> live t a"
  by (auto simp: PT_ListByLord_def go_values_def set_go_range live_def PT_Get_def)

text \<open>What a step of the goroutine does next holds pointers to live entries only.\<close>

lemma recoveries_pass:
  "sv_recoveries (snd (respawnProcessOnLord env a l sv)) = sv_recoveries sv"
proof -
  obtain r sv' where r: "respawnProcessOnLord env a l sv = (r, sv')" by fastforce
  from r have "sv_recoveries sv' = sv_recoveries sv"
  proof (cases rule: respawn_cases)
    case (sent sv2 sv3)
    have "sv_recoveries sv3 = sv_recoveries sv2" using sent(4) SendSpawn_frame(4) by (metis snd_conv)
    then show ?thesis using sent(3,6) by simp
  qed simp_all
  then show ?thesis using r by simp
qed

lemma recoveries_respawn_pass:
  "sv_recoveries (snd (respawn_pass env l as n sv)) = sv_recoveries sv"
proof (induction env l as n sv rule: respawn_pass.induct)
  case (2 env l a as n sv)
  obtain r sv1 where r: "respawnProcessOnLord env a l sv = (r, sv1)" by fastforce
  then have "sv_recoveries sv1 = sv_recoveries sv" using recoveries_pass by (metis snd_conv)
  then show ?case using 2(1) [OF r [symmetric]] 2(2) [OF r [symmetric]] r by (cases r) simp_all
qed simp

lemma recoveries_finish: "sv_recoveries (recovery_finish env as sv) = sv_recoveries sv"
  by (induction env as sv rule: recovery_finish.induct) auto

lemma sv_inv_set_recoveries:
  "sv_inv sv \<Longrightarrow> \<forall>r\<in>set rs. \<forall>a\<in>set (rec_addrs r). live (sv_processes sv) a \<Longrightarrow>
     sv_inv (sv\<lparr>sv_recoveries := rs\<rparr>)"
  by (auto simp: sv_inv_def pending_def)

lemma sv_inv_replace_recovery:
  assumes "sv_inv sv" "\<forall>r\<in>set rs. \<forall>a\<in>set (rec_addrs r). live (sv_processes sv) a"
  shows "sv_inv (sv\<lparr>sv_recoveries := take i (sv_recoveries sv) @ rs @ drop (i + 1) (sv_recoveries sv)\<rparr>)"
proof (rule sv_inv_set_recoveries [OF assms(1)], intro ballI)
  fix r a assume r: "r \<in> set (take i (sv_recoveries sv) @ rs @ drop (i + 1) (sv_recoveries sv))"
    and a: "a \<in> set (rec_addrs r)"
  from r have "r \<in> set (sv_recoveries sv) \<union> set rs" by (auto dest: in_set_takeD in_set_dropD)
  then show "live (sv_processes sv) a"
    using a assms(2) sv_invD(4) [OF assms(1)] unfolding pending_def by blast
qed

lemma recovery_step_inv:
  assumes "sv_inv sv" "\<forall>a\<in>set (rec_addrs r). live (sv_processes sv) a"
    "recovery_step env r sv = (nxt, sv1)"
  shows "sv_inv sv1 \<and> sv_recoveries sv1 = sv_recoveries sv \<and>
    (\<forall>r'\<in>set_option nxt. \<forall>a\<in>set (rec_addrs r'). live (sv_processes sv1) a)"
proof (cases r)
  case (R_start l)
  have "sv_inv (sv\<lparr>sv_lastRecoveryAt := m\<rparr>)" for m
    using assms(1) by (simp add: sv_inv_def pending_def)
  then show ?thesis
    using assms(3) R_start
    by (auto simp: recovery_start_def Let_def split: option.splits if_splits dest: live_ListByLord)
next
  case (R_attempt l as n)
  obtain r1 where at: "recovery_attempt env l as n sv = (r1, sv1)" "nxt = Some r1"
    using assms(3) R_attempt by (auto split: prod.splits)
  have adr: "r1 = R_finish l as \<or> (\<exists>k. r1 = R_attempt l as k)"
    using at by (auto simp: recovery_attempt_def next_attempt_def split: option.splits prod.splits if_splits)
  have live: "\<forall>a\<in>set as. live (sv_processes sv) a" using assms(2) R_attempt by simp
  have "sv_inv sv1 \<and> sv_recoveries sv1 = sv_recoveries sv \<and>
      (\<forall>b. live (sv_processes sv1) b = live (sv_processes sv) b)"
  proof (cases "Lords_Pick (sv_lords sv) (ge_lords env) ''''")
    case None
    then show ?thesis using at assms(1) by (simp add: recovery_attempt_def)
  next
    case (Some target)
    then have "sv1 = snd (respawn_pass env (l_lord_id target) as 0 sv)"
      using at by (auto simp: recovery_attempt_def split: prod.splits)
    then show ?thesis
      using sv_inv_respawn_pass [OF assms(1) live] recoveries_respawn_pass by blast
  qed
  then show ?thesis using at(2) adr live by auto
next
  case (R_finish l as)
  then show ?thesis
    using assms sv_inv_recovery_finish [OF assms(1), of as env] by (auto simp: recoveries_finish)
qed

lemma sv_inv_run_recovery:
  assumes "sv_inv sv"
  shows "sv_inv (run_recovery env i sv)"
proof (cases "i < length (sv_recoveries sv)")
  case True
  obtain nxt sv1 where st: "recovery_step env (sv_recoveries sv ! i) sv = (nxt, sv1)" by fastforce
  have "\<forall>a\<in>set (rec_addrs (sv_recoveries sv ! i)). live (sv_processes sv) a"
    using sv_invD(4) [OF assms] nth_mem [OF True] by (auto simp: pending_def)
  from recovery_step_inv [OF assms this st] show ?thesis
    using True st sv_inv_replace_recovery [of sv1 "case nxt of Some r \<Rightarrow> [r] | None \<Rightarrow> []" i]
    by (auto simp: run_recovery_def split: option.splits)
qed (simp add: run_recovery_def assms)

lemma sv_inv_Migrate:
  assumes "sv_inv sv"
  shows "sv_inv (snd (Migrate env req sv))"
proof (cases "PT_Get (sv_processes sv) (mr_process_id req)")
  case (Some a)
  have "sv_inv (snd (respawnProcessOnLord env a l sv))" for l
    by (rule sv_inv_respawn(1) [OF assms live_Get [OF Some]])
  then show ?thesis
    using Some assms by (auto simp: Migrate_def Let_def split: prod.split option.split) (metis snd_conv)+
qed (simp add: Migrate_def assms)

subsection \<open>What a re-launch does to the entries\<close>

text \<open>An address that was handed out.\<close>

definition alloc :: "server \<Rightarrow> nat \<Rightarrow> bool" where
  "alloc sv a \<longleftrightarrow> pt_heap (sv_processes sv) a \<noteq> None"

lemma alloc_live: "sv_inv sv \<Longrightarrow> live (sv_processes sv) a \<Longrightarrow> alloc sv a"
  using live_heap tbl_invD(1) sv_invD(1) unfolding alloc_def by blast

lemma alloc_ops [frame_simps, simp]:
  "alloc (UpdateState env a st l p sv) b = alloc sv b"
  "alloc (UpdateResult env a c s sv) b = alloc sv b"
  "alloc (upd_info a f sv) b = alloc sv b"
  "alloc (give_up env a msg c sv) b = alloc sv b"
  "alloc (sv\<lparr>sv_timers := ts\<rparr>) b = alloc sv b"
  by (auto simp: alloc_def give_up_def PE_UpdateState_def PE_UpdateResult_def heap_modify)

lemma sv_info_ops:
  assumes "alloc sv a"
  shows "sv_info (UpdateState env a st l p sv) b =
      (if b = a then set_state (ge_now env) st l p (sv_info sv a) else sv_info sv b)"
    "sv_info (UpdateResult env a c s sv) b =
      (if b = a then set_result (ge_now env) c s (sv_info sv a) else sv_info sv b)"
    "sv_info (upd_info a f sv) b = (if b = a then f (sv_info sv a) else sv_info sv b)"
proof -
  have h: "pt_heap (sv_processes sv) a \<noteq> None" using assms by (simp add: alloc_def)
  then have w: "pt_heap (with_wal g (sv_processes sv)) a \<noteq> None" for g by simp
  show "sv_info (UpdateState env a st l p sv) b =
      (if b = a then set_state (ge_now env) st l p (sv_info sv a) else sv_info sv b)"
    by (simp add: sv_info_def PE_UpdateState_def info_at_modify [OF w])
      (simp add: info_at_def)
  show "sv_info (UpdateResult env a c s sv) b =
      (if b = a then set_result (ge_now env) c s (sv_info sv a) else sv_info sv b)"
    by (simp add: sv_info_def PE_UpdateResult_def info_at_modify [OF w]) (simp add: info_at_def)
  show "sv_info (upd_info a f sv) b = (if b = a then f (sv_info sv a) else sv_info sv b)"
    by (simp only: sv_info_def sv_update_frame info_at_modify [OF h]) (simp add: info_at_def)
qed

definition gave_up :: "time \<Rightarrow> string \<Rightarrow> i32 \<Rightarrow> process_info \<Rightarrow> process_info" where
  "gave_up now msg code i =
     set_result now code 0 (set_state now PROCESS_STATE_STOPPED '''' 0 (pi_set_error msg i))"

lemma gave_up_simps [simp]:
  "pi_state (gave_up now msg c i) = PROCESS_STATE_STOPPED" "pi_exit_code (gave_up now msg c i) = c"
  "pi_lord_id (gave_up now msg c i) = pi_lord_id i"
  "pi_restart_count (gave_up now msg c i) = pi_restart_count i"
  "pi_last_error (gave_up now msg c i) = msg"
  by (simp_all add: gave_up_def pi_set_error_def set_result_def set_state_def Let_def)

lemma sv_info_give_up:
  assumes "alloc sv a"
  shows "sv_info (give_up env a msg c sv) b =
    (if b = a then gave_up (ge_now env) msg c (sv_info sv a) else sv_info sv b)"
  using assms by (simp add: give_up_def sv_info_ops gave_up_def)

lemma pi_set_lord_relaunch [simp]:
  "pi_state (pi_relaunch l i) = pi_state i" "pi_lord_id (pi_relaunch l i) = l"
  "pi_restart_count (pi_relaunch l i) = pi_restart_count i + 1"
  by (simp_all add: pi_relaunch_def pi_set_lord_def)

text \<open>The entry between the marking and the send.\<close>

definition relaunched :: "time \<Rightarrow> string \<Rightarrow> process_info \<Rightarrow> process_info" where
  "relaunched now l i = pi_relaunch l (set_state now PROCESS_STATE_RESTARTING '''' 0 i)"

lemma relaunched_simps [simp]:
  "pi_state (relaunched now l i) = PROCESS_STATE_RESTARTING" "pi_lord_id (relaunched now l i) = l"
  "pi_restart_count (relaunched now l i) = pi_restart_count i + 1"
  "pi_exec_path (relaunched now l i) = pi_exec_path i" "pi_argv (relaunched now l i) = pi_argv i"
  "pi_env (relaunched now l i) = pi_env i" "pi_tenant_id (relaunched now l i) = pi_tenant_id i"
  "pi_working_dir (relaunched now l i) = pi_working_dir i"
  "pi_resources (relaunched now l i) = pi_resources i"
  "pi_state_dump_path (relaunched now l i) = pi_state_dump_path i"
  "pi_max_restarts (relaunched now l i) = pi_max_restarts i"
  "pi_process_id (relaunched now l i) = pi_process_id i"
  by (simp_all add: relaunched_def pi_relaunch_def set_state_def pi_set_lord_def Let_def)

lemma respawn_request_relaunched [simp]:
  "respawn_request (relaunched now l i) = respawn_request i"
  by (simp only: respawn_request_def buildSpawnRequest_def relaunched_simps)

lemma info_SendSpawn: "SendSpawn env l req sv = (r, sv') \<Longrightarrow> sv_info sv' b = sv_info sv b"
  using SendSpawn_frame(1) [of env l req sv] by (simp add: sv_info_def)

lemma sv_info_timers [simp]: "sv_info (sv\<lparr>sv_timers := ts\<rparr>) b = sv_info sv b"
  by (simp add: sv_info_def)

lemma alloc_SendSpawn: "SendSpawn env l req sv = (r, sv') \<Longrightarrow> alloc sv' b = alloc sv b"
  using SendSpawn_frame(1) [of env l req sv] by (simp add: alloc_def)

text \<open>A re-launch leaves the entry re-launched or over, and every other entry alone.\<close>

lemma respawn_info:
  assumes "respawnProcessOnLord env a l sv = (r, sv')" "alloc sv a"
  shows "pi_state (sv_info sv' a) = PROCESS_STATE_RESTARTING \<or> final_state (pi_state (sv_info sv' a))"
    "r \<noteq> None \<Longrightarrow> final_state (pi_state (sv_info sv' a))"
    "b \<noteq> a \<Longrightarrow> sv_info sv' b = sv_info sv b"
    "alloc sv' c = alloc sv c"
proof -
  have "(pi_state (sv_info sv' a) = PROCESS_STATE_RESTARTING \<and> r = None \<or>
      final_state (pi_state (sv_info sv' a))) \<and> (b \<noteq> a \<longrightarrow> sv_info sv' b = sv_info sv b) \<and>
      alloc sv' c = alloc sv c"
    using assms(1)
  proof (cases rule: respawn_cases)
    case (sent sv2 sv3)
    then show ?thesis
      using assms(2) info_SendSpawn [OF sent(4)] alloc_SendSpawn [OF sent(4)]
      by (simp add: sv_info_ops)
  qed (use assms(2) in \<open>simp_all add: sv_info_give_up sv_info_ops final_state_def\<close>)
  then show "pi_state (sv_info sv' a) = PROCESS_STATE_RESTARTING \<or> final_state (pi_state (sv_info sv' a))"
    "r \<noteq> None \<Longrightarrow> final_state (pi_state (sv_info sv' a))"
    "b \<noteq> a \<Longrightarrow> sv_info sv' b = sv_info sv b"
    "alloc sv' c = alloc sv c"
    by auto
qed

definition settled :: "server \<Rightarrow> nat \<Rightarrow> bool" where
  "settled sv a \<longleftrightarrow> pi_state (sv_info sv a) = PROCESS_STATE_RESTARTING \<or>
     final_state (pi_state (sv_info sv a))"

lemma respawn_pass_settles:
  "respawn_pass env l as n sv = (k, sv') \<Longrightarrow> \<forall>a\<in>set as. alloc sv a \<Longrightarrow>
     (\<forall>a\<in>set as. settled sv' a) \<and> (\<forall>b. settled sv b \<longrightarrow> settled sv' b) \<and>
     (\<forall>c. alloc sv' c = alloc sv c)"
proof (induction env l as n sv rule: respawn_pass.induct)
  case (2 env l a as n sv)
  obtain r sv1 where r: "respawnProcessOnLord env a l sv = (r, sv1)" by fastforce
  have al: "alloc sv a" "\<And>c. alloc sv1 c = alloc sv c"
    using 2(4) respawn_info(4) [OF r] by auto
  have s: "settled sv1 a" "\<And>b. settled sv b \<Longrightarrow> settled sv1 b"
    using respawn_info(1,3) [OF r al(1)] unfolding settled_def by metis+
  have "(\<forall>a\<in>set as. settled sv' a) \<and> (\<forall>b. settled sv1 b \<longrightarrow> settled sv' b) \<and>
      (\<forall>c. alloc sv' c = alloc sv1 c)"
    using 2(1) [OF r [symmetric]] 2(2) [OF r [symmetric]] 2(3,4) r al(2) by (cases r) simp_all
  then show ?case using s al(2) by auto
qed simp

text \<open>The final pass stops every candidate that is still restarting.\<close>

lemma recovery_finish_info:
  assumes "\<forall>a\<in>set as. alloc sv a"
  shows "pi_state (sv_info (recovery_finish env as sv) b) =
      (if b \<in> set as \<and> pi_state (sv_info sv b) = PROCESS_STATE_RESTARTING
       then PROCESS_STATE_STOPPED else pi_state (sv_info sv b)) \<and>
    (b \<in> set as \<and> pi_state (sv_info sv b) = PROCESS_STATE_RESTARTING \<longrightarrow>
       pi_exit_code (sv_info (recovery_finish env as sv) b) = - 5) \<and>
    (pi_state (sv_info sv b) \<noteq> PROCESS_STATE_RESTARTING \<longrightarrow>
       sv_info (recovery_finish env as sv) b = sv_info sv b) \<and>
    sv_sessions (recovery_finish env as sv) = sv_sessions sv"
  using assms
proof (induction env as sv rule: recovery_finish.induct)
  case (2 env a as sv)
  show ?case
  proof (cases "pi_state (sv_info sv a) = PROCESS_STATE_RESTARTING")
    case True
    let ?sv1 = "give_up env a ''no lord available for respawn'' (- 5) sv"
    have "sv_info ?sv1 b = (if b = a then gave_up (ge_now env) ''no lord available for respawn'' (- 5)
        (sv_info sv a) else sv_info sv b)"
      using 2(3) by (simp add: sv_info_give_up)
    then show ?thesis using 2(1) [OF True] 2(3) True by (cases "b = a") simp_all
  next
    case False
    then show ?thesis using 2(2) [OF False] 2(3) by auto
  qed
qed simp

text \<open>A goroutine that nothing else interleaves with, for at most the given number of steps.\<close>

fun recovery_alone :: "go_env \<Rightarrow> nat \<Rightarrow> recovery \<Rightarrow> server \<Rightarrow> recovery option \<times> server" where
  "recovery_alone env 0 r sv = (Some r, sv)"
| "recovery_alone env (Suc fuel) r sv =
     (case recovery_step env r sv of
        (None, sv1) \<Rightarrow> (None, sv1)
      | (Some r1, sv1) \<Rightarrow> recovery_alone env fuel r1 sv1)"

text \<open>The steps that are left.\<close>

fun rec_steps :: "recovery \<Rightarrow> nat" where
  "rec_steps (R_start l) = maxAttempts + 2"
| "rec_steps (R_attempt l as n) = maxAttempts - n + 1"
| "rec_steps (R_finish l as) = 1"

definition rec_ok :: "recovery \<Rightarrow> bool" where
  "rec_ok r \<longleftrightarrow> (case r of R_attempt l as n \<Rightarrow> n < maxAttempts | _ \<Rightarrow> True)"

lemma rec_steps_decrease:
  assumes "recovery_step env r sv = (Some r', sv')" "rec_ok r"
  shows "rec_steps r' < rec_steps r \<and> rec_ok r'"
  using assms
  by (cases r) (auto simp: recovery_start_def recovery_attempt_def next_attempt_def Let_def rec_ok_def
      maxAttempts_def split: option.splits if_splits prod.splits)




lemma recovery_finish_over:
  "\<forall>a\<in>set as. final_state (pi_state (sv_info sv a)) \<Longrightarrow> recovery_finish env as sv = sv"
  by (induction as) (auto simp: final_state_def)

text \<open>With no lord in sight the attempts do nothing.\<close>

lemma attempts_without_lords:
  assumes "Lords_Pick (sv_lords sv) (ge_lords env) '''' = None"
    and "\<forall>a\<in>set as. respawnable (pi_state (sv_info sv a))" "n < maxAttempts"
  shows "recovery_alone env (maxAttempts - n + 1) (R_attempt l as n) sv = (None, sv)"
proof -
  have fin: "recovery_finish env as sv = sv"
    using assms(2) by (induction as) (auto simp: respawnable_def)
  show ?thesis
    using assms(3)
  proof (induction "maxAttempts - n" arbitrary: n)
    case (Suc k)
    show ?case
    proof (cases "n + 1 < maxAttempts")
      case True
      then have "recovery_alone env (maxAttempts - (n + 1) + 1) (R_attempt l as (n + 1)) sv = (None, sv)"
        using Suc(1) [of "n + 1"] Suc(2) by simp
      moreover have "maxAttempts - n = maxAttempts - (n + 1) + 1" using True by simp
      ultimately show ?thesis
        using True assms(1) by (simp add: recovery_attempt_def next_attempt_def)
    next
      case False
      then have "maxAttempts - n = Suc 0" using Suc(3) by simp
      then show ?thesis
        using False assms(1) fin by (simp add: recovery_attempt_def next_attempt_def)
    qed
  qed simp
qed


subsection \<open>Properties\<close>

text \<open>C17: a successful re-launch of a process that is not over: it is RESTARTING on the new lord with
  one restart more, the same program (arguments, environment with the state dump, resources) is
  at the end of the outbox of the new lord, no other lord is told, and a timer watches over it.\<close>

theorem respawn_success:
  assumes "respawnProcessOnLord env a l sv = (None, sv')" "sv_inv sv" "live (sv_processes sv) a"
    and "\<not> final_state (pi_state (sv_info sv a))"
  shows "let i = sv_info sv a; j = sv_info sv' a in
    pi_state j = PROCESS_STATE_RESTARTING \<and> pi_lord_id j = l \<and>
    pi_restart_count j = pi_restart_count i + 1 \<and>
    (\<exists>s evs. sv_sessions sv' = (sv_sessions sv)(l \<mapsto> s) \<and>
       ls_outbox s = evs @ [Ev_Spawn (respawn_request i)]) \<and>
    a \<in> set (sv_timers sv')"
  using assms(1)
proof (cases rule: respawn_cases)
  case (sent sv2 sv3)
  have al: "alloc sv a" by (rule alloc_live [OF assms(2,3)])
  have i2: "sv_info sv2 a = relaunched (ge_now env) l (sv_info sv a)"
    using al sent(3) by (simp add: sv_info_ops relaunched_def)
  have ss: "sv_sessions sv2 = sv_sessions sv" using sent(3) by simp
  have "\<exists>s evs. sv_sessions sv3 = (sv_sessions sv)(l \<mapsto> s) \<and>
      ls_outbox s = evs @ [Ev_Spawn (respawn_request (sv_info sv a))]"
    using sent(4) unfolding i2 respawn_request_relaunched
    by (cases rule: SendSpawn_cases) (auto simp: ss dest: outbox_send5_props)
  then show ?thesis
    using i2 info_SendSpawn [OF sent(4)] sent(6) by (simp add: Let_def)
qed (use assms(4) in simp_all)

text \<open>C33: the limit on restarts is honoured: a process that has used up its restarts is not sent to
  any lord; it is stopped with exit code -4.\<close>

theorem respawn_limit:
  assumes "sv_inv sv" "live (sv_processes sv) a" "\<not> final_state (pi_state (sv_info sv a))"
    and "0 \<le> sint (pi_max_restarts (sv_info sv a))"
    and "sint (pi_max_restarts (sv_info sv a)) \<le> sint (pi_restart_count (sv_info sv a))"
  shows "\<exists>err sv'. respawnProcessOnLord env a l sv = (Some err, sv') \<and>
    pi_state (sv_info sv' a) = PROCESS_STATE_STOPPED \<and> pi_exit_code (sv_info sv' a) = - 4 \<and>
    pi_lord_id (sv_info sv' a) = pi_lord_id (sv_info sv a) \<and> sv_sessions sv' = sv_sessions sv"
proof -
  obtain r sv' where r: "respawnProcessOnLord env a l sv = (r, sv')" by fastforce
  from r show ?thesis
  proof (cases rule: respawn_cases)
    case (limit msg)
    then show ?thesis using r alloc_live [OF assms(1,2)] by (simp add: sv_info_give_up)
  next
    case (failed sv2 err)
    have "respawnProcessOnLord env a l sv = (Some (Errorf (''max_restarts='' @
        show_int (sint (pi_max_restarts (sv_info sv a))) @ '' reached'')), give_up env a
        (''max_restarts='' @ show_int (sint (pi_max_restarts (sv_info sv a))) @ '' reached'') (- 4) sv)"
      using assms(3-5) by (simp add: respawnProcessOnLord_def Let_def final_state_def)
    then show ?thesis using alloc_live [OF assms(1,2)] by (simp add: sv_info_give_up)
  qed (use assms in simp_all)
qed

text \<open>C38: the recovery of a dead lord never succeeds on its own: the pass that follows a successful
  attempt at once, before any lord can answer, stops every process that was just re-launched,
  while the outboxes keep the spawn events that were sent for them.\<close>

theorem recovery_stops_what_it_restarts:
  assumes "sv_inv sv" "\<forall>a\<in>set as. live (sv_processes sv) a"
    and "Lords_Pick (sv_lords sv) (ge_lords env) '''' = Some target"
    and "recovery_step env (R_attempt l as n) sv = (Some (R_finish l as), sv1)"
    and "recovery_step env' (R_finish l as) sv1 = (nxt, sv2)"
  shows "nxt = None \<and> sv_sessions sv2 = sv_sessions sv1 \<and>
    (\<forall>a\<in>set as. final_state (pi_state (sv_info sv2 a)) \<and>
       (pi_state (sv_info sv1 a) = PROCESS_STATE_RESTARTING \<longrightarrow> pi_exit_code (sv_info sv2 a) = - 5))"
proof -
  obtain k where pass: "respawn_pass env (l_lord_id target) as 0 sv = (k, sv1)"
    using assms(3,4) by (auto simp: recovery_attempt_def split: prod.splits)
  have "\<forall>a\<in>set as. alloc sv a" using assms(2) alloc_live [OF assms(1)] by blast
  from respawn_pass_settles [OF pass this] this
  have s: "\<forall>a\<in>set as. settled sv1 a" "\<forall>a\<in>set as. alloc sv1 a" by auto
  have sv2: "nxt = None" "sv2 = recovery_finish env' as sv1" using assms(5) by simp_all
  have "final_state (pi_state (sv_info sv2 a)) \<and>
      (pi_state (sv_info sv1 a) = PROCESS_STATE_RESTARTING \<longrightarrow> pi_exit_code (sv_info sv2 a) = - 5)"
    if "a \<in> set as" for a
    using recovery_finish_info [OF s(2), of env' a] that s(1) unfolding sv2 settled_def
    by (auto simp: final_state_def)
  moreover have "sv_sessions sv2 = sv_sessions sv1"
    using recovery_finish_info [OF s(2)] sv2(2) by blast
  ultimately show ?thesis using sv2(1) by blast
qed

text \<open>A failed re-launch is not retried: it leaves the process over, and every later attempt for it
  does nothing and reports no error, which the recovery counts as a success.\<close>

theorem failed_respawn_not_retried:
  assumes "respawnProcessOnLord env a l sv = (Some err, sv1)" "sv_inv sv" "live (sv_processes sv) a"
  shows "final_state (pi_state (sv_info sv1 a)) \<and> respawnProcessOnLord env' a l' sv1 = (None, sv1) \<and>
    respawn_pass env' l' [a] 0 sv1 = (1, sv1)"
proof -
  have f: "final_state (pi_state (sv_info sv1 a))"
    using respawn_info(2) [OF assms(1) alloc_live [OF assms(2,3)]] by simp
  then have "respawnProcessOnLord env' a l' sv1 = (None, sv1)"
    by (simp add: respawnProcessOnLord_def Let_def final_state_def)
  then show ?thesis using f by simp
qed


text \<open>With no placeable lord in sight the recovery gives up without a trace: the candidates keep
  the state they had (RUNNING, say) on the lord that is gone; none is marked or stopped.\<close>

theorem recovery_without_lords:
  assumes "Lords_Pick (sv_lords sv) (ge_lords env) '''' = None"
    and "\<forall>a\<in>set as. respawnable (pi_state (sv_info sv a))"
  shows "recovery_alone env (maxAttempts + 1) (R_attempt l as 0) sv = (None, sv)"
  using attempts_without_lords [OF assms, of 0] by (simp add: maxAttempts_def)


text \<open>A third process on the lord \<open>L1\<close>, with one restart; it is at address 2.\<close>

definition restart_info :: process_info where
  "restart_info = (demo_info ''p3'' ''t1'' ''L1'')\<lparr>pi_max_restarts := 1\<rparr>"

definition restart_server :: server where
  "restart_server = on_processes (\<lambda>t. snd (PT_Create restart_info t)) demo_server"

lemma demo_table_next: "pt_next demo_table = 2"
  by (simp add: demo_table_def PE_UpdateState_def PT_Create_simps PT_AttachWAL_def NewProcessTable_def)

lemma restart_server_props:
  "sv_inv restart_server" "live (sv_processes restart_server) 2" "sv_info restart_server 2 = restart_info"
  "PT_Get (sv_processes restart_server) ''p3'' = Some 2"
  "sv_lords restart_server = demo_registry"
  "sv_sessions restart_server ''b'' = Some (newLordSession ''b'')"
proof -
  have id: "pi_process_id restart_info = ''p3''" "fresh_info restart_info"
    by (simp_all add: restart_info_def demo_info_def fresh_info_def valid_order_def
        resources_valid_def final_state_def zero_process_info_def)
  have none: "PT_Get demo_table (pi_process_id restart_info) = None"
    by (simp add: id PT_Get_def demo_table_def PE_UpdateState_def PT_Create_simps PT_AttachWAL_def
        NewProcessTable_def demo_info_def)
  note tbl = sv_invD(1) [OF demo_server_inv, unfolded demo_server_tables]
  note lv = live_Create [OF tbl_invD(1) [OF tbl] none]
  show "sv_inv restart_server"
    unfolding restart_server_def
    by (rule sv_inv_on_processes [OF demo_server_inv])
      (simp_all add: demo_server_tables tbl_inv_Create tbl id lv)
  show "live (sv_processes restart_server) 2"
    using lv demo_table_next by (simp add: restart_server_def demo_server_tables)
  show "sv_info restart_server 2 = restart_info"
    using demo_table_next
    by (simp add: restart_server_def sv_info_def demo_server_tables info_at_Create [OF demo_table_inv])
  show "PT_Get (sv_processes restart_server) ''p3'' = Some 2"
    using demo_table_next id
    by (simp add: restart_server_def demo_server_tables PT_Get_def PT_Create_simps)
  show "sv_lords restart_server = demo_registry"
    "sv_sessions restart_server ''b'' = Some (newLordSession ''b'')"
    by (simp_all add: restart_server_def demo_server_tables)
      (simp add: demo_server_def)
qed

lemma restart_not_over: "\<not> final_state (pi_state restart_info)" "pi_restart_count restart_info = 0"
  "pi_max_restarts restart_info = 1" "pi_lord_id restart_info = ''L1''"
  by (simp_all add: restart_info_def demo_info_def final_state_def zero_process_info_def)

lemma restart_respawn: "\<exists>sv'. respawnProcessOnLord demo_env 2 ''b'' restart_server = (None, sv')"
proof -
  obtain r sv' where r: "respawnProcessOnLord demo_env 2 ''b'' restart_server = (r, sv')" by fastforce
  from r have "r = None"
  proof (cases rule: respawn_cases)
    case (limit msg)
    then show ?thesis by (simp add: restart_server_props restart_not_over)
  next
    case (failed sv2 err)
    have "sv_sessions sv2 ''b'' = Some (newLordSession ''b'')"
      using failed(2) restart_server_props(6) by simp
    then show ?thesis
      using failed(3)
      by (simp add: SendSpawn_def getSession_def outbox_send5_room newLordSession_def outbox_cap_def)
  qed simp_all
  then show ?thesis using r by blast
qed

theorem respawn_success_witness:
  "\<exists>sv' s evs. respawnProcessOnLord demo_env 2 ''b'' restart_server = (None, sv') \<and>
     pi_lord_id (sv_info sv' 2) = ''b'' \<and> pi_restart_count (sv_info sv' 2) = 1 \<and>
     sv_sessions sv' ''b'' = Some s \<and> ls_outbox s = evs @ [Ev_Spawn (respawn_request restart_info)]"
proof -
  obtain sv' where r: "respawnProcessOnLord demo_env 2 ''b'' restart_server = (None, sv')"
    using restart_respawn by blast
  have "\<not> final_state (pi_state (sv_info restart_server 2))"
    by (simp add: restart_server_props restart_not_over)
  from respawn_success [OF r restart_server_props(1,2) this] r show ?thesis
    by (auto simp: Let_def restart_server_props(3) restart_not_over)
qed

text \<open>The same process on its only restart.\<close>

definition spent_server :: server where
  "spent_server = upd_info 2 (pi_relaunch ''b'')
     (UpdateState demo_env 2 PROCESS_STATE_RESTARTING '''' 0 restart_server)"

lemma spent_server_props:
  "sv_inv spent_server" "live (sv_processes spent_server) 2"
  "sv_info spent_server 2 = relaunched (ge_now demo_env) ''b'' restart_info"
proof -
  show "sv_inv spent_server"
    unfolding spent_server_def
    by (intro sv_inv_upd_info sv_inv_UpdateState restart_server_props unlogged_relaunch)
  show "live (sv_processes spent_server) 2"
    using restart_server_props(2) by (simp add: spent_server_def)
  show "sv_info spent_server 2 = relaunched (ge_now demo_env) ''b'' restart_info"
    using alloc_live [OF restart_server_props(1,2)]
    by (simp add: spent_server_def sv_info_ops relaunched_def restart_server_props(3))
qed

theorem respawn_limit_witness:
  "\<exists>err sv'. respawnProcessOnLord demo_env 2 ''a'' spent_server = (Some err, sv') \<and>
     pi_exit_code (sv_info sv' 2) = - 4"
  using respawn_limit [OF spent_server_props(1,2), where env = demo_env and l = "''a''"]
  by (auto simp: spent_server_props(3) restart_not_over final_state_def)

lemma demo_pick_any: "Lords_Pick demo_registry [''a'', ''b''] '''' = Some (demo_lord ''b'' 20)"
  by code_simp

theorem recovery_stops_what_it_restarts_witness:
  "\<exists>sv1 nxt sv2 evs s.
     recovery_step demo_env (R_attempt ''L1'' [2] 0) restart_server = (Some (R_finish ''L1'' [2]), sv1) \<and>
     pi_state (sv_info sv1 2) = PROCESS_STATE_RESTARTING \<and>
     sv_sessions sv1 ''b'' = Some s \<and> ls_outbox s = evs @ [Ev_Spawn (respawn_request restart_info)] \<and>
     recovery_step demo_env (R_finish ''L1'' [2]) sv1 = (nxt, sv2) \<and>
     pi_exit_code (sv_info sv2 2) = - 5 \<and> sv_sessions sv2 = sv_sessions sv1"
proof -
  obtain sv1 where r: "respawnProcessOnLord demo_env 2 ''b'' restart_server = (None, sv1)"
    using restart_respawn by blast
  have ks: "ge_lords demo_env = [''a'', ''b'']" by (simp add: demo_env_def)
  have pick: "Lords_Pick (sv_lords restart_server) (ge_lords demo_env) '''' = Some (demo_lord ''b'' 20)"
    unfolding restart_server_props(5) ks by (rule demo_pick_any)
  have "l_lord_id (demo_lord ''b'' 20) = ''b''" by (simp add: demo_lord_def)
  then have st: "recovery_step demo_env (R_attempt ''L1'' [2] 0) restart_server =
      (Some (R_finish ''L1'' [2]), sv1)"
    by (simp add: recovery_attempt_def pick r)
  obtain nxt sv2 where fin: "recovery_step demo_env (R_finish ''L1'' [2]) sv1 = (nxt, sv2)"
    by fastforce
  have lv: "\<forall>a\<in>set [2]. live (sv_processes restart_server) a"
    using restart_server_props(2) by simp
  have "\<not> final_state (pi_state (sv_info restart_server 2))"
    by (simp add: restart_server_props restart_not_over)
  note s = respawn_success [OF r restart_server_props(1,2) this]
  from recovery_stops_what_it_restarts [OF restart_server_props(1) lv pick st fin] s st fin
  show ?thesis unfolding restart_server_props(3) Let_def by auto
qed

theorem failed_respawn_not_retried_witness:
  "\<exists>err sv1. respawnProcessOnLord demo_env 2 ''zzz'' restart_server = (Some err, sv1) \<and>
     respawnProcessOnLord demo_env 2 ''b'' sv1 = (None, sv1)"
proof -
  obtain r sv1 where r: "respawnProcessOnLord demo_env 2 ''zzz'' restart_server = (r, sv1)"
    by fastforce
  from r have "\<exists>err. r = Some err"
  proof (cases rule: respawn_cases)
    case final
    then show ?thesis by (simp add: restart_server_props restart_not_over)
  next
    case (sent sv2 sv3)
    have "sv_sessions sv2 ''zzz'' = None"
      using sent(3) by (simp add: restart_server_def demo_server_def NewServer_def)
    then show ?thesis using sent(4) by (simp add: SendSpawn_def getSession_def)
  qed simp_all
  then obtain err where "respawnProcessOnLord demo_env 2 ''zzz'' restart_server = (Some err, sv1)"
    using r by blast
  with failed_respawn_not_retried [OF this restart_server_props(1,2)] show ?thesis by blast
qed


theorem recovery_without_lords_witness:
  "recovery_alone demo_env (maxAttempts + 1) (R_attempt ''L1'' [2] 0)
     (on_lords (\<lambda>r. NewLordRegistry ''weighted'') restart_server) =
   (None, on_lords (\<lambda>r. NewLordRegistry ''weighted'') restart_server)"
proof (rule recovery_without_lords)
  show "Lords_Pick (sv_lords (on_lords (\<lambda>r. NewLordRegistry ''weighted'') restart_server))
      (ge_lords demo_env) '''' = None"
    by (simp add: Lords_Pick_def NewLordRegistry_def go_values_def Let_def demo_env_def)
  have "sv_info (on_lords (\<lambda>r. NewLordRegistry ''weighted'') restart_server) 2 = restart_info"
    using restart_server_props(3) by (simp add: sv_info_def)
  then show "\<forall>a\<in>set [2]. respawnable (pi_state (sv_info
      (on_lords (\<lambda>r. NewLordRegistry ''weighted'') restart_server) a))"
    by (simp add: respawnable_def restart_info_def demo_info_def)
qed



end
