(* ===== verification/Go_Text.thy ===== *)
theory Go_Text
  imports Prelude "HOL-Library.Char_ord"
begin

section \<open>Reading numbers from text (packages strconv and strings)\<close>

text \<open>
  What the program uses of the two packages to read the files of the cgroup file system: decimal
  numbers, trimming, splitting. The files are ASCII, and so is the notion of white space. The
  lemmas show that the parser reads back every number that can be written down.
\<close>

subsection \<open>Decimal numbers\<close>

definition maxUint64 :: nat where
  "maxUint64 = 2 ^ 64 - 1"

definition digit_val :: "char \<Rightarrow> nat option" where
  "digit_val c = (if CHR ''0'' \<le> c \<and> c \<le> CHR ''9'' then Some (of_char c - 48) else None)"

text \<open>
  The loop of \<open>ParseUint(s, 10, 64)\<close>: the value, and whether there was an error. A character that
  is no digit gives 0, an overflow gives the largest value, whichever comes first.
\<close>

fun parse_uint_loop :: "nat \<Rightarrow> string \<Rightarrow> nat \<times> bool" where
  "parse_uint_loop n [] = (n, False)"
| "parse_uint_loop n (c # cs) =
     (case digit_val c of
        None \<Rightarrow> (0, True)
      | Some d \<Rightarrow>
          if maxUint64 div 10 + 1 \<le> n then (maxUint64, True)
          else if maxUint64 < n * 10 + d then (maxUint64, True)
          else parse_uint_loop (n * 10 + d) cs)"

definition ParseUint :: "string \<Rightarrow> nat \<times> bool" where
  "ParseUint s = (if s = '''' then (0, True) else parse_uint_loop 0 s)"

subsection \<open>White space, fields and lines\<close>

definition is_space :: "char \<Rightarrow> bool" where
  "is_space c \<longleftrightarrow> c = CHR '' '' \<or> (CHR 0x09 \<le> c \<and> c \<le> CHR 0x0D)"

definition TrimSpace :: "string \<Rightarrow> string" where
  "TrimSpace s = rev (dropWhile is_space (rev (dropWhile is_space s)))"

definition HasPrefix :: "string \<Rightarrow> string \<Rightarrow> bool" where
  "HasPrefix s p \<longleftrightarrow> take (length p) s = p"

text \<open>\<open>Split\<close> at a one-character separator: always at least one piece.\<close>

fun split_at_char :: "char \<Rightarrow> string \<Rightarrow> string \<Rightarrow> string list" where
  "split_at_char sep acc [] = [rev acc]"
| "split_at_char sep acc (c # cs) =
     (if c = sep then rev acc # split_at_char sep [] cs else split_at_char sep (c # acc) cs)"

definition Split :: "string \<Rightarrow> char \<Rightarrow> string list" where
  "Split s sep = split_at_char sep [] s"

text \<open>\<open>Fields\<close>: the maximal runs of characters that are no white space.\<close>

fun fields_loop :: "string \<Rightarrow> string \<Rightarrow> string list" where
  "fields_loop acc [] = (if acc = [] then [] else [rev acc])"
| "fields_loop acc (c # cs) =
     (if is_space c then (if acc = [] then fields_loop [] cs else rev acc # fields_loop [] cs)
      else fields_loop (c # acc) cs)"

definition Fields :: "string \<Rightarrow> string list" where
  "Fields s = fields_loop [] s"

subsection \<open>Reading back what was written\<close>

lemma parse_uint_loop_bounded: "n \<le> maxUint64 \<Longrightarrow> fst (parse_uint_loop n s) \<le> maxUint64"
  by (induction n s rule: parse_uint_loop.induct) (auto split: option.split)

lemma ParseUint_bounded: "fst (ParseUint s) \<le> maxUint64"
  by (simp add: ParseUint_def parse_uint_loop_bounded)

lemma concat_split_at_char:
  "concat (split_at_char sep acc s) = rev acc @ filter (\<lambda>c. c \<noteq> sep) s"
  by (induction sep acc s rule: split_at_char.induct) auto

lemma TrimSpace_no_space:
  assumes "\<forall>c\<in>set s. \<not> is_space c" "\<forall>c\<in>set t. is_space c"
  shows "TrimSpace (s @ t) = s"
proof (cases s)
  case Nil
  have "dropWhile is_space t = []"
    using assms(2) by (simp only: dropWhile_eq_Nil_conv)
  then show ?thesis unfolding TrimSpace_def Nil append_Nil by (simp only: rev.simps dropWhile.simps)
next
  case (Cons c cs)
  then have 1: "dropWhile is_space (s @ t) = s @ t" using assms(1) by simp
  obtain b bs where b: "rev s = b # bs" using Cons by (cases "rev s") auto
  then have "b \<in> set s" by (metis list.set_intros(1) set_rev)
  then have "dropWhile is_space (rev s) = rev s" using assms(1) b by simp
  then have "dropWhile is_space (rev t @ rev s) = rev s"
    using assms(2) by (simp add: dropWhile_append)
  then show ?thesis unfolding TrimSpace_def 1 by simp
qed

lemma parse_uint_loop_append:
  "parse_uint_loop m (xs @ ys) =
     (case parse_uint_loop m xs of (k, bad) \<Rightarrow> if bad then (k, True) else parse_uint_loop k ys)"
  by (induction m xs rule: parse_uint_loop.induct) (auto split: option.split)

lemma digit_val_char: "d < 10 \<Longrightarrow> digit_val (char_of (48 + d)) = Some d"
proof -
  assume "d < 10"
  then have "d \<in> {0, 1, 2, 3, 4, 5, 6, 7, 8, 9}" by auto
  then show ?thesis by (elim insertE emptyE) (simp_all add: digit_val_def less_eq_char_def)
qed

lemma parse_uint_show: "n \<le> maxUint64 \<Longrightarrow> parse_uint_loop 0 (show_nat n) = (n, False)"
proof (induction n rule: show_nat.induct)
  case (1 n)
  show ?case
  proof (cases "n < 10")
    case True
    then have "show_nat n = [char_of (48 + n)]" by (subst show_nat.simps) simp
    then show ?thesis using 1(2) True by (simp add: digit_val_char)
  next
    case False
    have s: "show_nat n = show_nat (n div 10) @ [char_of (48 + n mod 10)]"
      using False by (subst show_nat.simps) simp
    have "n div 10 \<le> maxUint64" using 1(2) by linarith
    then have IH: "parse_uint_loop 0 (show_nat (n div 10)) = (n div 10, False)"
      using 1(1) [OF False] by simp
    have "n div 10 < maxUint64 div 10 + 1" using div_le_mono [OF 1(2), of 10] by simp
    moreover have "n div 10 * 10 + n mod 10 = n" by simp
    ultimately show ?thesis
      using 1(2) unfolding s parse_uint_loop_append IH by (simp add: digit_val_char)
  qed
qed

lemma ParseUint_show_nat: "n \<le> maxUint64 \<Longrightarrow> ParseUint (show_nat n) = (n, False)"
  by (simp add: ParseUint_def show_nat_nonempty parse_uint_show)

lemma show_nat_digits: "c \<in> set (show_nat n) \<Longrightarrow> \<exists>d<10. c = char_of (48 + d :: nat)"
proof (induction n rule: show_nat.induct)
  case (1 n)
  show ?case
  proof (cases "n < 10")
    case True
    then have "show_nat n = [char_of (48 + n)]" by (subst show_nat.simps) simp
    then show ?thesis using 1(2) True by auto
  next
    case False
    then have "show_nat n = show_nat (n div 10) @ [char_of (48 + n mod 10)]"
      by (subst show_nat.simps) simp
    then have "c \<in> set (show_nat (n div 10)) \<or> c = char_of (48 + n mod 10)" using 1(2) by auto
    then show ?thesis
    proof
      assume "c = char_of (48 + n mod 10)"
      then show ?thesis by (intro exI [of _ "n mod 10"]) simp
    qed (rule 1(1) [OF False])
  qed
qed

lemma is_space_code: "is_space c \<longleftrightarrow> of_char c = (32 :: nat) \<or> (9 \<le> (of_char c :: nat) \<and> of_char c \<le> (13 :: nat))"
proof -
  have "c = CHR '' '' \<longleftrightarrow> of_char c = (of_char (CHR '' '') :: nat)" by (simp only: of_char_eq_iff)
  then have "c = CHR '' '' \<longleftrightarrow> of_char c = (32 :: nat)" by simp
  then show ?thesis by (simp add: is_space_def less_eq_char_def)
qed

lemma digit_not_space: "d < 10 \<Longrightarrow> \<not> is_space (char_of (48 + d :: nat))"
  by (simp add: is_space_code)

lemma show_nat_no_space: "c \<in> set (show_nat n) \<Longrightarrow> \<not> is_space c"
  using show_nat_digits digit_not_space by blast

text \<open>A number on a line of its own, as the kernel writes it.\<close>

lemma ParseUint_TrimSpace:
  "n \<le> maxUint64 \<Longrightarrow> ParseUint (TrimSpace (show_nat n @ [CHR 0x0A])) = (n, False)"
  by (subst TrimSpace_no_space)
    (auto dest: show_nat_no_space simp: ParseUint_show_nat simp flip: is_space_code, simp add: is_space_code)

subsection \<open>The lines of a statistics file\<close>

lemma split_at_char_piece:
  "sep \<notin> set s \<Longrightarrow> split_at_char sep acc (s @ sep # t) = (rev acc @ s) # Split t sep"
  by (induction s arbitrary: acc) (auto simp: Split_def)

lemma fields_loop_piece:
  "\<forall>c\<in>set s. \<not> is_space c \<Longrightarrow> is_space sp \<Longrightarrow> rev acc @ s \<noteq> [] \<Longrightarrow>
     fields_loop acc (s @ sp # t) = (rev acc @ s) # fields_loop [] t"
  by (induction s arbitrary: acc) simp_all

lemma fields_loop_last:
  "\<forall>c\<in>set s. \<not> is_space c \<Longrightarrow> rev acc @ s \<noteq> [] \<Longrightarrow> fields_loop acc s = [rev acc @ s]"
  by (induction s arbitrary: acc) simp_all

lemma Fields_pair:
  assumes "\<forall>c\<in>set s. \<not> is_space c" "s \<noteq> []" "\<forall>c\<in>set t. \<not> is_space c" "t \<noteq> []"
  shows "Fields (s @ CHR '' '' # t) = [s, t]"
proof -
  have "is_space (CHR '' '')" by (simp add: is_space_def)
  then show ?thesis
    using fields_loop_piece [of s "CHR '' ''" "[]" t] fields_loop_last [of t "[]"] assms
    by (simp add: Fields_def)
qed

end
