(* ===== verification/Autoscale.thy ===== *)
theory Autoscale
  imports Recovery Go_Text "HOL-Library.Multiset"
begin

section \<open>The autoscaler (autoscale.go)\<close>

text \<open>
  On every tick the autoscaler samples the lords (cgroup files, reject counters of the kernel
  scheduler, registry), decides (blacklist, migrate off overloaded lords, rebalance) and applies
  its decisions as migrations. What it reads from outside is the record \<open>as_env\<close>: the contents of
  files, the entries of the pinned map of counters, the clock, and the orders of map iterations.
\<close>

subsection \<open>Configuration and state\<close>

record score_weights =
  sw_CPU :: f64
  sw_Mem :: f64
  sw_TaskCount :: f64
  sw_Reject :: f64
  sw_Hysteresis :: f64

record thresholds =
  th_OverloadCPU :: f64
  th_RebalanceDelta :: f64
  th_BlacklistReject :: f64
  th_BlacklistDuration :: duration
  th_DeadGrace :: duration

record autoscale_config =
  ac_Enabled :: bool
  ac_Interval :: duration
  ac_Cooldown :: duration
  ac_MaxPerMin :: int
  ac_Score :: score_weights
  ac_Thresh :: thresholds

record lord_score =
  sc_LordID :: string
  sc_Hostname :: string
  sc_CPU :: f64
  sc_Mem :: f64
  sc_TaskCount :: f64
  sc_Reject :: f64
  sc_Combined :: f64
  sc_BlacklistUntil :: time
  sc_LastMigration :: time

text \<open>The reason of a decision is the text it is logged with; its arguments are kept instead.\<close>

datatype reason =
    Reject_rate f64 f64 duration | Overload_cpu f64 f64 | Score_delta f64 f64

record decision =
  d_Action :: string
  d_FromLord :: string
  d_ToLord :: string
  d_Reason :: reason

text \<open>The scores are shared by pointer between the map and the sorted slice: a pointer is the key.\<close>

type_synonym score_map = "string \<Rightarrow> lord_score option"

record autoscale_state =
  as_lords :: score_map
  as_migrations :: "time list"
  as_migrationLog :: "decision list"

definition NewAutoscaleState :: autoscale_state where
  "NewAutoscaleState = \<lparr>as_lords = Map.empty, as_migrations = [], as_migrationLog = []\<rparr>"

record lord_stat =
  st_SelectCPU :: u64
  st_Enqueue :: u64
  st_Dispatch :: u64
  st_Reject :: u64

record as_env =
  ae_now :: time
  ae_files :: "string \<Rightarrow> string option"              \<comment> \<open>\<open>os.ReadFile\<close>\<close>
  ae_stats :: "(u32 \<times> lord_stat) list option"        \<comment> \<open>iterating the pinned map; None: not there\<close>
  ae_lords :: "string list"                         \<comment> \<open>iteration over the registry\<close>
  ae_scores :: "string list"                        \<comment> \<open>iteration over the scores\<close>

subsection \<open>Reading the metrics\<close>

definition float_of_u64 :: "nat \<Rightarrow> f64" where
  "float_of_u64 n = f64_of_int (int n)"

definition cgroup_path :: "string \<Rightarrow> string \<Rightarrow> string" where
  "cgroup_path lordID f = ''/sys/fs/cgroup/etronium/'' @ lordID @ ''/'' @ f"

fun cpu_stat_loop :: "string list \<Rightarrow> f64" where
  "cpu_stat_loop [] = 0"
| "cpu_stat_loop (line # ls) =
     (if HasPrefix line ''usage_usec '' then
        (let fields = Fields line in
         if 2 \<le> length fields
         then float_of_u64 (fst (ParseUint (fields ! 1))) / f64_lit 1000000
         else cpu_stat_loop ls)
      else cpu_stat_loop ls)"

definition readLordCPU :: "(string \<Rightarrow> string option) \<Rightarrow> string \<Rightarrow> f64" where
  "readLordCPU readFile lordID =
     (case readFile (cgroup_path lordID ''cpu.usage_usec'') of
        Some data \<Rightarrow> float_of_u64 (fst (ParseUint (TrimSpace data))) / f64_lit 1000000
      | None \<Rightarrow>
          (case readFile (cgroup_path lordID ''cpu.stat'') of
             None \<Rightarrow> 0
           | Some data \<Rightarrow> cpu_stat_loop (Split data (CHR 0x0A))))"

definition readLordMem :: "(string \<Rightarrow> string option) \<Rightarrow> string \<Rightarrow> f64" where
  "readLordMem readFile lordID =
     (case readFile (cgroup_path lordID ''memory.current'') of
        None \<Rightarrow> 0
      | Some cur \<Rightarrow>
          (case readFile (cgroup_path lordID ''memory.max'') of
             None \<Rightarrow> 0
           | Some limit \<Rightarrow>
               (let curVal = fst (ParseUint (TrimSpace cur));
                    maxStr = TrimSpace limit in
                if maxStr = ''max'' then f64_lit (1 / 10)
                else (let maxVal = fst (ParseUint maxStr) in
                      if maxVal = 0 then 0
                      else (let ratio = float_of_u64 curVal / float_of_u64 maxVal in
                            if 1 < ratio then 1 else ratio)))))"

text \<open>The four bytes of the number as a string, least significant first.\<close>

definition lordIDFromUint32 :: "u32 \<Rightarrow> string" where
  "lordIDFromUint32 k = map (\<lambda>i. char_of (unat (drop_bit (8 * i) k) mod 256)) [0, 1, 2, 3]"

fun reject_loop :: "(u32 \<times> lord_stat) list \<Rightarrow> (string \<Rightarrow> f64 option) \<Rightarrow> string \<Rightarrow> f64 option" where
  "reject_loop [] out = out"
| "reject_loop ((key, val) # rest) out =
     (let denom = (if st_Enqueue val = 0 then 1 else st_Enqueue val) in
      reject_loop rest (out(lordIDFromUint32 key \<mapsto>
        float_of_u64 (unat (st_Reject val)) / float_of_u64 (unat denom))))"

text \<open>None when the map cannot be opened.\<close>

definition readBPFRejectRates :: "(u32 \<times> lord_stat) list option \<Rightarrow> (string \<Rightarrow> f64 option) option" where
  "readBPFRejectRates stats = map_option (\<lambda>es. reject_loop es Map.empty) stats"

subsection \<open>Sampling\<close>

definition task_ratio :: "lord \<Rightarrow> f64" where
  "task_ratio info =
     (let c1 = f64_of_int (sint (l_advertised_cpu_shares info));
          c2 = (if c1 \<le> 0 then f64_of_int (sint (l_cpu_cores_physical info)) else c1);
          c3 = (if c2 \<le> 0 then 1 else c2);
          r = f64_of_int (sint (l_active_processes info)) / c3
      in if 1 < r then 1 else r)"

definition sample_lord ::
  "as_env \<Rightarrow> autoscale_config \<Rightarrow> (string \<Rightarrow> f64 option) \<Rightarrow> score_map \<Rightarrow> lord \<Rightarrow> lord_score" where
  "sample_lord env cfg rejectRates prevScores info =
     (let lid = l_lord_id info;
          cpuRatio = readLordCPU (ae_files env) lid;
          memRatio = readLordMem (ae_files env) lid;
          taskRatio = task_ratio info;
          prev = prevScores lid;
          rate = (case rejectRates lid of Some r \<Rightarrow> r | None \<Rightarrow> 0);
          rejectRate = (case prev of
              Some p \<Rightarrow> if 0 < sc_Reject p then f64_lit (7 / 10) * rate + f64_lit (3 / 10) * sc_Reject p
                        else rate
            | None \<Rightarrow> rate);
          w = ac_Score cfg;
          score = ((sw_CPU w * cpuRatio + sw_Mem w * memRatio) + sw_TaskCount w * taskRatio)
                    + sw_Reject w * rejectRate
      in \<lparr>sc_LordID = lid, sc_Hostname = l_hostname info, sc_CPU = cpuRatio, sc_Mem = memRatio,
          sc_TaskCount = taskRatio, sc_Reject = rejectRate, sc_Combined = score,
          sc_BlacklistUntil = (case prev of Some p \<Rightarrow> sc_BlacklistUntil p | None \<Rightarrow> 0),
          sc_LastMigration = (case prev of Some p \<Rightarrow> sc_LastMigration p | None \<Rightarrow> 0)\<rparr>)"

fun sample_loop ::
  "as_env \<Rightarrow> autoscale_config \<Rightarrow> (string \<Rightarrow> f64 option) \<Rightarrow> score_map \<Rightarrow> lord_entry list \<Rightarrow>
   score_map \<Rightarrow> score_map" where
  "sample_loop env cfg rates prev [] liveScores = liveScores"
| "sample_loop env cfg rates prev (e # es) liveScores =
     sample_loop env cfg rates prev es
       (liveScores(l_lord_id (le_info e) \<mapsto> sample_lord env cfg rates prev (le_info e)))"

text \<open>A lord whose heartbeat is too old is logged, and nothing else.\<close>

definition Sample ::
  "as_env \<Rightarrow> autoscale_config \<Rightarrow> server \<Rightarrow> autoscale_state \<Rightarrow> autoscale_state" where
  "Sample env cfg sv a =
     (let rates = (case readBPFRejectRates (ae_stats env) of Some r \<Rightarrow> r | None \<Rightarrow> Map.empty) in
      a\<lparr>as_lords := sample_loop env cfg rates (as_lords a)
          (go_values (lr_byID (sv_lords sv)) (ae_lords env)) Map.empty\<rparr>)"

subsection \<open>Deciding\<close>

definition pruneMigrations :: "time \<Rightarrow> time list \<Rightarrow> time list" where
  "pruneMigrations now ms = filter (\<lambda>t. time_After t (now - Minute)) ms"

text \<open>
  \<open>sort.Slice\<close>: an insertion sort, which for slices of at most twelve elements is what the library
  runs. The slice comes from a map iteration, so that on more elements every order the library may
  give to equal elements is the insertion sort of some iteration order (NaN apart).
\<close>

fun sift :: "('a \<Rightarrow> 'a \<Rightarrow> bool) \<Rightarrow> 'a \<Rightarrow> 'a list \<Rightarrow> 'a list" where
  "sift lt x [] = [x]"
| "sift lt x (y # ys) = (if lt x y then y # sift lt x ys else x # y # ys)"

definition sort_Slice :: "('a \<Rightarrow> 'a \<Rightarrow> bool) \<Rightarrow> 'a list \<Rightarrow> 'a list" where
  "sort_Slice lt xs = rev (fold (sift lt) xs [])"

definition zero_score :: lord_score where
  "zero_score = \<lparr>sc_LordID = '''', sc_Hostname = '''', sc_CPU = 0, sc_Mem = 0, sc_TaskCount = 0,
     sc_Reject = 0, sc_Combined = 0, sc_BlacklistUntil = 0, sc_LastMigration = 0\<rparr>"

definition score_at :: "score_map \<Rightarrow> string \<Rightarrow> lord_score" where
  "score_at m k = (case m k of Some sc \<Rightarrow> sc | None \<Rightarrow> zero_score)"

definition by_score :: "score_map \<Rightarrow> string list \<Rightarrow> string list" where
  "by_score m ks = sort_Slice (\<lambda>i j. sc_Combined (score_at m i) < sc_Combined (score_at m j))
     (map fst (go_range m ks))"

fun blacklist_loop ::
  "autoscale_config \<Rightarrow> time \<Rightarrow> string list \<Rightarrow> score_map \<Rightarrow> decision list \<Rightarrow>
   score_map \<times> decision list" where
  "blacklist_loop cfg now [] m ds = (m, ds)"
| "blacklist_loop cfg now (k # ks) m ds =
     (let sc = score_at m k; th = ac_Thresh cfg in
      if th_BlacklistReject th < sc_Reject sc \<and> time_Before (sc_BlacklistUntil sc) now
      then blacklist_loop cfg now ks
             (m(k \<mapsto> sc\<lparr>sc_BlacklistUntil := now + th_BlacklistDuration th\<rparr>))
             (ds @ [\<lparr>d_Action = ''blacklist'', d_FromLord = sc_LordID sc, d_ToLord = '''',
                     d_Reason = Reject_rate (sc_Reject sc) (th_BlacklistReject th)
                       (th_BlacklistDuration th)\<rparr>])
      else blacklist_loop cfg now ks m ds)"

text \<open>The hysteresis is an argument that the code does not use.\<close>

fun pickColdest_loop :: "score_map \<Rightarrow> string list \<Rightarrow> string \<Rightarrow> time \<Rightarrow> string" where
  "pickColdest_loop m [] fromLord now = ''''"
| "pickColdest_loop m (k # ks) fromLord now =
     (let sc = score_at m k in
      if sc_LordID sc = fromLord then pickColdest_loop m ks fromLord now
      else if time_After (sc_BlacklistUntil sc) now then pickColdest_loop m ks fromLord now
      else sc_LordID sc)"

definition pickColdest ::
  "score_map \<Rightarrow> string list \<Rightarrow> string \<Rightarrow> time \<Rightarrow> f64 \<Rightarrow> string" where
  "pickColdest m byScore fromLord now hysteresis = pickColdest_loop m byScore fromLord now"

definition cooling :: "autoscale_config \<Rightarrow> time \<Rightarrow> lord_score \<Rightarrow> bool" where
  "cooling cfg now sc \<longleftrightarrow> \<not> time_IsZero (sc_LastMigration sc) \<and>
     time_Sub now (sc_LastMigration sc) < ac_Cooldown cfg"

fun overload_loop ::
  "autoscale_config \<Rightarrow> time \<Rightarrow> string list \<Rightarrow> string list \<Rightarrow> score_map \<Rightarrow> decision list \<Rightarrow>
   score_map \<times> decision list" where
  "overload_loop cfg now byScore [] m ds = (m, ds)"
| "overload_loop cfg now byScore (k # ks) m ds =
     (let sc = score_at m k; th = ac_Thresh cfg in
      if sc_CPU sc < th_OverloadCPU th then overload_loop cfg now byScore ks m ds
      else if cooling cfg now sc then overload_loop cfg now byScore ks m ds
      else (let target = pickColdest m byScore (sc_LordID sc) now (sw_Hysteresis (ac_Score cfg)) in
            if target = '''' then overload_loop cfg now byScore ks m ds
            else overload_loop cfg now byScore ks (m(k \<mapsto> sc\<lparr>sc_LastMigration := now\<rparr>))
                   (ds @ [\<lparr>d_Action = ''migrate'', d_FromLord = sc_LordID sc, d_ToLord = target,
                           d_Reason = Overload_cpu (sc_CPU sc) (th_OverloadCPU th)\<rparr>])))"

definition rebalance ::
  "autoscale_config \<Rightarrow> time \<Rightarrow> bool \<Rightarrow> string list \<Rightarrow> score_map \<Rightarrow> decision list \<Rightarrow>
   score_map \<times> decision list" where
  "rebalance cfg now rateLimited byScore m ds =
     (if 2 \<le> length byScore then
        (let hot = score_at m (last byScore);
             cold = score_at m (hd byScore);
             delta = sc_Combined hot - sc_Combined cold in
         if th_RebalanceDelta (ac_Thresh cfg) < delta then
           (if cooling cfg now hot then (m, ds)
            else if \<not> rateLimited then
              (m(last byScore \<mapsto> hot\<lparr>sc_LastMigration := now\<rparr>),
               ds @ [\<lparr>d_Action = ''rebalance'', d_FromLord = sc_LordID hot, d_ToLord = sc_LordID cold,
                      d_Reason = Score_delta delta (th_RebalanceDelta (ac_Thresh cfg))\<rparr>])
            else (m, ds))
         else (m, ds))
      else (m, ds))"

definition moves :: "decision \<Rightarrow> bool" where
  "moves d \<longleftrightarrow> d_Action d = ''migrate'' \<or> d_Action d = ''rebalance''"

definition Decide ::
  "as_env \<Rightarrow> autoscale_config \<Rightarrow> autoscale_state \<Rightarrow> decision list \<times> autoscale_state" where
  "Decide env cfg a =
     (let now = ae_now env;
          migrations = pruneMigrations now (as_migrations a);
          rateLimited = (ac_MaxPerMin cfg \<le> int (length migrations));
          byScore = by_score (as_lords a) (ae_scores env);
          (m1, ds1) = blacklist_loop cfg now byScore (as_lords a) [];
          (m2, ds2) = overload_loop cfg now byScore byScore m1 ds1;
          (m3, ds3) = rebalance cfg now rateLimited byScore m2 ds2;
          log = as_migrationLog a @ ds3
      in (ds3, \<lparr>as_lords = m3,
                as_migrations = migrations @ map (\<lambda>_. now) (filter moves ds3),
                as_migrationLog = (if 64 < length log then drop (length log - 64) log else log)\<rparr>))"

subsection \<open>Applying\<close>

text \<open>The process with the youngest state change on the lord, whatever its state.\<close>

definition process_age :: "time \<Rightarrow> process_info \<Rightarrow> u64" where
  "process_age now info =
     f64_to_u64 (duration_Seconds (time_Sub now
       (case pi_state_changed_at info of Some t \<Rightarrow> t | None \<Rightarrow> unixEpoch)))"

fun youngest_loop ::
  "time \<Rightarrow> process_table \<Rightarrow> string \<Rightarrow> (string \<times> nat) list \<Rightarrow> string \<Rightarrow> u64 \<Rightarrow> string" where
  "youngest_loop now t lordID [] best bestCPU = best"
| "youngest_loop now t lordID ((k, a) # es) best bestCPU =
     (if pi_lord_id (info_at t a) \<noteq> lordID then youngest_loop now t lordID es best bestCPU
      else (let age = process_age now (info_at t a) in
            if age < bestCPU then youngest_loop now t lordID es k age
            else youngest_loop now t lordID es best bestCPU))"

definition pickColdestProcessOnLord :: "go_env \<Rightarrow> server \<Rightarrow> string \<Rightarrow> string" where
  "pickColdestProcessOnLord env sv lordID =
     youngest_loop (ge_now env) (sv_processes sv) lordID
       (go_range (pt_byID (sv_processes sv)) (ge_procs env)) '''' (- 1)"

definition applyDecision :: "go_env \<Rightarrow> decision \<Rightarrow> server \<Rightarrow> go_error option \<times> server" where
  "applyDecision env d sv =
     (if d_Action d = ''migrate'' \<or> d_Action d = ''rebalance'' then
        (let pid = pickColdestProcessOnLord env sv (d_FromLord d) in
         if pid = '''' then (None, sv)
         else case Migrate env \<lparr>mr_process_id = pid, mr_target_lord_id = d_ToLord d, mr_auto = True\<rparr> sv of
                (Inl err, sv1) \<Rightarrow> (Some err, sv1)
              | (Inr _, sv1) \<Rightarrow> (None, sv1))
      else if d_Action d = ''blacklist'' then (None, sv)
      else (None, sv))"

text \<open>Each decision is applied at a time of its own; an error is logged.\<close>

fun apply_loop :: "(nat \<Rightarrow> go_env) \<Rightarrow> nat \<Rightarrow> decision list \<Rightarrow> server \<Rightarrow> server" where
  "apply_loop envs n [] sv = sv"
| "apply_loop envs n (d # ds) sv =
     apply_loop envs (n + 1) ds (snd (applyDecision (envs n) d sv))"

text \<open>One tick of the loop; \<open>Sample\<close> never fails.\<close>

definition autoscale_tick ::
  "as_env \<Rightarrow> as_env \<Rightarrow> (nat \<Rightarrow> go_env) \<Rightarrow> autoscale_config \<Rightarrow> autoscale_state \<Rightarrow> server \<Rightarrow>
   autoscale_state \<times> server" where
  "autoscale_tick env env' envs cfg a sv =
     (case Decide env' cfg (Sample env cfg sv a) of (ds, a1) \<Rightarrow> (a1, apply_loop envs 0 ds sv))"

definition StartAutoscale :: "autoscale_config \<Rightarrow> autoscale_state option" where
  "StartAutoscale cfg = (if ac_Enabled cfg then Some NewAutoscaleState else None)"

subsection \<open>Sorting\<close>

lemma mset_sift: "mset (sift lt x xs) = add_mset x (mset xs)"
  by (induction xs) auto

lemma mset_fold_sift: "mset (fold (sift lt) xs acc) = mset xs + mset acc"
  by (induction xs arbitrary: acc) (auto simp: mset_sift)

lemma mset_sort_Slice: "mset (sort_Slice lt xs) = mset xs"
  by (simp add: sort_Slice_def mset_fold_sift)

lemma set_sift: "set (sift lt x xs) = insert x (set xs)"
  by (induction xs) auto

lemma set_sort_Slice: "set (sort_Slice lt xs) = set xs"
  by (metis mset_sort_Slice set_mset_mset)

lemma distinct_sort_Slice: "distinct (sort_Slice lt xs) = distinct xs"
  by (rule mset_eq_imp_distinct_iff [OF mset_sort_Slice])

text \<open>The order of the result, for a comparison that behaves on the elements of the list.\<close>

lemma sorted_sift:
  assumes "\<And>a b. a \<in> S \<Longrightarrow> b \<in> S \<Longrightarrow> lt a b \<Longrightarrow> \<not> lt b a"
    and "\<And>a b c. a \<in> S \<Longrightarrow> b \<in> S \<Longrightarrow> c \<in> S \<Longrightarrow> \<not> lt b a \<Longrightarrow> \<not> lt c b \<Longrightarrow> \<not> lt c a"
  shows "insert x (set xs) \<subseteq> S \<Longrightarrow> sorted_wrt (\<lambda>a b. \<not> lt a b) xs \<Longrightarrow>
     sorted_wrt (\<lambda>a b. \<not> lt a b) (sift lt x xs)"
proof (induction xs)
  case (Cons y ys)
  show ?case
  proof (cases "lt x y")
    case True
    then show ?thesis using Cons assms(1) [of x y] by (simp add: set_sift)
  next
    case False
    have "\<not> lt x z" if "z \<in> set ys" for z
      using assms(2) [of z y x] that Cons.prems False by auto
    then show ?thesis using False Cons.prems by simp
  qed
qed simp

lemma sorted_sort_Slice:
  assumes "\<And>a b. a \<in> set xs \<Longrightarrow> b \<in> set xs \<Longrightarrow> lt a b \<Longrightarrow> \<not> lt b a"
    and "\<And>a b c. a \<in> set xs \<Longrightarrow> b \<in> set xs \<Longrightarrow> c \<in> set xs \<Longrightarrow>
      \<not> lt b a \<Longrightarrow> \<not> lt c b \<Longrightarrow> \<not> lt c a"
  shows "sorted_wrt (\<lambda>a b. \<not> lt b a) (sort_Slice lt xs)"
proof -
  have "sorted_wrt (\<lambda>a b. \<not> lt a b) (fold (sift lt) ys acc)"
    if "set ys \<union> set acc \<subseteq> set xs" "sorted_wrt (\<lambda>a b. \<not> lt a b) acc" for ys acc
    using that
  proof (induction ys arbitrary: acc)
    case (Cons y ys)
    have "sorted_wrt (\<lambda>a b. \<not> lt a b) (sift lt y acc)"
      by (rule sorted_sift [where S = "set xs"], rule assms(1), assumption+, rule assms(2), assumption+)
        (use Cons.prems in simp_all)
    moreover have "set ys \<union> set (sift lt y acc) \<subseteq> set xs" using Cons.prems(1) by (simp add: set_sift)
    ultimately show ?case using Cons.IH by simp
  qed simp
  from this [of xs "[]"] show ?thesis
    by (simp add: sort_Slice_def sorted_wrt_rev)
qed

subsection \<open>The sorted scores\<close>

definition scores_ok :: "score_map \<Rightarrow> bool" where
  "scores_ok m \<longleftrightarrow> (\<forall>k sc. m k = Some sc \<longrightarrow> sc_LordID sc = k \<and> k \<noteq> '''')"

lemma scores_okD: "scores_ok m \<Longrightarrow> m k = Some sc \<Longrightarrow> sc_LordID sc = k \<and> k \<noteq> ''''"
  by (simp add: scores_ok_def)

lemma score_at_Some [simp]: "m k = Some sc \<Longrightarrow> score_at m k = sc"
  by (simp add: score_at_def)

lemma score_at_upd [simp]: "score_at (m(k \<mapsto> sc)) j = (if j = k then sc else score_at m j)"
  by (simp add: score_at_def)

lemma by_score_props:
  assumes "iter_order m ks"
  shows "set (by_score m ks) = dom m" "distinct (by_score m ks)"
  using assms
  by (simp_all add: by_score_def set_sort_Slice distinct_sort_Slice map_fst_go_range_iter)
    (simp_all add: iter_order_def)

lemma by_score_sorted:
  assumes "iter_order m ks" "\<forall>k sc. m k = Some sc \<longrightarrow> sc_Combined sc \<noteq> NaN"
  shows "sorted_wrt (\<lambda>i j. \<not> sc_Combined (score_at m j) < sc_Combined (score_at m i)) (by_score m ks)"
proof -
  have nn: "sc_Combined (score_at m k) \<noteq> NaN" if "k \<in> dom m" for k using assms(2) that by auto
  have d: "set (map fst (go_range m ks)) = dom m"
    using assms(1) by (simp add: map_fst_go_range_iter) (simp add: iter_order_def)
  show ?thesis
    unfolding by_score_def
  proof (rule sorted_sort_Slice, unfold d)
    fix a b c assume "a \<in> dom m" "b \<in> dom m" "c \<in> dom m"
      "\<not> sc_Combined (score_at m b) < sc_Combined (score_at m a)"
      "\<not> sc_Combined (score_at m c) < sc_Combined (score_at m b)"
    then show "\<not> sc_Combined (score_at m c) < sc_Combined (score_at m a)"
      using f64_not_less_trans nn by blast
  qed (rule f64_less_asym)
qed

subsection \<open>The loops of a decision\<close>

definition bl_cond :: "autoscale_config \<Rightarrow> time \<Rightarrow> lord_score \<Rightarrow> bool" where
  "bl_cond cfg now sc \<longleftrightarrow> th_BlacklistReject (ac_Thresh cfg) < sc_Reject sc \<and>
     time_Before (sc_BlacklistUntil sc) now"

definition bl_upd :: "autoscale_config \<Rightarrow> time \<Rightarrow> lord_score \<Rightarrow> lord_score" where
  "bl_upd cfg now sc = sc\<lparr>sc_BlacklistUntil := now + th_BlacklistDuration (ac_Thresh cfg)\<rparr>"

definition bl_dec :: "autoscale_config \<Rightarrow> lord_score \<Rightarrow> decision" where
  "bl_dec cfg sc = \<lparr>d_Action = ''blacklist'', d_FromLord = sc_LordID sc, d_ToLord = '''',
     d_Reason = Reject_rate (sc_Reject sc) (th_BlacklistReject (ac_Thresh cfg))
       (th_BlacklistDuration (ac_Thresh cfg))\<rparr>"

lemma bl_upd_simps [simp]:
  "sc_LordID (bl_upd cfg now sc) = sc_LordID sc" "sc_Combined (bl_upd cfg now sc) = sc_Combined sc"
  "sc_CPU (bl_upd cfg now sc) = sc_CPU sc" "sc_Reject (bl_upd cfg now sc) = sc_Reject sc"
  "sc_LastMigration (bl_upd cfg now sc) = sc_LastMigration sc"
  by (simp_all add: bl_upd_def)

lemma blacklist_loop_Cons:
  "blacklist_loop cfg now (k # ks) m ds =
     (if bl_cond cfg now (score_at m k)
      then blacklist_loop cfg now ks (m(k \<mapsto> bl_upd cfg now (score_at m k)))
             (ds @ [bl_dec cfg (score_at m k)])
      else blacklist_loop cfg now ks m ds)"
  by (simp add: Let_def bl_cond_def bl_upd_def bl_dec_def)

declare blacklist_loop.simps(2) [simp del]

definition bl_map :: "autoscale_config \<Rightarrow> time \<Rightarrow> score_map \<Rightarrow> score_map" where
  "bl_map cfg now m = (\<lambda>k. map_option (\<lambda>sc. if bl_cond cfg now sc then bl_upd cfg now sc else sc) (m k))"

lemma blacklist_loop_map:
  "distinct ks \<Longrightarrow> set ks \<subseteq> dom m \<Longrightarrow>
     fst (blacklist_loop cfg now ks m ds) j = (if j \<in> set ks then bl_map cfg now m j else m j)"
proof (induction ks arbitrary: m ds)
  case (Cons k ks)
  obtain sc where sc: "m k = Some sc" using Cons.prems(2) by auto
  show ?case
  proof (cases "bl_cond cfg now sc")
    case True
    obtain m' where m': "m' = m(k \<mapsto> bl_upd cfg now sc)" by simp
    have "set ks \<subseteq> dom m'" using Cons.prems(2) m' by auto
    then have IH: "fst (blacklist_loop cfg now ks m' (ds @ [bl_dec cfg sc])) j =
        (if j \<in> set ks then bl_map cfg now m' j else m' j)"
      using Cons.prems(1) by (intro Cons.IH) simp_all
    have "blacklist_loop cfg now (k # ks) m ds = blacklist_loop cfg now ks m' (ds @ [bl_dec cfg sc])"
      using True sc m' by (simp add: blacklist_loop_Cons)
    then have "fst (blacklist_loop cfg now (k # ks) m ds) j =
        (if j \<in> set ks then bl_map cfg now m' j else m' j)" using IH by simp
    also have "\<dots> = (if j \<in> set (k # ks) then bl_map cfg now m j else m j)"
      using Cons.prems(1) sc True m' by (simp add: bl_map_def)
    finally show ?thesis .
  next
    case False
    from Cons.IH [of m ds] show ?thesis
      using Cons.prems sc False by (simp add: blacklist_loop_Cons bl_map_def)
  qed
qed simp

lemma blacklist_loop_decisions:
  "d \<in> set (snd (blacklist_loop cfg now ks m ds)) \<Longrightarrow> d \<in> set ds \<or> d_Action d = ''blacklist''"
proof (induction ks arbitrary: m ds)
  case (Cons k ks)
  show ?case
  proof (cases "bl_cond cfg now (score_at m k)")
    case True
    have "d \<in> set (ds @ [bl_dec cfg (score_at m k)]) \<or> d_Action d = ''blacklist''"
      using Cons.prems unfolding blacklist_loop_Cons if_P [OF True] by (rule Cons.IH)
    then show ?thesis by (auto simp: bl_dec_def)
  next
    case False
    show ?thesis
      using Cons.prems unfolding blacklist_loop_Cons if_not_P [OF False] by (rule Cons.IH)
  qed
qed simp

lemma blacklist_loop_quiet:
  "\<forall>k\<in>set ks. \<not> bl_cond cfg now (score_at m k) \<Longrightarrow> blacklist_loop cfg now ks m ds = (m, ds)"
  by (induction ks) (simp_all add: blacklist_loop_Cons)

definition same_lists :: "score_map \<Rightarrow> score_map \<Rightarrow> bool" where
  "same_lists m m' \<longleftrightarrow> (\<forall>k. sc_LordID (score_at m' k) = sc_LordID (score_at m k) \<and>
     sc_BlacklistUntil (score_at m' k) = sc_BlacklistUntil (score_at m k))"

lemma pickColdest_cong: "same_lists m m' \<Longrightarrow> pickColdest m' ks l now h = pickColdest m ks l now h"
proof -
  assume "same_lists m m'"
  then have "pickColdest_loop m' ks l now = pickColdest_loop m ks l now"
    by (induction ks) (simp_all add: same_lists_def Let_def)
  then show ?thesis by (simp add: pickColdest_def)
qed

definition coldest :: "autoscale_config \<Rightarrow> time \<Rightarrow> string list \<Rightarrow> score_map \<Rightarrow> string \<Rightarrow> string" where
  "coldest cfg now bs m k =
     pickColdest m bs (sc_LordID (score_at m k)) now (sw_Hysteresis (ac_Score cfg))"

definition ol_cond :: "autoscale_config \<Rightarrow> time \<Rightarrow> string list \<Rightarrow> score_map \<Rightarrow> string \<Rightarrow> bool" where
  "ol_cond cfg now bs m k \<longleftrightarrow> \<not> sc_CPU (score_at m k) < th_OverloadCPU (ac_Thresh cfg) \<and>
     \<not> cooling cfg now (score_at m k) \<and> coldest cfg now bs m k \<noteq> ''''"

definition mig_upd :: "time \<Rightarrow> lord_score \<Rightarrow> lord_score" where
  "mig_upd now sc = sc\<lparr>sc_LastMigration := now\<rparr>"

definition ol_dec :: "autoscale_config \<Rightarrow> time \<Rightarrow> string list \<Rightarrow> score_map \<Rightarrow> string \<Rightarrow> decision" where
  "ol_dec cfg now bs m k = \<lparr>d_Action = ''migrate'', d_FromLord = sc_LordID (score_at m k),
     d_ToLord = coldest cfg now bs m k,
     d_Reason = Overload_cpu (sc_CPU (score_at m k)) (th_OverloadCPU (ac_Thresh cfg))\<rparr>"

lemma mig_upd_simps [simp]:
  "sc_LordID (mig_upd now sc) = sc_LordID sc" "sc_Combined (mig_upd now sc) = sc_Combined sc"
  "sc_CPU (mig_upd now sc) = sc_CPU sc" "sc_Reject (mig_upd now sc) = sc_Reject sc"
  "sc_LastMigration (mig_upd now sc) = now"
  "sc_BlacklistUntil (mig_upd now sc) = sc_BlacklistUntil sc"
  by (simp_all add: mig_upd_def)

lemma overload_loop_Cons:
  "overload_loop cfg now bs (k # ks) m ds =
     (if ol_cond cfg now bs m k
      then overload_loop cfg now bs ks (m(k \<mapsto> mig_upd now (score_at m k))) (ds @ [ol_dec cfg now bs m k])
      else overload_loop cfg now bs ks m ds)"
  by (simp add: Let_def ol_cond_def mig_upd_def ol_dec_def coldest_def)

declare overload_loop.simps(2) [simp del]

definition ol_map :: "autoscale_config \<Rightarrow> time \<Rightarrow> string list \<Rightarrow> string list \<Rightarrow> score_map \<Rightarrow> score_map" where
  "ol_map cfg now bs ks m = (\<lambda>j. if j \<in> set ks \<and> ol_cond cfg now bs m j
     then Some (mig_upd now (score_at m j)) else m j)"

text \<open>The loop in closed form: the decisions of its keys are independent of each other.\<close>

lemma overload_loop_eq:
  "distinct ks \<Longrightarrow> overload_loop cfg now bs ks m ds =
     (ol_map cfg now bs ks m, ds @ map (ol_dec cfg now bs m) (filter (ol_cond cfg now bs m) ks))"
proof (induction ks arbitrary: m ds)
  case Nil
  show ?case by (simp add: ol_map_def)
next
  case (Cons k ks)
  have k: "k \<notin> set ks" "distinct ks" using Cons.prems by simp_all
  show ?case
  proof (cases "ol_cond cfg now bs m k")
    case True
    obtain m1 where m1: "m1 = m(k \<mapsto> mig_upd now (score_at m k))" by simp
    have sl: "same_lists m m1" by (simp add: same_lists_def m1)
    have at: "score_at m1 j = score_at m j" if "j \<noteq> k" for j using that by (simp add: m1)
    have co: "coldest cfg now bs m1 j = coldest cfg now bs m j" if "j \<noteq> k" for j
      by (simp add: coldest_def pickColdest_cong [OF sl] at [OF that])
    have oc: "ol_cond cfg now bs m1 j = ol_cond cfg now bs m j" if "j \<noteq> k" for j
      by (simp add: ol_cond_def at [OF that] co [OF that])
    have od: "ol_dec cfg now bs m1 j = ol_dec cfg now bs m j" if "j \<noteq> k" for j
      by (simp add: ol_dec_def at [OF that] co [OF that])
    have f: "filter (ol_cond cfg now bs m1) ks = filter (ol_cond cfg now bs m) ks"
      by (rule filter_cong [OF refl]) (metis k(1) oc)
    have mp: "map (ol_dec cfg now bs m1) (filter (ol_cond cfg now bs m) ks) =
        map (ol_dec cfg now bs m) (filter (ol_cond cfg now bs m) ks)"
      by (rule map_cong [OF refl]) (metis k(1) od filter_is_subset subsetD)
    have "ol_map cfg now bs ks m1 j = ol_map cfg now bs (k # ks) m j" for j
    proof (cases "j = k")
      case True
      then show ?thesis using k(1) \<open>ol_cond cfg now bs m k\<close> by (simp add: ol_map_def m1)
    next
      case False
      then have "m1 j = m j" by (simp add: m1)
      then show ?thesis using False by (simp add: ol_map_def oc at)
    qed
    then have "ol_map cfg now bs ks m1 = ol_map cfg now bs (k # ks) m" by (rule ext)
    moreover have "overload_loop cfg now bs (k # ks) m ds =
        overload_loop cfg now bs ks m1 (ds @ [ol_dec cfg now bs m k])"
      using True m1 by (simp only: overload_loop_Cons if_True)
    ultimately show ?thesis using Cons.IH [OF k(2), of m1 "ds @ [ol_dec cfg now bs m k]"] True
      by (simp add: f mp)
  next
    case False
    have "ol_map cfg now bs ks m j = ol_map cfg now bs (k # ks) m j" for j
      using False by (auto simp: ol_map_def)
    then have "ol_map cfg now bs ks m = ol_map cfg now bs (k # ks) m" by (rule ext)
    then show ?thesis using Cons.IH [OF k(2), of m ds] False by (simp add: overload_loop_Cons)
  qed
qed

text \<open>The lord that is picked: the first in the order that is neither the source nor blacklisted.\<close>

lemma pickColdest_loop_find:
  "pickColdest_loop m ks l now =
     (case find (\<lambda>k. sc_LordID (score_at m k) \<noteq> l \<and> \<not> now < sc_BlacklistUntil (score_at m k)) ks of
        None \<Rightarrow> '''' | Some k \<Rightarrow> sc_LordID (score_at m k))"
  by (induction ks) (simp_all add: Let_def time_After_def)

definition target_ok :: "score_map \<Rightarrow> time \<Rightarrow> string \<Rightarrow> string \<Rightarrow> bool" where
  "target_ok m now l k \<longleftrightarrow> (\<exists>sc. m k = Some sc \<and> \<not> now < sc_BlacklistUntil sc) \<and> k \<noteq> l"

lemma pickColdest_props:
  assumes "scores_ok m" "set bs = dom m"
    and "sorted_wrt (\<lambda>i j. \<not> sc_Combined (score_at m j) < sc_Combined (score_at m i)) bs"
  shows "if pickColdest m bs l now h = '''' then \<forall>k. \<not> target_ok m now l k
    else target_ok m now l (pickColdest m bs l now h) \<and>
      (\<forall>k. target_ok m now l k \<longrightarrow>
         \<not> sc_Combined (score_at m k) < sc_Combined (score_at m (pickColdest m bs l now h)))"
proof -
  let ?P = "\<lambda>k. sc_LordID (score_at m k) \<noteq> l \<and> \<not> now < sc_BlacklistUntil (score_at m k)"
  have id: "sc_LordID (score_at m k) = k \<and> k \<noteq> ''''" if "k \<in> set bs" for k
    using that assms(1,2) by (auto simp: scores_ok_def)
  have P: "?P k \<longleftrightarrow> target_ok m now l k" if k: "k \<in> set bs" for k
  proof -
    obtain sc where sc: "m k = Some sc" using k assms(2) by auto
    then show ?thesis using id [OF k] by (auto simp: target_ok_def)
  qed
  have T: "k \<in> set bs" if "target_ok m now l k" for k using that assms(2) by (auto simp: target_ok_def)
  show ?thesis
  proof (cases "find ?P bs")
    case None
    then have "\<forall>k. \<not> target_ok m now l k" using P T unfolding find_None_iff by blast
    then show ?thesis using None by (simp add: pickColdest_def pickColdest_loop_find)
  next
    case (Some t)
    then obtain i where i: "i < length bs" "?P (bs ! i)" "t = bs ! i" "\<forall>j<i. \<not> ?P (bs ! j)"
      unfolding find_Some_iff by blast
    have t: "t \<in> set bs" using i by simp
    have pc: "pickColdest m bs l now h = t"
      using Some id [OF t] by (simp add: pickColdest_def pickColdest_loop_find)
    have "\<not> sc_Combined (score_at m k) < sc_Combined (score_at m t)" if k: "target_ok m now l k" for k
    proof -
      obtain j where j: "j < length bs" "k = bs ! j" using T [OF k] by (metis in_set_conv_nth)
      have "\<not> j < i" using i(4) k P [OF T [OF k]] j(2) by blast
      then have "i = j \<or> i < j" by linarith
      then show ?thesis
        using sorted_wrt_nth_less [OF assms(3), of i j] j i(3) by auto
    qed
    then show ?thesis using pc id [OF t] P [OF t] i(2,3) by auto
  qed
qed

subsection \<open>A round of decisions in closed form\<close>

definition rb_dec :: "autoscale_config \<Rightarrow> string list \<Rightarrow> score_map \<Rightarrow> decision" where
  "rb_dec cfg bs m = (let hot = score_at m (last bs); cold = score_at m (hd bs) in
     \<lparr>d_Action = ''rebalance'', d_FromLord = sc_LordID hot, d_ToLord = sc_LordID cold,
      d_Reason = Score_delta (sc_Combined hot - sc_Combined cold) (th_RebalanceDelta (ac_Thresh cfg))\<rparr>)"

definition rb_cond :: "autoscale_config \<Rightarrow> time \<Rightarrow> bool \<Rightarrow> string list \<Rightarrow> score_map \<Rightarrow> bool" where
  "rb_cond cfg now limited bs m \<longleftrightarrow> 2 \<le> length bs \<and>
     th_RebalanceDelta (ac_Thresh cfg) <
       sc_Combined (score_at m (last bs)) - sc_Combined (score_at m (hd bs)) \<and>
     \<not> cooling cfg now (score_at m (last bs)) \<and> \<not> limited"

lemma rebalance_eq:
  "rebalance cfg now limited bs m ds =
     (if rb_cond cfg now limited bs m
      then (m(last bs \<mapsto> mig_upd now (score_at m (last bs))), ds @ [rb_dec cfg bs m]) else (m, ds))"
  by (simp add: rebalance_def rb_cond_def rb_dec_def mig_upd_def Let_def)

definition rate_limited :: "as_env \<Rightarrow> autoscale_config \<Rightarrow> autoscale_state \<Rightarrow> bool" where
  "rate_limited env cfg a \<longleftrightarrow>
     ac_MaxPerMin cfg \<le> int (length (pruneMigrations (ae_now env) (as_migrations a)))"

text \<open>The scores after each of the three parts of a round.\<close>

definition after_bl :: "as_env \<Rightarrow> autoscale_config \<Rightarrow> autoscale_state \<Rightarrow> score_map" where
  "after_bl env cfg a = bl_map cfg (ae_now env) (as_lords a)"

definition after_ol :: "as_env \<Rightarrow> autoscale_config \<Rightarrow> autoscale_state \<Rightarrow> score_map" where
  "after_ol env cfg a = (let bs = by_score (as_lords a) (ae_scores env) in
     ol_map cfg (ae_now env) bs bs (after_bl env cfg a))"

lemma blacklist_by_score:
  assumes "iter_order (as_lords a) (ae_scores env)"
  shows "fst (blacklist_loop cfg (ae_now env) (by_score (as_lords a) (ae_scores env)) (as_lords a) []) =
    after_bl env cfg a"
proof (rule ext)
  fix j
  show "fst (blacklist_loop cfg (ae_now env) (by_score (as_lords a) (ae_scores env)) (as_lords a) []) j =
      after_bl env cfg a j"
    using blacklist_loop_map [OF by_score_props(2) [OF assms], of "as_lords a" cfg "ae_now env" "[]" j]
      by_score_props(1) [OF assms]
    by (cases "as_lords a j") (auto simp: after_bl_def bl_map_def)
qed

lemma Decide_eq:
  assumes "iter_order (as_lords a) (ae_scores env)" "Decide env cfg a = (ds, a')"
    and "bs = by_score (as_lords a) (ae_scores env)" "now = ae_now env"
  shows "ds = snd (blacklist_loop cfg now bs (as_lords a) []) @
      map (ol_dec cfg now bs (after_bl env cfg a)) (filter (ol_cond cfg now bs (after_bl env cfg a)) bs) @
      (if rb_cond cfg now (rate_limited env cfg a) bs (after_ol env cfg a)
       then [rb_dec cfg bs (after_ol env cfg a)] else [])"
    "as_lords a' = (if rb_cond cfg now (rate_limited env cfg a) bs (after_ol env cfg a)
       then (after_ol env cfg a)(last bs \<mapsto> mig_upd now (score_at (after_ol env cfg a) (last bs)))
       else after_ol env cfg a)"
    "as_migrations a' = pruneMigrations now (as_migrations a) @ map (\<lambda>_. now) (filter moves ds)"
proof -
  obtain m1 ds1 where bl: "blacklist_loop cfg now bs (as_lords a) [] = (m1, ds1)" by fastforce
  have m1: "m1 = after_bl env cfg a"
    using blacklist_by_score [OF assms(1), of cfg] bl assms(3,4) by simp
  have d: "distinct bs" using by_score_props(2) [OF assms(1)] assms(3) by simp
  have ao: "ol_map cfg now bs bs m1 = after_ol env cfg a"
    using assms(3,4) m1 by (simp add: after_ol_def Let_def)
  have rl: "(ac_MaxPerMin cfg \<le> int (length (pruneMigrations now (as_migrations a)))) =
      rate_limited env cfg a"
    using assms(4) by (simp add: rate_limited_def)
  let ?rb = "rb_cond cfg now (rate_limited env cfg a) bs (after_ol env cfg a)"
  let ?ds = "(ds1 @ map (ol_dec cfg now bs (after_bl env cfg a))
      (filter (ol_cond cfg now bs (after_bl env cfg a)) bs)) @
      (if ?rb then [rb_dec cfg bs (after_ol env cfg a)] else [])"
  have "\<exists>log. Decide env cfg a = (?ds, \<lparr>as_lords = (if ?rb
       then (after_ol env cfg a)(last bs \<mapsto> mig_upd now (score_at (after_ol env cfg a) (last bs)))
       else after_ol env cfg a),
     as_migrations = pruneMigrations now (as_migrations a) @ map (\<lambda>_. now) (filter moves ?ds),
     as_migrationLog = log\<rparr>)"
    unfolding Decide_def Let_def assms(3,4) [symmetric] bl prod.case overload_loop_eq [OF d]
      rebalance_eq m1 ao [unfolded m1] rl
    by (cases ?rb) (simp_all only: if_True if_False prod.case append_Nil2, blast+)
  then obtain log where "(ds, a') = (?ds, \<lparr>as_lords = (if ?rb
       then (after_ol env cfg a)(last bs \<mapsto> mig_upd now (score_at (after_ol env cfg a) (last bs)))
       else after_ol env cfg a),
     as_migrations = pruneMigrations now (as_migrations a) @ map (\<lambda>_. now) (filter moves ?ds),
     as_migrationLog = log\<rparr>)"
    using assms(2) by metis
  then have eq: "ds = ?ds" "a' = \<lparr>as_lords = (if ?rb
       then (after_ol env cfg a)(last bs \<mapsto> mig_upd now (score_at (after_ol env cfg a) (last bs)))
       else after_ol env cfg a),
     as_migrations = pruneMigrations now (as_migrations a) @ map (\<lambda>_. now) (filter moves ?ds),
     as_migrationLog = log\<rparr>"
    unfolding prod.inject by blast+
  show "ds = snd (blacklist_loop cfg now bs (as_lords a) []) @
      map (ol_dec cfg now bs (after_bl env cfg a)) (filter (ol_cond cfg now bs (after_bl env cfg a)) bs) @
      (if ?rb then [rb_dec cfg bs (after_ol env cfg a)] else [])"
    using eq(1) bl by simp
  show "as_lords a' = (if ?rb
       then (after_ol env cfg a)(last bs \<mapsto> mig_upd now (score_at (after_ol env cfg a) (last bs)))
       else after_ol env cfg a)"
    by (subst eq(2)) (simp only: autoscale_state.select_convs)
  show "as_migrations a' = pruneMigrations now (as_migrations a) @ map (\<lambda>_. now) (filter moves ds)"
    by (subst eq(2)) (simp only: autoscale_state.select_convs eq(1) [symmetric])
qed

lemma scores_ok_after_bl: "scores_ok (as_lords a) \<Longrightarrow> scores_ok (after_bl env cfg a)"
  by (auto simp: scores_ok_def after_bl_def bl_map_def)

lemma after_bl_fields:
  "dom (after_bl env cfg a) = dom (as_lords a)"
  "as_lords a k = Some sc \<Longrightarrow> \<exists>sc'. after_bl env cfg a k = Some sc' \<and> sc_LordID sc' = sc_LordID sc \<and>
     sc_CPU sc' = sc_CPU sc \<and> sc_Combined sc' = sc_Combined sc \<and>
     sc_LastMigration sc' = sc_LastMigration sc"
  by (auto simp: after_bl_def bl_map_def dom_def)

lemma score_at_after_bl:
  "sc_Combined (score_at (after_bl env cfg a) k) = sc_Combined (score_at (as_lords a) k)"
  "sc_CPU (score_at (after_bl env cfg a) k) = sc_CPU (score_at (as_lords a) k)"
  "sc_LordID (score_at (after_bl env cfg a) k) = sc_LordID (score_at (as_lords a) k)"
  "sc_LastMigration (score_at (after_bl env cfg a) k) = sc_LastMigration (score_at (as_lords a) k)"
  by (cases "as_lords a k"; simp add: after_bl_def bl_map_def score_at_def)+

text \<open>Migrations write only the time of the last migration.\<close>

definition upto_time :: "score_map \<Rightarrow> score_map \<Rightarrow> bool" where
  "upto_time m m' \<longleftrightarrow> (\<forall>k. map_option (mig_upd 0) (m' k) = map_option (mig_upd 0) (m k))"

lemma upto_time_refl: "upto_time m m" by (simp add: upto_time_def)

lemma upto_time_D:
  assumes "upto_time m m'" "m' k = Some sc'"
  obtains sc where "m k = Some sc" "sc_LordID sc' = sc_LordID sc" "sc_Combined sc' = sc_Combined sc"
    "sc_BlacklistUntil sc' = sc_BlacklistUntil sc" "sc_CPU sc' = sc_CPU sc"
    "sc_Reject sc' = sc_Reject sc"
proof -
  have "Some (mig_upd 0 sc') = map_option (mig_upd 0) (m k)"
    using assms by (metis upto_time_def option.map(2))
  then obtain sc where sc: "m k = Some sc" "mig_upd 0 sc' = mig_upd 0 sc" by (cases "m k") auto
  show thesis
    by (rule that [OF sc(1)]; use sc(2) mig_upd_simps in metis)
qed

lemma upto_time_target1:
  "upto_time m m' \<Longrightarrow> target_ok m' now l k \<Longrightarrow> target_ok m now l k"
  unfolding target_ok_def by (metis upto_time_D)

lemma upto_time_sym: "upto_time m m' \<Longrightarrow> upto_time m' m"
  by (simp add: upto_time_def)

lemma upto_time_target:
  "upto_time m m' \<Longrightarrow> target_ok m' now l k = target_ok m now l k"
  using upto_time_target1 upto_time_sym by blast

lemma upto_time_Combined:
  assumes "upto_time m m'" "k \<in> dom m'"
  shows "sc_Combined (score_at m' k) = sc_Combined (score_at m k)"
  using assms upto_time_D by (metis domD score_at_Some)

lemma upto_time_upd:
  assumes "upto_time m m'" "m' k \<noteq> None"
  shows "upto_time m (m'(k \<mapsto> mig_upd now (score_at m' k)))"
proof -
  obtain sc where sc: "m' k = Some sc" using assms(2) by blast
  then have "map_option (mig_upd 0) (m k) = Some (mig_upd 0 sc)"
    using assms(1) by (metis upto_time_def option.map(2))
  moreover have "mig_upd 0 (mig_upd now sc) = mig_upd 0 sc" by (simp add: mig_upd_def)
  ultimately have "map_option (mig_upd 0) ((m'(k \<mapsto> mig_upd now (score_at m' k))) k) =
      map_option (mig_upd 0) (m k)"
    using sc by (simp only: fun_upd_same score_at_Some option.map)
  then have "map_option (mig_upd 0) ((m'(k \<mapsto> mig_upd now (score_at m' k))) j) =
      map_option (mig_upd 0) (m j)" for j
    using assms(1) unfolding upto_time_def by (metis fun_upd_other)
  then show ?thesis by (simp add: upto_time_def)
qed

lemma upto_time_after_ol:
  assumes "iter_order (as_lords a) (ae_scores env)"
  shows "upto_time (after_bl env cfg a) (after_ol env cfg a)"
proof -
  have "map_option (mig_upd 0) (after_ol env cfg a k) = map_option (mig_upd 0) (after_bl env cfg a k)" for k
  proof (cases "k \<in> dom (as_lords a)")
    case True
    then obtain sc where "after_bl env cfg a k = Some sc" using after_bl_fields(1) by blast
    moreover have "mig_upd 0 (mig_upd now sc) = mig_upd 0 sc" for now by (simp add: mig_upd_def)
    ultimately show ?thesis by (simp add: after_ol_def ol_map_def Let_def)
  next
    case False
    then show ?thesis using by_score_props(1) [OF assms] by (simp add: after_ol_def ol_map_def Let_def)
  qed
  then show ?thesis by (simp add: upto_time_def)
qed

lemma upto_time_dom: "upto_time m m' \<Longrightarrow> dom m' = dom m"
proof -
  assume "upto_time m m'"
  then have "m' k = None \<longleftrightarrow> m k = None" for k
    unfolding upto_time_def by (metis option.map_disc_iff)
  then show ?thesis by (simp add: dom_def)
qed

lemma upto_time_Decide:
  assumes "iter_order (as_lords a) (ae_scores env)" "Decide env cfg a = (ds, a')"
  shows "upto_time (after_bl env cfg a) (as_lords a')"
proof -
  let ?bs = "by_score (as_lords a) (ae_scores env)"
  note u = upto_time_after_ol [OF assms(1), of cfg]
  show ?thesis
  proof (cases "rb_cond cfg (ae_now env) (rate_limited env cfg a) ?bs (after_ol env cfg a)")
    case True
    then have "?bs \<noteq> []" by (auto simp: rb_cond_def)
    then have "last ?bs \<in> dom (after_ol env cfg a)"
      using last_in_set by_score_props(1) [OF assms(1)] upto_time_dom [OF u] after_bl_fields(1)
      by metis
    then have "after_ol env cfg a (last ?bs) \<noteq> None" by blast
    from upto_time_upd [OF u this] show ?thesis
      unfolding Decide_eq(2) [OF assms refl refl] if_P [OF True] .
  next
    case False
    show ?thesis unfolding Decide_eq(2) [OF assms refl refl] if_not_P [OF False] by (rule u)
  qed
qed

subsection \<open>What sampling and deciding leave behind\<close>

lemma sample_loop_from:
  "sample_loop env cfg rates prev es live0 k = Some sc \<Longrightarrow>
     \<forall>k sc. live0 k = Some sc \<longrightarrow> Q k sc \<Longrightarrow>
     \<forall>e\<in>set es. Q (l_lord_id (le_info e)) (sample_lord env cfg rates prev (le_info e)) \<Longrightarrow> Q k sc"
proof (induction es arbitrary: live0)
  case (Cons e es)
  obtain live1 where l1: "live1 = live0(l_lord_id (le_info e) \<mapsto> sample_lord env cfg rates prev (le_info e))"
    by simp
  have "\<forall>k sc. live1 k = Some sc \<longrightarrow> Q k sc" using Cons.prems(2,3) l1 by simp
  moreover have "sample_loop env cfg rates prev es live1 k = Some sc" using Cons.prems(1) l1 by simp
  ultimately show ?case using Cons.IH Cons.prems(3) by simp
qed simp

definition sample_rates :: "as_env \<Rightarrow> string \<Rightarrow> f64 option" where
  "sample_rates env = (case readBPFRejectRates (ae_stats env) of Some r \<Rightarrow> r | None \<Rightarrow> Map.empty)"

text \<open>Every score comes from a registered lord and is filed under its id.\<close>

lemma Sample_from:
  assumes "as_lords (Sample env cfg sv a) k = Some sc" "lr_inv (sv_lords sv)"
  shows "\<exists>e. lr_byID (sv_lords sv) k = Some e \<and> l_lord_id (le_info e) = k \<and> k \<noteq> '''' \<and>
    sc = sample_lord env cfg (sample_rates env) (as_lords a) (le_info e)"
proof -
  let ?Q = "\<lambda>k sc. \<exists>e. lr_byID (sv_lords sv) k = Some e \<and> l_lord_id (le_info e) = k \<and> k \<noteq> '''' \<and>
    sc = sample_lord env cfg (sample_rates env) (as_lords a) (le_info e)"
  have 1: "sample_loop env cfg (sample_rates env) (as_lords a)
      (go_values (lr_byID (sv_lords sv)) (ae_lords env)) Map.empty k = Some sc"
    using assms(1) by (simp add: Sample_def sample_rates_def Let_def)
  have 2: "\<forall>e\<in>set (go_values (lr_byID (sv_lords sv)) (ae_lords env)).
      ?Q (l_lord_id (le_info e)) (sample_lord env cfg (sample_rates env) (as_lords a) (le_info e))"
  proof
    fix e assume "e \<in> set (go_values (lr_byID (sv_lords sv)) (ae_lords env))"
    then obtain j where j: "lr_byID (sv_lords sv) j = Some e"
      by (auto simp: go_values_def set_go_range)
    then have "l_lord_id (le_info e) = j \<and> j \<noteq> ''''"
      using lr_inv_entry [OF assms(2) j] by (simp add: entry_ok_def)
    then show "?Q (l_lord_id (le_info e)) (sample_lord env cfg (sample_rates env) (as_lords a) (le_info e))"
      using j by auto
  qed
  show ?thesis by (rule sample_loop_from [where Q = ?Q, OF 1 _ 2]) simp
qed

lemma sample_lord_fields [simp]:
  "sc_LordID (sample_lord env cfg rates prev info) = l_lord_id info"
  "sc_LastMigration (sample_lord env cfg rates prev info) =
     (case prev (l_lord_id info) of Some p \<Rightarrow> sc_LastMigration p | None \<Rightarrow> 0)"
  "sc_BlacklistUntil (sample_lord env cfg rates prev info) =
     (case prev (l_lord_id info) of Some p \<Rightarrow> sc_BlacklistUntil p | None \<Rightarrow> 0)"
  by (simp_all add: sample_lord_def Let_def)

lemma scores_ok_Sample: "lr_inv (sv_lords sv) \<Longrightarrow> scores_ok (as_lords (Sample env cfg sv a))"
  unfolding scores_ok_def using Sample_from by fastforce

text \<open>A decision that moves processes records its time, and was made off a lord not in its cooldown.\<close>

text \<open>The scores of a lord after the blacklist pass and after the overload pass.\<close>

lemma after_bl_at:
  assumes "iter_order (as_lords a) (ae_scores env)" "scores_ok (as_lords a)"
    "k \<in> set (by_score (as_lords a) (ae_scores env))"
  shows "sc_LordID (score_at (after_bl env cfg a) k) = k" "\<exists>sc. as_lords a k = Some sc"
    "as_lords a k = Some sc \<Longrightarrow>
       cooling cfg now (score_at (after_bl env cfg a) k) = cooling cfg now sc"
  using by_score_props(1) [OF assms(1)] assms(2,3)
  by (auto simp: scores_ok_def score_at_after_bl cooling_def)

lemma after_ol_at:
  assumes m1_def: "m1 = after_bl env cfg a" and m2_def: "m2 = after_ol env cfg a"
    and bs_def: "bs = by_score (as_lords a) (ae_scores env)"
    and "iter_order (as_lords a) (ae_scores env)" "scores_ok (as_lords a)" "k \<in> set bs"
  shows "m2 k = Some (score_at m2 k)" "sc_LordID (score_at m2 k) = k"
    "score_at m2 k = (if ol_cond cfg (ae_now env) bs m1 k then mig_upd (ae_now env) (score_at m1 k)
       else score_at m1 k)"
proof -
  have m2: "m2 = ol_map cfg (ae_now env) bs bs m1" by (simp add: m1_def m2_def bs_def after_ol_def Let_def)
  have "k \<in> dom m1"
    using assms(6) by_score_props(1) [OF assms(4)] after_bl_fields(1) by (simp add: m1_def bs_def)
  then show "m2 k = Some (score_at m2 k)" "sc_LordID (score_at m2 k) = k"
    "score_at m2 k = (if ol_cond cfg (ae_now env) bs m1 k then mig_upd (ae_now env) (score_at m1 k)
       else score_at m1 k)"
    using assms(6) after_bl_at(1) [OF assms(4,5) assms(6) [unfolded bs_def]]
    by (auto simp: m2 ol_map_def score_at_def m1_def)
qed

lemma Decide_moves:
  assumes "iter_order (as_lords a) (ae_scores env)" "scores_ok (as_lords a)"
    and "Decide env cfg a = (ds, a')" "d \<in> set ds" "moves d"
  shows "\<exists>sc. as_lords a (d_FromLord d) = Some sc \<and> \<not> cooling cfg (ae_now env) sc"
    "\<exists>sc'. as_lords a' (d_FromLord d) = Some sc' \<and> sc_LastMigration sc' = ae_now env"
proof -
  let ?now = "ae_now env"
  obtain bs where bs: "bs = by_score (as_lords a) (ae_scores env)" by simp
  obtain m1 where m1: "m1 = after_bl env cfg a" by simp
  obtain m2 where m2: "m2 = after_ol env cfg a" by simp
  let ?rb = "rb_cond cfg ?now (rate_limited env cfg a) bs m2"
  note D = Decide_eq [OF assms(1,3) bs refl, folded m1 m2]
  note idx = after_bl_at(1) [OF assms(1,2), where cfg = cfg, folded bs m1]
    after_bl_at(2) [OF assms(1,2), folded bs] after_bl_at(3) [OF assms(1,2), where cfg = cfg, folded bs m1]
  note m2_at = after_ol_at [OF m1 m2 bs assms(1,2)]
  have "\<exists>k\<in>set bs. d_FromLord d = k \<and> \<not> cooling cfg ?now (score_at m1 k) \<and>
      (\<exists>sc'. as_lords a' k = Some sc' \<and> sc_LastMigration sc' = ?now)"
  proof -
    from assms(4) consider (bl) "d \<in> set (snd (blacklist_loop cfg ?now bs (as_lords a) []))"
      | (ol) k where "k \<in> set bs" "ol_cond cfg ?now bs m1 k" "d = ol_dec cfg ?now bs m1 k"
      | (rb) "?rb" "d = rb_dec cfg bs m2"
      unfolding D(1) by (auto split: if_splits)
    then show ?thesis
    proof cases
      case bl
      then have "d_Action d = ''blacklist''" using blacklist_loop_decisions [OF bl] by simp
      then show ?thesis using assms(5) by (simp add: moves_def)
    next
      case ol
      have "\<exists>sc'. m2 k = Some sc' \<and> sc_LastMigration sc' = ?now"
        using m2_at [OF ol(1)] ol(2) by (metis mig_upd_simps(5))
      then have "\<exists>sc'. as_lords a' k = Some sc' \<and> sc_LastMigration sc' = ?now"
        unfolding D(2) by (cases ?rb) auto
      moreover have "d_FromLord d = k" using ol(3) idx(1) [OF ol(1)] by (simp add: ol_dec_def)
      moreover have "\<not> cooling cfg ?now (score_at m1 k)" using ol(2) by (simp add: ol_cond_def)
      ultimately show ?thesis using ol(1) by metis
    next
      case rb
      then have "bs \<noteq> []" by (auto simp: rb_cond_def)
      then have l: "last bs \<in> set bs" by simp
      have "d_FromLord d = last bs" using rb(2) m2_at(2) [OF l] by (simp add: rb_dec_def Let_def)
      moreover have "\<not> cooling cfg ?now (score_at m1 (last bs))"
        using rb(1) m2_at(3) [OF l] by (auto simp: rb_cond_def ol_cond_def split: if_splits)
      moreover have "\<exists>sc'. as_lords a' (last bs) = Some sc' \<and> sc_LastMigration sc' = ?now"
        unfolding D(2) using rb(1) by simp
      ultimately show ?thesis using l by metis
    qed
  qed
  then show "\<exists>sc. as_lords a (d_FromLord d) = Some sc \<and> \<not> cooling cfg ?now sc"
    "\<exists>sc'. as_lords a' (d_FromLord d) = Some sc' \<and> sc_LastMigration sc' = ?now"
    using idx(2,3) by metis+
qed

text \<open>The parts of the next property: which decisions are migrations, when the loop makes one, and
  that its target is a best one.\<close>

lemma Decide_migrate_iff:
  assumes "iter_order (as_lords a) (ae_scores env)" "Decide env cfg a = (ds, a')"
    and "bs = by_score (as_lords a) (ae_scores env)" "m1 = after_bl env cfg a"
  shows "d \<in> set ds \<and> d_Action d = ''migrate'' \<longleftrightarrow>
    (\<exists>k\<in>set bs. ol_cond cfg (ae_now env) bs m1 k \<and> d = ol_dec cfg (ae_now env) bs m1 k)"
proof -
  let ?now = "ae_now env"
  let ?rb = "if rb_cond cfg ?now (rate_limited env cfg a) bs (after_ol env cfg a)
     then [rb_dec cfg bs (after_ol env cfg a)] else []"
  have "d \<in> set ds \<longleftrightarrow> d \<in> set (snd (blacklist_loop cfg ?now bs (as_lords a) [])) \<or>
      (\<exists>k\<in>set bs. ol_cond cfg ?now bs m1 k \<and> d = ol_dec cfg ?now bs m1 k) \<or> d \<in> set ?rb"
    unfolding Decide_eq(1) [OF assms(1-3) refl] assms(4) [symmetric] set_append set_map set_filter
    by blast
  moreover have "d_Action d = ''blacklist''"
    if "d \<in> set (snd (blacklist_loop cfg ?now bs (as_lords a) []))"
    using blacklist_loop_decisions [OF that] by simp
  moreover have "d_Action d = ''rebalance''" if "d \<in> set ?rb"
    using that by (simp add: rb_dec_def Let_def split: if_splits)
  moreover have "d_Action (ol_dec cfg ?now bs m1 k) = ''migrate''" for k by (simp add: ol_dec_def)
  ultimately show ?thesis by fastforce
qed

lemma overload_of:
  assumes "iter_order (as_lords a) (ae_scores env)" "scores_ok (as_lords a)"
    and "\<forall>k sc. as_lords a k = Some sc \<longrightarrow> sc_Combined sc \<noteq> NaN"
    and "bs = by_score (as_lords a) (ae_scores env)" "m1 = after_bl env cfg a" "k \<in> set bs"
  shows "sc_LordID (score_at m1 k) = k"
    "ol_cond cfg now bs m1 k \<longleftrightarrow> \<not> sc_CPU (score_at (as_lords a) k) < th_OverloadCPU (ac_Thresh cfg) \<and>
       \<not> cooling cfg now (score_at (as_lords a) k) \<and> (\<exists>t. target_ok m1 now k t)"
    "ol_cond cfg now bs m1 k \<Longrightarrow> target_ok m1 now k (coldest cfg now bs m1 k) \<and>
       (\<forall>t. target_ok m1 now k t \<longrightarrow>
          \<not> sc_Combined (score_at m1 t) < sc_Combined (score_at m1 (coldest cfg now bs m1 k)))"
proof -
  have dom1: "set bs = dom m1"
    using by_score_props(1) [OF assms(1)] assms(4,5) after_bl_fields(1) by simp
  have ok1: "scores_ok m1" using scores_ok_after_bl [OF assms(2)] assms(5) by simp
  show id: "sc_LordID (score_at m1 k) = k"
    using assms(6) ok1 dom1 by (auto simp: scores_ok_def)
  have sorted: "sorted_wrt (\<lambda>i j. \<not> sc_Combined (score_at m1 j) < sc_Combined (score_at m1 i)) bs"
    using by_score_sorted [OF assms(1,3)] unfolding assms(4,5) score_at_after_bl .
  note pick = pickColdest_props [OF ok1 dom1 sorted, of k now "sw_Hysteresis (ac_Score cfg)"]
  have cold: "coldest cfg now bs m1 k = pickColdest m1 bs k now (sw_Hysteresis (ac_Score cfg))"
    using id by (simp add: coldest_def)
  have "coldest cfg now bs m1 k \<noteq> '''' \<longleftrightarrow> (\<exists>t. target_ok m1 now k t)"
    using pick unfolding cold by (auto split: if_splits)
  then show "ol_cond cfg now bs m1 k \<longleftrightarrow> \<not> sc_CPU (score_at (as_lords a) k) < th_OverloadCPU (ac_Thresh cfg) \<and>
      \<not> cooling cfg now (score_at (as_lords a) k) \<and> (\<exists>t. target_ok m1 now k t)"
    by (simp add: ol_cond_def cooling_def assms(5) score_at_after_bl)
  show "target_ok m1 now k (coldest cfg now bs m1 k) \<and> (\<forall>t. target_ok m1 now k t \<longrightarrow>
      \<not> sc_Combined (score_at m1 t) < sc_Combined (score_at m1 (coldest cfg now bs m1 k)))"
    if "ol_cond cfg now bs m1 k"
    using pick that unfolding cold ol_cond_def by simp
qed

subsection \<open>Properties\<close>

text \<open>C16: a round migrates exactly off the lords at or over the CPU threshold that are not in their
  cooldown, when another lord that is not blacklisted exists; each time the target is such a lord
  with the lowest score. A lord exactly at the threshold is migrated off as well, although the
  manual (\<open>cpu_ratio > 0.80\<close>), the comments and the reason that is logged all say above it.\<close>

theorem Decide_migrations_exact:
  assumes "iter_order (as_lords a) (ae_scores env)" "scores_ok (as_lords a)"
    and "\<forall>k sc. as_lords a k = Some sc \<longrightarrow> sc_Combined sc \<noteq> NaN"
    and "Decide env cfg a = (ds, a')"
  shows "(\<forall>k. (\<exists>d\<in>set ds. d_Action d = ''migrate'' \<and> d_FromLord d = k) \<longleftrightarrow>
      (\<exists>sc. as_lords a k = Some sc \<and> \<not> sc_CPU sc < th_OverloadCPU (ac_Thresh cfg) \<and>
        \<not> cooling cfg (ae_now env) sc \<and> (\<exists>t. target_ok (as_lords a') (ae_now env) k t))) \<and>
    (\<forall>d\<in>set ds. d_Action d = ''migrate'' \<longrightarrow>
      target_ok (as_lords a') (ae_now env) (d_FromLord d) (d_ToLord d) \<and>
      (\<forall>t. target_ok (as_lords a') (ae_now env) (d_FromLord d) t \<longrightarrow>
        \<not> sc_Combined (score_at (as_lords a') t) < sc_Combined (score_at (as_lords a') (d_ToLord d))))"
proof -
  let ?now = "ae_now env"
  obtain bs where bs: "bs = by_score (as_lords a) (ae_scores env)" by simp
  obtain m1 where m1: "m1 = after_bl env cfg a" by simp
  note u = upto_time_Decide [OF assms(1,4), folded m1]
  note ov = overload_of [OF assms(1-3) bs m1]
  note mig = Decide_migrate_iff [OF assms(1,4) bs m1]
  have T: "target_ok (as_lords a') ?now l t = target_ok m1 ?now l t" for l t
    by (rule upto_time_target [OF u])
  have from_id: "d_FromLord (ol_dec cfg ?now bs m1 k) = k" if "k \<in> set bs" for k
    using ov(1) [OF that] by (simp add: ol_dec_def)
  have "(\<exists>d\<in>set ds. d_Action d = ''migrate'' \<and> d_FromLord d = k) \<longleftrightarrow>
      k \<in> set bs \<and> ol_cond cfg ?now bs m1 k" for k
    using mig from_id by metis
  moreover have "k \<in> set bs \<and> ol_cond cfg ?now bs m1 k \<longleftrightarrow> (\<exists>sc. as_lords a k = Some sc \<and>
      \<not> sc_CPU sc < th_OverloadCPU (ac_Thresh cfg) \<and> \<not> cooling cfg ?now sc \<and>
      (\<exists>t. target_ok m1 ?now k t))" for k
  proof (cases "as_lords a k")
    case None
    then show ?thesis using by_score_props(1) [OF assms(1)] bs by (simp add: domIff)
  next
    case (Some sc)
    then have "k \<in> set bs" using by_score_props(1) [OF assms(1)] bs by blast
    then show ?thesis using ov(2) [of k] Some by simp
  qed
  moreover have "target_ok m1 ?now (d_FromLord d) (d_ToLord d) \<and>
      (\<forall>t. target_ok m1 ?now (d_FromLord d) t \<longrightarrow>
        \<not> sc_Combined (score_at (as_lords a') t) < sc_Combined (score_at (as_lords a') (d_ToLord d)))"
    if d: "d \<in> set ds" "d_Action d = ''migrate''" for d
  proof -
    obtain k where k: "k \<in> set bs" "ol_cond cfg ?now bs m1 k" "d = ol_dec cfg ?now bs m1 k"
      using iffD1 [OF mig conjI [OF d]] by metis
    have f: "d_FromLord d = k" "d_ToLord d = coldest cfg ?now bs m1 k"
      using k(3) from_id [OF k(1)] by (simp_all add: ol_dec_def)
    have "sc_Combined (score_at (as_lords a') t) = sc_Combined (score_at m1 t)"
      if "target_ok m1 ?now k t" for t
      using that T [of k t] by (intro upto_time_Combined [OF u]) (auto simp: target_ok_def)
    then show ?thesis using ov(3) [OF k(1,2)] unfolding f by simp
  qed
  ultimately show ?thesis unfolding T by blast
qed

text \<open>C32: the cooldown is respected between rounds: a lord that a round has moved a process off is
  left alone by the next round until the cooldown is over, although the scores are sampled anew.\<close>

theorem cooldown_respected:
  assumes "iter_order (as_lords a) (ae_scores env)" "scores_ok (as_lords a)"
    and "Decide env cfg a = (ds, a')" "d \<in> set ds" "moves d" "ae_now env \<noteq> 0"
    and "lr_inv (sv_lords sv)" "b = Sample env1 cfg sv a'" "iter_order (as_lords b) (ae_scores env2)"
    and "Decide env2 cfg b = (ds2, b')"
    and "time_Sub (ae_now env2) (ae_now env) < ac_Cooldown cfg"
  shows "\<forall>d'\<in>set ds2. moves d' \<longrightarrow> d_FromLord d' \<noteq> d_FromLord d"
proof (intro ballI impI notI)
  fix d' assume d': "d' \<in> set ds2" "moves d'" "d_FromLord d' = d_FromLord d"
  obtain sc where sc: "as_lords a' (d_FromLord d) = Some sc" "sc_LastMigration sc = ae_now env"
    using Decide_moves(2) [OF assms(1-5)] by blast
  have ok: "scores_ok (as_lords b)" using scores_ok_Sample [OF assms(7)] assms(8) by simp
  obtain sc' where sc': "as_lords b (d_FromLord d) = Some sc'" "\<not> cooling cfg (ae_now env2) sc'"
    using Decide_moves(1) [OF assms(9) ok assms(10) d'(1,2)] d'(3) by auto
  have "sc_LastMigration sc' = ae_now env"
    using Sample_from [OF sc'(1) [unfolded assms(8)] assms(7)] sc by auto
  then show False using sc'(2) assms(6,11) by (simp add: cooling_def time_IsZero_def)
qed

text \<open>The limit on migrations per minute holds back rebalancing only: the overload migrations of
  a round are the same whatever migrations the last minute has seen.\<close>

theorem rate_limit_spares_overload:
  assumes "iter_order (as_lords a) (ae_scores env)" "Decide env cfg a = (ds, a')"
    and "Decide env cfg (a\<lparr>as_migrations := ms\<rparr>) = (ds2, a2)"
  shows "(\<forall>d\<in>set ds. d_Action d = ''rebalance'' \<longrightarrow> \<not> rate_limited env cfg a) \<and>
    filter (\<lambda>d. d_Action d = ''migrate'') ds = filter (\<lambda>d. d_Action d = ''migrate'') ds2"
proof -
  obtain bs where bs: "bs = by_score (as_lords a) (ae_scores env)" by simp
  have i2: "iter_order (as_lords (a\<lparr>as_migrations := ms\<rparr>)) (ae_scores env)" using assms(1) by simp
  have bs2: "bs = by_score (as_lords (a\<lparr>as_migrations := ms\<rparr>)) (ae_scores env)" using bs by simp
  have same: "after_bl env cfg (a\<lparr>as_migrations := ms\<rparr>) = after_bl env cfg a"
    by (simp add: after_bl_def)
  have bl: "filter (\<lambda>d. d_Action d = ''migrate'') (snd (blacklist_loop cfg now bs m [])) = []" for now m
    using blacklist_loop_decisions [of _ cfg now bs m "[]"] by (auto simp: filter_empty_conv)
  have rb: "d_Action (rb_dec cfg bs m) = ''rebalance''" for m by (simp add: rb_dec_def Let_def)
  have "filter (\<lambda>d. d_Action d = ''migrate'') ds = map (ol_dec cfg (ae_now env) bs (after_bl env cfg a))
      (filter (ol_cond cfg (ae_now env) bs (after_bl env cfg a)) bs)"
    unfolding Decide_eq(1) [OF assms(1,2) bs refl]
    by (simp add: bl rb filter_map comp_def ol_dec_def)
  moreover have "filter (\<lambda>d. d_Action d = ''migrate'') ds2 = map (ol_dec cfg (ae_now env) bs (after_bl env cfg a))
      (filter (ol_cond cfg (ae_now env) bs (after_bl env cfg a)) bs)"
    unfolding Decide_eq(1) [OF i2 assms(3) bs2 refl] same
    by (simp add: bl rb filter_map comp_def ol_dec_def)
  moreover have "\<not> rate_limited env cfg a" if d: "d \<in> set ds" "d_Action d = ''rebalance''" for d
  proof (rule ccontr)
    assume "\<not> \<not> rate_limited env cfg a"
    then have "\<not> rb_cond cfg (ae_now env) (rate_limited env cfg a) bs (after_ol env cfg a)"
      by (simp add: rb_cond_def)
    then show False
      using d blacklist_loop_decisions [of d cfg "ae_now env" bs "as_lords a" "[]"]
      unfolding Decide_eq(1) [OF assms(1,2) bs refl] by (auto simp: ol_dec_def)
  qed
  ultimately show ?thesis by simp
qed

text \<open>The target a decision names plays no part in carrying it out: the migration is asked for
  with automatic choice, so that the blacklist and the scores never decide where a process goes.\<close>

theorem decided_target_ignored:
  "applyDecision env (d\<lparr>d_ToLord := x\<rparr>) sv = applyDecision env d sv"
proof -
  have "Migrate env \<lparr>mr_process_id = p, mr_target_lord_id = x, mr_auto = True\<rparr> sv =
      Migrate env \<lparr>mr_process_id = p, mr_target_lord_id = y, mr_auto = True\<rparr> sv" for p y
    by (cases "PT_Get (sv_processes sv) p") (simp_all add: Migrate_def Let_def)
  from this [of _ "d_ToLord d"] show ?thesis
    unfolding applyDecision_def by (simp add: Let_def)
qed

lemma youngest_loop_min:
  assumes "(k, a) \<in> set es" "distinct (map fst es)"
    and "pi_lord_id (info_at t a) = l" "process_age now (info_at t a) < bestCPU"
    and "\<forall>(k', a')\<in>set es. k' \<noteq> k \<and> pi_lord_id (info_at t a') = l \<longrightarrow>
      process_age now (info_at t a) < process_age now (info_at t a')"
  shows "youngest_loop now t l es best bestCPU = k"
proof -
  have keep: "youngest_loop now t l fs best c = best"
    if "\<forall>(k', a')\<in>set fs. pi_lord_id (info_at t a') = l \<longrightarrow> c < process_age now (info_at t a')"
    for fs best c
    using that by (induction fs) (auto simp: Let_def)
  show ?thesis
    using assms
  proof (induction es arbitrary: best bestCPU)
    case (Cons f es)
    obtain k' a' where f: "f = (k', a')" by fastforce
    show ?case
    proof (cases "k' = k")
      case True
      then have a': "a' = a" using Cons.prems(1,2) f by (force simp: image_iff)
      have "\<forall>(k'', b)\<in>set es. pi_lord_id (info_at t b) = l \<longrightarrow>
          process_age now (info_at t a) < process_age now (info_at t b)"
        using Cons.prems(2,5) f True by (force simp: image_iff)
      then show ?thesis using Cons.prems(3,4) True a' f keep by (simp add: Let_def)
    next
      case False
      then have in_es: "(k, a) \<in> set es" using Cons.prems(1) f by simp
      show ?thesis
      proof (cases "pi_lord_id (info_at t a') = l")
        case True
        then have "process_age now (info_at t a) < process_age now (info_at t a')"
          using Cons.prems(5) False f by auto
        then show ?thesis
          using Cons.IH [OF in_es] Cons.prems f True by (simp add: Let_def)
      next
        case False
        then show ?thesis using Cons.IH [OF in_es] Cons.prems f by simp
      qed
    qed
  qed simp
qed

text \<open>Processes that are over are not skipped: when the youngest state change on the lord is that
  of a finished process, carrying out a decision off that lord moves nothing at all.\<close>

theorem finished_process_blocks_migration:
  assumes "iter_order (pt_byID (sv_processes sv)) (ge_procs env)"
    and "PT_Get (sv_processes sv) p = Some a" "p \<noteq> ''''" "pi_lord_id (sv_info sv a) = d_FromLord d"
    and "final_state (pi_state (sv_info sv a))" "process_age (ge_now env) (sv_info sv a) < - 1"
    and "\<forall>q b. q \<noteq> p \<and> PT_Get (sv_processes sv) q = Some b \<and> pi_lord_id (sv_info sv b) = d_FromLord d \<longrightarrow>
      process_age (ge_now env) (sv_info sv a) < process_age (ge_now env) (sv_info sv b)"
  shows "snd (applyDecision env d sv) = sv"
proof -
  have pick: "pickColdestProcessOnLord env sv (d_FromLord d) = p"
    unfolding pickColdestProcessOnLord_def
  proof (rule youngest_loop_min)
    show "(p, a) \<in> set (go_range (pt_byID (sv_processes sv)) (ge_procs env))"
      using assms(2) by (simp add: mem_go_range_iter [OF assms(1)] PT_Get_def)
    show "distinct (map fst (go_range (pt_byID (sv_processes sv)) (ge_procs env)))"
      using assms(1) by (simp add: map_fst_go_range_iter) (simp add: iter_order_def)
  qed (use assms(4,6,7) in \<open>auto simp: sv_info_def PT_Get_def mem_go_range_iter [OF assms(1)]\<close>)
  have "snd (Migrate env \<lparr>mr_process_id = p, mr_target_lord_id = d_ToLord d, mr_auto = True\<rparr> sv) = sv"
    using assms(2,5)
    by (auto simp: Migrate_def Let_def respawnProcessOnLord_def final_state_def)
  then show ?thesis
    using assms(3) pick by (simp add: applyDecision_def case_prod_beta split: sum.split prod.split)
qed

subsection \<open>The metrics\<close>

lemma float_of_u64_Fin: "n \<le> maxUint64 \<Longrightarrow> float_of_u64 n = Fin (rnd (of_nat n))"
proof -
  assume "n \<le> maxUint64"
  then have "int n \<le> 2 ^ 64" by (simp add: maxUint64_def)
  then have "(of_int (int n) :: rat) \<le> of_int (2 ^ 64)" by (simp only: of_int_le_iff)
  then show ?thesis
    unfolding float_of_u64_def f64_of_int_def by (subst f64_round_finite_small) simp_all
qed

lemma rnd_nat_bounds: "n \<le> maxUint64 \<Longrightarrow> 0 \<le> rnd (of_nat n) \<and> rnd (of_nat n) \<le> 2 ^ 64"
proof -
  assume n: "n \<le> maxUint64"
  have "rnd 0 \<le> rnd (of_nat n)" by (rule rnd_mono) simp
  moreover have "(of_nat n :: rat) \<le> 2 powi 64"
  proof -
    have "int n \<le> 2 ^ 64" using n by (simp add: maxUint64_def)
    then have "(of_int (int n) :: rat) \<le> of_int (2 ^ 64)" by (simp only: of_int_le_iff)
    then show ?thesis by simp
  qed
  then have "rnd (of_nat n) \<le> rnd (2 powi 64)" by (rule rnd_mono)
  then have "rnd (of_nat n) \<le> 2 powi 64" by (subst (asm) rnd_two_powi) simp_all
  ultimately show ?thesis by (simp add: rnd_def)
qed

text \<open>Whatever the two memory files hold, the memory ratio of a lord is a float between 0 and 1.\<close>

theorem readLordMem_unit: "f64_unit (readLordMem readFile lordID)"
proof -
  have tenth: "f64_unit (f64_lit (1 / 10))" by (rule f64_round_unit) simp_all
  have zo: "f64_unit 0" "f64_unit 1" by (simp_all add: f64_unit_def zero_f64_def one_f64_def)
  have "f64_unit (if 1 < float_of_u64 c / float_of_u64 m then 1 else float_of_u64 c / float_of_u64 m)"
    if c: "c \<le> maxUint64" and m: "m \<le> maxUint64" "m \<noteq> 0" for c m
  proof -
    have "rnd 1 \<le> rnd (of_nat m)" using m(2) by (intro rnd_mono) simp
    then have pos: "1 \<le> rnd (of_nat m)" by simp
    define q where "q = rnd (of_nat c) / rnd (of_nat m)"
    have q: "0 \<le> q" "q \<le> 2 ^ 64"
      using rnd_nat_bounds [OF c] pos
      by (simp_all add: q_def divide_le_eq)
    have div: "float_of_u64 c / float_of_u64 m = Fin (rnd q)"
      using pos q by (simp add: float_of_u64_Fin c m divide_f64_def q_def f64_round_finite_small)
    have "rnd 0 \<le> rnd q" using q(1) by (rule rnd_mono)
    then have "0 \<le> rnd q" by (simp add: rnd_def)
    then show ?thesis unfolding div by (auto simp: f64_unit_def one_f64_def)
  qed
  then show ?thesis
    using tenth zo ParseUint_bounded
    by (simp add: readLordMem_def Let_def split: option.split)
qed

lemma cpu_stat_usage:
  assumes "n \<le> maxUint64"
  shows "cpu_stat_loop (Split (''usage_usec '' @ show_nat n @ CHR 0x0A # rest) (CHR 0x0A)) =
    float_of_u64 n / f64_lit 1000000"
proof -
  have nl: "CHR 0x0A \<notin> set (show_nat n)"
    using show_nat_no_space [of "CHR 0x0A" n] by (auto simp: is_space_code)
  have line: "''usage_usec '' @ show_nat n = ''usage_usec'' @ CHR '' '' # show_nat n" by simp
  have "CHR 0x0A \<notin> set (''usage_usec '' @ show_nat n)" using nl by simp
  from split_at_char_piece [OF this, of "[]" rest]
  have split: "Split (''usage_usec '' @ show_nat n @ CHR 0x0A # rest) (CHR 0x0A) =
      (''usage_usec '' @ show_nat n) # Split rest (CHR 0x0A)"
    by (simp add: Split_def)
  have "Fields (''usage_usec '' @ show_nat n) = [''usage_usec'', show_nat n]"
    unfolding line
    by (rule Fields_pair) (use show_nat_no_space show_nat_nonempty in \<open>auto simp: is_space_code\<close>)
  then show ?thesis
    unfolding split
    by (simp add: HasPrefix_def ParseUint_show_nat [OF assms])
qed

text \<open>The CPU ratio of a lord is its total CPU time since its cgroup exists, in seconds, not a
  ratio: a lord that has used 0.8 seconds of CPU time in its life is over the default threshold
  for ever.\<close>

theorem readLordCPU_cumulative:
  assumes "readFile (cgroup_path lordID ''cpu.usage_usec'') = None"
    and "readFile (cgroup_path lordID ''cpu.stat'') =
      Some (''usage_usec '' @ show_nat n @ CHR 0x0A # rest)"
    and "800000 \<le> n" "n \<le> maxUint64"
  shows "\<not> readLordCPU readFile lordID < f64_lit (4 / 5)"
proof -
  have cpu: "readLordCPU readFile lordID = float_of_u64 n / f64_lit 1000000"
    unfolding readLordCPU_def assms(1,2) option.case cpu_stat_usage [OF assms(4)] ..
  have million: "f64_lit 1000000 = Fin 1000000"
    using f64_of_int_small [of 1000000] by (simp add: f64_of_int_def)
  have "rnd 800000 \<le> rnd (of_nat n)"
  proof (rule rnd_mono)
    have "(of_nat 800000 :: rat) \<le> of_nat n" using assms(3) by (simp only: of_nat_le_iff)
    then show "(800000 :: rat) \<le> of_nat n" by simp
  qed
  moreover have "rnd 800000 = 800000" using rnd_of_int [of 800000] by simp
  ultimately have ge: "800000 \<le> rnd (of_nat n)" by simp
  define q where "q = rnd (of_nat n) / 1000000"
  have q: "4 / 5 \<le> q" using ge unfolding q_def by linarith
  moreover have "q \<le> 2 ^ 64" using rnd_nat_bounds [OF assms(4)] unfolding q_def by linarith
  ultimately have "readLordCPU readFile lordID = Fin (rnd q)"
    unfolding cpu million float_of_u64_Fin [OF assms(4)]
    by (simp add: divide_f64_def q_def f64_round_finite_small)
  moreover have "f64_lit (4 / 5) = Fin (rnd (4 / 5))" by (rule f64_round_finite_small) simp
  moreover have "rnd (4 / 5) \<le> rnd q" by (rule rnd_mono [OF q])
  ultimately show ?thesis by simp
qed

lemma reject_loop_keys:
  "reject_loop es out k = Some r \<Longrightarrow> (\<forall>k r. out k = Some r \<longrightarrow> length k = 4) \<Longrightarrow> length k = 4"
proof (induction es arbitrary: out)
  case (Cons e es)
  obtain key val where e: "e = (key, val)" by fastforce
  obtain out' x where out': "out' = out(lordIDFromUint32 key \<mapsto> x)" "reject_loop es out' k = Some r"
    using Cons.prems(1) e by (auto simp: Let_def)
  have "length (lordIDFromUint32 key) = 4" by (simp add: lordIDFromUint32_def)
  then have "\<forall>k r. out' k = Some r \<longrightarrow> length k = 4" using Cons.prems(2) out'(1) by auto
  then show ?case using Cons.IH out'(2) by blast
qed simp

lemma sample_rates_long: "length k \<noteq> 4 \<Longrightarrow> sample_rates env k = None"
  using reject_loop_keys [of "the (ae_stats env)" Map.empty k]
  by (cases "sample_rates env k")
    (auto simp: sample_rates_def readBPFRejectRates_def split: option.splits)

text \<open>The reject counters of the kernel scheduler are never seen: they are filed under strings of
  four bytes and looked up under the ids of the lords, so that with ids of any other length every
  reject rate is zero and no lord is ever blacklisted.\<close>

theorem rejects_never_counted:
  assumes "lr_inv (sv_lords sv)" "\<forall>k\<in>dom (lr_byID (sv_lords sv)). length k \<noteq> 4"
    and "\<forall>k sc. as_lords a k = Some sc \<longrightarrow> sc_Reject sc = 0"
    and "\<not> th_BlacklistReject (ac_Thresh cfg) < 0"
    and "iter_order (as_lords (Sample env cfg sv a)) (ae_scores env')"
    and "Decide env' cfg (Sample env cfg sv a) = (ds, a')"
  shows "(\<forall>d\<in>set ds. d_Action d \<noteq> ''blacklist'') \<and>
    (\<forall>k sc. as_lords a' k = Some sc \<longrightarrow> sc_Reject sc = 0)"
proof -
  let ?b = "Sample env cfg sv a" and ?now = "ae_now env'"
  have zero: "sc_Reject sc = 0" if sc: "as_lords ?b k = Some sc" for k sc
  proof -
    obtain e where e: "lr_byID (sv_lords sv) k = Some e" "l_lord_id (le_info e) = k"
      "sc = sample_lord env cfg (sample_rates env) (as_lords a) (le_info e)"
      using Sample_from [OF sc assms(1)] by blast
    have "length k \<noteq> 4" using assms(2) e(1) by blast
    then show ?thesis
      using e(2,3) sample_rates_long [of k env] assms(3)
      by (cases "as_lords a k") (simp_all add: sample_lord_def Let_def zero_f64_def)
  qed
  have at0: "sc_Reject (score_at (as_lords ?b) k) = 0" for k
    using zero [of k] by (cases "as_lords ?b k") (simp_all add: score_at_def zero_score_def)
  obtain bs where bs: "bs = by_score (as_lords ?b) (ae_scores env')" by simp
  have quiet: "blacklist_loop cfg ?now bs (as_lords ?b) [] = (as_lords ?b, [])"
    by (rule blacklist_loop_quiet) (simp add: bl_cond_def at0 assms(4))
  have "d_Action d \<noteq> ''blacklist''" if "d \<in> set ds" for d
    using that unfolding Decide_eq(1) [OF assms(5,6) bs refl] quiet
    by (auto simp: ol_dec_def rb_dec_def Let_def split: if_splits)
  moreover have "sc_Reject sc = 0" if sc: "as_lords a' k = Some sc" for k sc
  proof -
    obtain sc1 where sc1: "after_bl env' cfg ?b k = Some sc1" "sc_Reject sc = sc_Reject sc1"
      using upto_time_D [OF upto_time_Decide [OF assms(5,6)] sc] by metis
    then obtain sc0 where "as_lords ?b k = Some sc0" "sc_Reject sc1 = sc_Reject sc0"
      by (auto simp: after_bl_def bl_map_def split: if_splits)
    then show ?thesis using zero sc1(2) by metis
  qed
  ultimately show ?thesis by blast
qed

subsection \<open>Witnesses\<close>

definition demo_cfg :: autoscale_config where
  "demo_cfg = \<lparr>ac_Enabled = True, ac_Interval = 30 * Second, ac_Cooldown = 60 * Second, ac_MaxPerMin = 5,
     ac_Score = \<lparr>sw_CPU = f64_lit (3 / 5), sw_Mem = f64_lit (1 / 5), sw_TaskCount = f64_lit (1 / 10),
       sw_Reject = f64_lit (1 / 10), sw_Hysteresis = f64_lit (1 / 20)\<rparr>,
     ac_Thresh = \<lparr>th_OverloadCPU = f64_lit (4 / 5), th_RebalanceDelta = f64_lit (3 / 10),
       th_BlacklistReject = f64_lit (1 / 20), th_BlacklistDuration = 60 * Second,
       th_DeadGrace = 60 * Second\<rparr>\<rparr>"

definition demo_score :: "string \<Rightarrow> f64 \<Rightarrow> f64 \<Rightarrow> lord_score" where
  "demo_score lid cpu combined = \<lparr>sc_LordID = lid, sc_Hostname = lid, sc_CPU = cpu, sc_Mem = 0,
     sc_TaskCount = 0, sc_Reject = 0, sc_Combined = combined, sc_BlacklistUntil = 0,
     sc_LastMigration = 0\<rparr>"

text \<open>One hot and one idle lord.\<close>

definition demo_state :: autoscale_state where
  "demo_state = \<lparr>as_lords = [''a'' \<mapsto> demo_score ''a'' (Fin 2) (Fin 1), ''b'' \<mapsto> demo_score ''b'' 0 0],
     as_migrations = [], as_migrationLog = []\<rparr>"

definition demo_as_env :: "time \<Rightarrow> as_env" where
  "demo_as_env now = \<lparr>ae_now = now, ae_files = Map.empty, ae_stats = None, ae_lords = [''a'', ''b''],
     ae_scores = [''a'', ''b'']\<rparr>"

lemma demo_state_ok:
  "iter_order (as_lords demo_state) (ae_scores (demo_as_env now))" "scores_ok (as_lords demo_state)"
  "\<forall>k sc. as_lords demo_state k = Some sc \<longrightarrow> sc_Combined sc \<noteq> NaN"
  by (auto simp: iter_order_def demo_state_def demo_as_env_def scores_ok_def demo_score_def zero_f64_def
      split: if_splits)

lemma demo_decide:
  "map (\<lambda>d. (d_Action d, d_FromLord d, d_ToLord d)) (fst (Decide (demo_as_env (100 * Second)) demo_cfg demo_state)) =
     [(''migrate'', ''a'', ''b'')]"
  by code_simp

theorem Decide_migrations_exact_witness:
  "\<exists>ds a' d. Decide (demo_as_env (100 * Second)) demo_cfg demo_state = (ds, a') \<and> d \<in> set ds \<and>
     target_ok (as_lords a') (100 * Second) (d_FromLord d) (d_ToLord d)"
proof -
  obtain ds a' where dd: "Decide (demo_as_env (100 * Second)) demo_cfg demo_state = (ds, a')" by fastforce
  then obtain d where d: "d \<in> set ds" "d_Action d = ''migrate''"
    using demo_decide by (cases ds) auto
  have "ae_now (demo_as_env (100 * Second)) = 100 * Second" by (simp add: demo_as_env_def)
  then show ?thesis
    using Decide_migrations_exact [OF demo_state_ok dd] dd d by metis
qed

lemma sample_loop_dom:
  "dom (sample_loop env cfg rates prev es live0) = dom live0 \<union> (\<lambda>e. l_lord_id (le_info e)) ` set es"
proof (induction es arbitrary: live0)
  case (Cons e es)
  obtain live1 where l1: "live1 = live0(l_lord_id (le_info e) \<mapsto> sample_lord env cfg rates prev (le_info e))"
    by simp
  have "dom (sample_loop env cfg rates prev (e # es) live0) = dom (sample_loop env cfg rates prev es live1)"
    using l1 by simp
  also have "\<dots> = dom live1 \<union> (\<lambda>e. l_lord_id (le_info e)) ` set es" by (rule Cons.IH)
  also have "\<dots> = dom live0 \<union> (\<lambda>e. l_lord_id (le_info e)) ` set (e # es)" using l1 by auto
  finally show ?case .
qed simp

lemma iter_order_Sample:
  assumes "lr_inv (sv_lords sv)" "iter_order (lr_byID (sv_lords sv)) (ae_lords env)"
    and "iter_order (lr_byID (sv_lords sv)) ks"
  shows "iter_order (as_lords (Sample env cfg sv a)) ks"
proof -
  have "l_lord_id (le_info e) = k" if "lr_byID (sv_lords sv) k = Some e" for k e
    using lr_inv_entry [OF assms(1) that] by (simp add: entry_ok_def)
  then have "(\<lambda>e. l_lord_id (le_info e)) ` ran (lr_byID (sv_lords sv)) = dom (lr_byID (sv_lords sv))"
    unfolding ran_def dom_def by force
  then have "dom (as_lords (Sample env cfg sv a)) = dom (lr_byID (sv_lords sv))"
    by (simp add: Sample_def Let_def sample_loop_dom set_go_values_iter [OF assms(2)])
  then show ?thesis using assms(3) by (simp add: iter_order_def)
qed

lemma demo_lords_order: "iter_order (lr_byID (sv_lords demo_server)) [''a'', ''b'']"
  using demo_registry_order by (simp add: demo_server_tables)

theorem cooldown_respected_witness:
  "\<exists>ds a' d ds2 b'. Decide (demo_as_env (100 * Second)) demo_cfg demo_state = (ds, a') \<and> d \<in> set ds \<and>
     d_FromLord d = ''a'' \<and>
     Decide (demo_as_env (130 * Second)) demo_cfg (Sample (demo_as_env (130 * Second)) demo_cfg demo_server a') =
       (ds2, b') \<and> filter (\<lambda>d'. moves d' \<and> d_FromLord d' = ''a'') ds2 = []"
proof -
  obtain ds a' where dd: "Decide (demo_as_env (100 * Second)) demo_cfg demo_state = (ds, a')" by fastforce
  obtain ds2 b' where d2: "Decide (demo_as_env (130 * Second)) demo_cfg
      (Sample (demo_as_env (130 * Second)) demo_cfg demo_server a') = (ds2, b')" by fastforce
  from dd obtain d where d: "d \<in> set ds" "d_Action d = ''migrate''" "d_FromLord d = ''a''"
    using demo_decide by (cases ds) auto
  have m: "moves d" using d(2) by (simp add: moves_def)
  have lr: "lr_inv (sv_lords demo_server)" by (simp add: demo_server_tables demo_registry_inv)
  have ord: "iter_order (as_lords (Sample (demo_as_env (130 * Second)) demo_cfg demo_server a'))
      (ae_scores (demo_as_env (130 * Second)))"
    using iter_order_Sample [OF lr _ demo_lords_order] demo_lords_order by (simp add: demo_as_env_def)
  have t: "ae_now (demo_as_env (100 * Second)) \<noteq> 0"
    "time_Sub (ae_now (demo_as_env (130 * Second))) (ae_now (demo_as_env (100 * Second))) < ac_Cooldown demo_cfg"
    by (simp_all add: demo_as_env_def demo_cfg_def time_simps)
  have "\<forall>d'\<in>set ds2. moves d' \<longrightarrow> d_FromLord d' \<noteq> d_FromLord d"
    by (rule cooldown_respected [OF demo_state_ok(1,2) dd d(1) m t(1) lr refl ord d2 t(2)])
  then have "filter (\<lambda>d'. moves d' \<and> d_FromLord d' = ''a'') ds2 = []"
    using d(3) by (auto simp: filter_empty_conv)
  then show ?thesis using dd d d2 by blast
qed

theorem rate_limit_spares_overload_witness:
  "filter (\<lambda>d. d_Action d = ''migrate'') (fst (Decide (demo_as_env (100 * Second)) demo_cfg demo_state)) =
   filter (\<lambda>d. d_Action d = ''migrate'') (fst (Decide (demo_as_env (100 * Second)) demo_cfg
     (demo_state\<lparr>as_migrations := replicate 5 (90 * Second)\<rparr>)))"
  using rate_limit_spares_overload [OF demo_state_ok(1), of "100 * Second" demo_cfg _ _
      "replicate 5 (90 * Second)"]
  by (metis prod.collapse)

theorem readLordCPU_cumulative_witness:
  "\<not> readLordCPU [cgroup_path ''a'' ''cpu.stat'' \<mapsto> ''usage_usec '' @ show_nat 900000 @ CHR 0x0A # '''']
     ''a'' < f64_lit (4 / 5)"
proof (rule readLordCPU_cumulative)
  have "cgroup_path ''a'' ''cpu.usage_usec'' \<noteq> cgroup_path ''a'' ''cpu.stat''"
    by (simp add: cgroup_path_def)
  then show "[cgroup_path ''a'' ''cpu.stat'' \<mapsto> ''usage_usec '' @ show_nat 900000 @ CHR 0x0A # '''']
      (cgroup_path ''a'' ''cpu.usage_usec'') = None"
    by (metis fun_upd_other)
  show "[cgroup_path ''a'' ''cpu.stat'' \<mapsto> ''usage_usec '' @ show_nat 900000 @ CHR 0x0A # '''']
      (cgroup_path ''a'' ''cpu.stat'') = Some (''usage_usec '' @ show_nat 900000 @ CHR 0x0A # '''')"
    by (rule fun_upd_same)
qed (simp_all add: maxUint64_def)

theorem rejects_never_counted_witness:
  "\<exists>ds a'. Decide (demo_as_env 9) demo_cfg (Sample (demo_as_env 5) demo_cfg demo_server NewAutoscaleState) =
     (ds, a') \<and> filter (\<lambda>d. d_Action d = ''blacklist'') ds = []"
proof -
  obtain ds a' where dd: "Decide (demo_as_env 9) demo_cfg
      (Sample (demo_as_env 5) demo_cfg demo_server NewAutoscaleState) = (ds, a')" by fastforce
  have lr: "lr_inv (sv_lords demo_server)" by (simp add: demo_server_tables demo_registry_inv)
  have ord: "iter_order (as_lords (Sample (demo_as_env 5) demo_cfg demo_server NewAutoscaleState))
      (ae_scores (demo_as_env 9))"
    using iter_order_Sample [OF lr _ demo_lords_order] demo_lords_order by (simp add: demo_as_env_def)
  have four: "\<forall>k\<in>dom (lr_byID (sv_lords demo_server)). length k \<noteq> 4"
  proof -
    have "dom (lr_byID (sv_lords demo_server)) = {''a'', ''b''}"
      using demo_lords_order by (simp add: iter_order_def)
    then show ?thesis by simp
  qed
  have th: "\<not> th_BlacklistReject (ac_Thresh demo_cfg) < 0" by code_simp
  have z: "\<forall>k sc. as_lords NewAutoscaleState k = Some sc \<longrightarrow> sc_Reject sc = 0"
    by (simp add: NewAutoscaleState_def)
  have "filter (\<lambda>d. d_Action d = ''blacklist'') ds = []"
    using rejects_never_counted [OF lr four z th ord dd] unfolding filter_empty_conv by blast
  then show ?thesis using dd by blast
qed

definition demo_rebalance :: decision where
  "demo_rebalance = \<lparr>d_Action = ''rebalance'', d_FromLord = ''L1'', d_ToLord = ''a'',
     d_Reason = Score_delta 1 0\<rparr>"

theorem finished_process_blocks_migration_witness:
  "snd (applyDecision demo_env demo_rebalance (UpdateState demo_env 0 PROCESS_STATE_EXITED '''' 0 demo_server)) =
     UpdateState demo_env 0 PROCESS_STATE_EXITED '''' 0 demo_server"
proof -
  let ?sv = "UpdateState demo_env 0 PROCESS_STATE_EXITED '''' 0 demo_server"
  have al: "alloc demo_server 0"
    using alloc_live [OF demo_server_inv] demo_table_Get by (auto simp: live_def demo_server_tables)
  have i0: "sv_info ?sv 0 = set_state 50 PROCESS_STATE_EXITED '''' 0 (info_at demo_table 0)"
    unfolding sv_info_ops(1) [OF al] by (simp add: sv_info_def demo_server_tables demo_env_def)
  have i1: "sv_info ?sv 1 = demo_info ''p2'' ''t2'' ''L1''"
    unfolding sv_info_ops(1) [OF al]
    by (simp add: sv_info_def demo_server_tables demo_table_def PE_UpdateState_def info_at_def
        entry_at_def heap_modify PT_Create_simps PT_AttachWAL_def NewProcessTable_def new_entry_def)
  have get: "PT_Get (sv_processes ?sv) q = PT_Get demo_table q" for q
    by (simp add: demo_server_tables PT_Get_def)
  have only: "q = ''p2'' \<and> b = 1" if "PT_Get demo_table q = Some b" "q \<noteq> ''p1''" for q b
  proof -
    have "q \<in> set [''p2'', ''p1'']"
      using that(1) demo_table_order unfolding iter_order_def PT_Get_def by blast
    then show ?thesis using that demo_table_Get(2) by simp
  qed
  have a0: "process_age 50 (sv_info ?sv 0) = 0"
  proof -
    have "process_age 50 (sv_info ?sv 0) = f64_to_u64 (duration_Seconds 0)"
      by (simp add: process_age_def i0)
    also have "\<dots> = 0" by code_simp
    finally show ?thesis .
  qed
  have a1: "0 < process_age 50 (sv_info ?sv 1)"
  proof -
    have "pi_state_changed_at (demo_info ''p2'' ''t2'' ''L1'') = None"
      by (simp add: demo_info_def zero_process_info_def)
    then have "process_age 50 (sv_info ?sv 1) = f64_to_u64 (duration_Seconds (time_Sub 50 unixEpoch))"
      unfolding process_age_def i1 by simp
    moreover have "0 < f64_to_u64 (duration_Seconds (time_Sub 50 unixEpoch))" by code_simp
    ultimately show ?thesis by simp
  qed
  show ?thesis
  proof (rule finished_process_blocks_migration [where p = "''p1''" and a = 0])
    show "iter_order (pt_byID (sv_processes ?sv)) (ge_procs demo_env)"
      using demo_table_order by (simp add: demo_server_tables demo_env_def)
    show "PT_Get (sv_processes ?sv) ''p1'' = Some 0" unfolding get by (rule demo_table_Get(1))
    show "pi_lord_id (sv_info ?sv 0) = d_FromLord demo_rebalance"
      using demo_info_0 by (simp add: i0 demo_rebalance_def)
    show "final_state (pi_state (sv_info ?sv 0))" by (simp add: i0 final_state_def)
    have now: "ge_now demo_env = 50" by (simp add: demo_env_def)
    show "process_age (ge_now demo_env) (sv_info ?sv 0) < - 1" unfolding now a0 by code_simp
    show "\<forall>q b. q \<noteq> ''p1'' \<and> PT_Get (sv_processes ?sv) q = Some b \<and>
        pi_lord_id (sv_info ?sv b) = d_FromLord demo_rebalance \<longrightarrow>
        process_age (ge_now demo_env) (sv_info ?sv 0) < process_age (ge_now demo_env) (sv_info ?sv b)"
      unfolding now a0 get using only a1 by metis
  qed simp
qed

end
