(* ===== verification/Evolution.thy ===== *)
theory Evolution
  imports Autoscale
begin

section \<open>What no step of the scheduler changes\<close>

text \<open>
  A process keeps its program from its creation on: tenant, executable, arguments, environment,
  directory, resources, dump path and restart limit. Handlers and background goroutines change the
  state, the lord, the result and the counters only, no process disappears, and the number of
  restarts stays within the limit. The facts are proved of the tables once and lifted to every
  operation of the server.
\<close>

subsection \<open>Programs and restart budgets\<close>

definition program ::
  "process_info \<Rightarrow> string \<times> string \<times> string list \<times> str_map \<times> string \<times> resource_spec option \<times> string \<times> i32"
where
  "program i = (pi_tenant_id i, pi_exec_path i, pi_argv i, omit_empty (pi_env i), pi_working_dir i,
     pi_resources i, pi_state_dump_path i, pi_max_restarts i)"

text \<open>A limit that is not negative bounds the number of restarts.\<close>

definition within_budget :: "process_info \<Rightarrow> bool" where
  "within_budget i \<longleftrightarrow>
     (0 \<le> sint (pi_max_restarts i) \<longrightarrow>
        0 \<le> sint (pi_restart_count i) \<and> sint (pi_restart_count i) \<le> sint (pi_max_restarts i))"

definition budgets_ok :: "directory \<Rightarrow> bool" where
  "budgets_ok d \<longleftrightarrow> (\<forall>p i. d p = Some i \<longrightarrow> within_budget i)"

text \<open>Every entry is there for a validated order.\<close>

definition valid_dir :: "directory \<Rightarrow> bool" where
  "valid_dir d \<longleftrightarrow> (\<forall>p i. d p = Some i \<longrightarrow> p \<noteq> '''' \<and> valid_order i)"

lemma valid_order_program: "program j = program i \<Longrightarrow> valid_order j = valid_order i"
  by (simp add: program_def valid_order_def)

text \<open>How an entry may develop: the program stays, and within the budget the restarts only grow.\<close>

definition info_evolves :: "process_info \<Rightarrow> process_info \<Rightarrow> bool" where
  "info_evolves i j \<longleftrightarrow> program j = program i \<and>
     (within_budget i \<longrightarrow> within_budget j \<and>
        (0 \<le> sint (pi_max_restarts i) \<longrightarrow> sint (pi_restart_count i) \<le> sint (pi_restart_count j)))"

lemma info_evolves_refl [simp]: "info_evolves i i"
  by (simp add: info_evolves_def)

lemma info_evolves_trans: "info_evolves i j \<Longrightarrow> info_evolves j k \<Longrightarrow> info_evolves i k"
  by (auto simp: info_evolves_def program_def)

text \<open>How a directory may develop.\<close>

definition evolves :: "directory \<Rightarrow> directory \<Rightarrow> bool" where
  "evolves d d' \<longleftrightarrow>
     (\<forall>p i. d p = Some i \<longrightarrow> (\<exists>j. d' p = Some j \<and> info_evolves i j)) \<and>
     (budgets_ok d \<longrightarrow> budgets_ok d') \<and> (valid_dir d \<longrightarrow> valid_dir d')"

lemma evolves_refl [intro!, simp]: "evolves d d"
  by (simp add: evolves_def)

lemma evolves_info: "evolves d d' \<Longrightarrow> d p = Some i \<Longrightarrow> \<exists>j. d' p = Some j \<and> info_evolves i j"
  by (simp add: evolves_def)

lemma evolves_program: "evolves d d' \<Longrightarrow> d p = Some i \<Longrightarrow> \<exists>j. d' p = Some j \<and> program j = program i"
  using evolves_info [of d d' p i] by (auto simp: info_evolves_def)

lemma evolves_valid: "evolves d d' \<Longrightarrow> valid_dir d \<Longrightarrow> valid_dir d'"
  by (simp add: evolves_def)

lemma evolves_budgets: "evolves d d' \<Longrightarrow> budgets_ok d \<Longrightarrow> budgets_ok d'"
  by (simp add: evolves_def)

lemma evolves_trans:
  assumes "evolves d e" "evolves e f"
  shows "evolves d f"
proof -
  have "\<exists>k. f p = Some k \<and> info_evolves i k" if "d p = Some i" for p i
    using evolves_info [OF assms(1) that] evolves_info [OF assms(2)] info_evolves_trans by blast
  then show ?thesis
    using evolves_budgets [OF assms(1)] evolves_budgets [OF assms(2)] evolves_valid [OF assms(1)]
      evolves_valid [OF assms(2)] by (simp add: evolves_def)
qed

lemma evolves_map:
  assumes "\<And>p i. d p = Some i \<Longrightarrow> \<exists>j. d' p = Some j \<and> info_evolves i j"
    and "\<And>p. d p = None \<Longrightarrow> d' p = None"
  shows "evolves d d'"
proof -
  have "within_budget j" if "budgets_ok d" "d' p = Some j" for p j
    using assms(1) [of p] assms(2) [of p] that
    by (cases "d p") (auto simp: budgets_ok_def info_evolves_def)
  moreover have "p \<noteq> '''' \<and> valid_order j" if v: "valid_dir d" and j: "d' p = Some j" for p j
  proof -
    obtain i where i: "d p = Some i" using assms(2) [of p] j by (cases "d p") auto
    then have "program j = program i" using assms(1) j by (fastforce simp: info_evolves_def)
    then show ?thesis using i v valid_order_program [of j i] by (simp add: valid_dir_def)
  qed
  ultimately show ?thesis
    using assms(1) unfolding evolves_def budgets_ok_def valid_dir_def info_evolves_def by blast
qed

lemma evolves_create:
  "d p = None \<Longrightarrow> within_budget i \<Longrightarrow> p \<noteq> '''' \<Longrightarrow> valid_order i \<Longrightarrow> evolves d (d(p \<mapsto> i))"
  by (auto simp: evolves_def budgets_ok_def valid_dir_def)

text \<open>A closed channel stays closed, and its entry stays in the index.\<close>

definition keeps_closed :: "process_table \<Rightarrow> process_table \<Rightarrow> bool" where
  "keeps_closed t t' \<longleftrightarrow> (\<forall>p a. pt_byID t p = Some a \<and> pe_exited (entry_at t a) \<longrightarrow>
     pt_byID t' p = Some a \<and> pe_exited (entry_at t' a))"

lemma keeps_closed_refl [simp, intro!]: "keeps_closed t t"
  by (simp add: keeps_closed_def)

lemma keeps_closed_trans: "keeps_closed t u \<Longrightarrow> keeps_closed u v \<Longrightarrow> keeps_closed t v"
  unfolding keeps_closed_def by blast

lemma keeps_closed_with_wal [simp]: "keeps_closed t (with_wal f t)"
  by (simp add: keeps_closed_def)

lemma keeps_closed_modify:
  "(\<And>e. pe_exited e \<Longrightarrow> pe_exited (f e)) \<Longrightarrow> keeps_closed t (pt_modify a f t)"
  by (auto simp: keeps_closed_def entry_at_def heap_modify split: option.splits)

lemma keeps_closed_ops [simp]:
  "keeps_closed t (PE_UpdateState now a st l pid t)" "keeps_closed t (PE_UpdateResult now a c s t)"
  unfolding PE_UpdateState_def PE_UpdateResult_def
  by (rule keeps_closed_trans [OF keeps_closed_with_wal keeps_closed_modify], simp)+

lemma keeps_closed_Create:
  assumes "pt_inv t" "dir t (pi_process_id info) = None"
  shows "keeps_closed t (snd (PT_Create info t))"
  unfolding keeps_closed_def
proof (intro allI impI)
  fix p a assume a: "pt_byID t p = Some a \<and> pe_exited (entry_at t a)"
  then have "pt_heap t a \<noteq> None" using pt_inv_byID(1) [OF assms(1)] by auto
  moreover have "pt_heap t (pt_next t) = None" using assms(1) by (auto simp: pt_inv_def)
  moreover have "p \<noteq> pi_process_id info" using a assms(2) by (auto simp: dir_def)
  ultimately show "pt_byID (snd (PT_Create info t)) p = Some a \<and>
      pe_exited (entry_at (snd (PT_Create info t)) a)"
    using a by (auto simp: PT_Create_simps entry_at_def)
qed

lemma keeps_closed_UpdateLordForHostname [simp]:
  "keeps_closed t (snd (PT_UpdateLordForHostname ks ol nl t))"
proof -
  have "keeps_closed t (snd (rebind_loop ol nl as n t))" for as n
  proof (induction ol nl as n t rule: rebind_loop.induct)
    case (2 ol nl a as n t)
    have "keeps_closed t (pt_modify a (pe_upd_info (pi_set_lord nl)) t)"
      by (rule keeps_closed_modify) simp
    then show ?case using 2 by (auto intro: keeps_closed_trans)
  qed simp
  then show ?thesis by (simp add: PT_UpdateLordForHostname_def)
qed

subsection \<open>The operations of the tables\<close>

lemma info_at_modify_evolves:
  assumes "info_evolves (info_at t a) (pe_info (f (entry_at t a)))"
  shows "info_evolves (info_at t b) (info_at (pt_modify a f t) b)"
  using assms
  by (cases "pt_heap t a") (auto simp: info_at_def entry_at_def heap_modify)

lemma evolves_modify:
  assumes "info_evolves (info_at t a) (pe_info (f (entry_at t a)))"
  shows "evolves (dir t) (dir (pt_modify a f t))"
proof (rule evolves_map)
  fix p i assume "dir t p = Some i"
  then show "\<exists>j. dir (pt_modify a f t) p = Some j \<and> info_evolves i j"
    using info_at_modify_evolves [where f = f, OF assms] by (auto simp: dir_def)
qed (simp add: dir_def)

lemma info_evolves_writes [simp]:
  "info_evolves i (set_state now st l pid i)" "info_evolves i (set_result now c s i)"
  "info_evolves i (pi_set_lord l i)" "info_evolves i (pi_set_error msg i)"
  "info_evolves i (set_usage px i)"
  by (simp_all add: info_evolves_def program_def within_budget_def set_state_def set_result_def
      pi_set_lord_def pi_set_local_pid_def pi_set_error_def set_usage_def Let_def)

lemma evolves_UpdateState: "evolves (dir t) (dir (PE_UpdateState now a st l pid t))"
proof -
  let ?t = "with_wal (WAL_AppendState (pi_process_id (info_at t a)) st l pid) t"
  have "evolves (dir ?t) (dir (pt_modify a (pe_set_state now st l pid) ?t))"
    by (rule evolves_modify) (simp add: info_at_def)
  then show ?thesis by (simp add: PE_UpdateState_def)
qed

lemma evolves_UpdateResult: "evolves (dir t) (dir (PE_UpdateResult now a c s t))"
proof -
  let ?t = "with_wal (WAL_AppendResult (pi_process_id (info_at t a)) c s) t"
  have "evolves (dir ?t) (dir (pt_modify a (pe_upd_info (set_result now c s)) ?t))"
    by (rule evolves_modify) (simp add: info_at_def)
  then show ?thesis by (simp add: PE_UpdateResult_def)
qed

lemma evolves_UpdateLordForHostname:
  "evolves (dir t) (dir (snd (PT_UpdateLordForHostname ks ol nl t)))"
proof -
  have "evolves (dir t) (dir (snd (rebind_loop ol nl as n t)))" for as n
  proof (induction ol nl as n t rule: rebind_loop.induct)
    case (2 ol nl a as n t)
    have "evolves (dir t) (dir (pt_modify a (pe_upd_info (pi_set_lord nl)) t))"
      by (rule evolves_modify) (simp add: info_at_def)
    then show ?case using 2 by (auto intro: evolves_trans)
  qed simp
  then show ?thesis by (simp add: PT_UpdateLordForHostname_def)
qed

subsection \<open>The operations of the server\<close>

abbreviation sv_dir :: "server \<Rightarrow> directory" where
  "sv_dir sv \<equiv> dir (sv_processes sv)"

definition sv_evolves :: "server \<Rightarrow> server \<Rightarrow> bool" where
  "sv_evolves sv sv' \<longleftrightarrow> evolves (sv_dir sv) (sv_dir sv') \<and>
     keeps_closed (sv_processes sv) (sv_processes sv')"

lemma sv_evolves_refl [intro!, simp]: "sv_evolves sv sv"
  by (simp add: sv_evolves_def)

lemma sv_evolves_trans [trans]: "sv_evolves a b \<Longrightarrow> sv_evolves b c \<Longrightarrow> sv_evolves a c"
  unfolding sv_evolves_def using evolves_trans keeps_closed_trans by blast

lemma sv_evolves_same: "sv_processes sv' = sv_processes sv \<Longrightarrow> sv_evolves sv sv'"
  by (simp add: sv_evolves_def)

lemma sv_evolves_cong: "sv_processes b' = sv_processes b \<Longrightarrow> sv_evolves a b' = sv_evolves a b"
  by (simp add: sv_evolves_def)

lemma sv_evolves_UpdateState: "sv_evolves sv (UpdateState env a st l pid sv)"
  by (simp add: sv_evolves_def evolves_UpdateState)

lemma sv_evolves_UpdateResult: "sv_evolves sv (UpdateResult env a c s sv)"
  by (simp add: sv_evolves_def evolves_UpdateResult)

lemma sv_evolves_upd_info:
  "info_evolves (sv_info sv a) (f (sv_info sv a)) \<Longrightarrow> sv_evolves sv (upd_info a f sv)"
  by (simp add: sv_evolves_def evolves_modify keeps_closed_modify sv_info_def info_at_def)

lemma sv_evolves_modify:
  assumes "\<And>e. pe_info (f e) = pe_info e" "\<And>e. pe_exited (f e) = pe_exited e"
  shows "sv_evolves sv (on_processes (pt_modify a f) sv)"
  by (simp add: sv_evolves_def evolves_modify keeps_closed_modify assms info_at_def)

lemma sv_evolves_give_up: "sv_evolves sv (give_up env a msg c sv)"
  unfolding give_up_def
  by (intro sv_evolves_trans [OF _ sv_evolves_UpdateResult]
      sv_evolves_trans [OF _ sv_evolves_UpdateState] sv_evolves_upd_info info_evolves_writes)

lemma within_budget_relaunch:
  assumes "\<not> (0 \<le> sint (pi_max_restarts i) \<and> sint (pi_max_restarts i) \<le> sint (pi_restart_count i))"
  shows "info_evolves i (pi_relaunch l i)"
proof -
  have "sint (pi_restart_count i + 1) = sint (pi_restart_count i) + 1"
    if "0 \<le> sint (pi_max_restarts i)" "0 \<le> sint (pi_restart_count i)"
    using that assms sint_i32_bounds(2) [of "pi_max_restarts i"]
    by (simp add: sint_word_ariths signed_take_bit_int_eq_self)
  then show ?thesis
    using assms
    by (auto simp: info_evolves_def program_def within_budget_def pi_relaunch_def pi_set_lord_def)
qed

lemma evolve_then:
  "sv_evolves sv sv1 \<Longrightarrow> sv_evolves sv (UpdateState env a st l pid sv1)"
  "sv_evolves sv sv1 \<Longrightarrow> sv_evolves sv (UpdateResult env a c s sv1)"
  "sv_evolves sv sv1 \<Longrightarrow> sv_evolves sv (give_up env a msg c sv1)"
  by (blast intro: sv_evolves_trans sv_evolves_UpdateState sv_evolves_UpdateResult
      sv_evolves_give_up)+

text \<open>The calls of the tenants.\<close>

lemma SendSpawn_processes: "SendSpawn env l req sv = (r, sv') \<Longrightarrow> sv_processes sv' = sv_processes sv"
  using SendSpawn_frame(1) [of env l req sv] by simp

lemma sv_evolves_Spawn:
  assumes "sv_inv sv" "PT_Get (sv_processes sv) (ge_id env) = None" "ge_id env \<noteq> ''''"
  shows "sv_evolves sv (snd (Spawn env req sv))"
proof (cases "Spawn env req sv")
  case (Pair r sv')
  have budget: "within_budget (spawn_info env l req)" for l
    by (simp add: within_budget_def spawn_info_def zero_process_info_def)
  have cr: "sv_evolves sv (on_processes (\<lambda>t. snd (PT_Create (spawn_info env l req) t)) sv)"
    if "sr_tenant_id req \<noteq> ''''" "sr_exec_path req \<noteq> ''''" "validateResources (sr_resources req) = None" for l
    using assms(2,3) budget spawn_info_fresh [OF assms(3) that]
    by (simp add: sv_evolves_def dir_Create [OF tbl_invD(1) [OF sv_invD(1) [OF assms(1)]]]
        evolves_create keeps_closed_Create [OF tbl_invD(1) [OF sv_invD(1) [OF assms(1)]]] dir_Get
        fresh_info_def)
  from Pair have "sv_evolves sv sv'"
  proof (cases rule: Spawn_cases)
    case (failed l err)
    then show ?thesis
      using cr [of "l_lord_id l"] by (simp add: evolve_then)
  next
    case (spawned l sv1)
    have "sv_processes sv' = sv_processes sv1"
      using spawned SendSpawn_processes by (metis on_processes_frame(1))
    then show ?thesis using cr [of "l_lord_id l"] spawned by (simp add: sv_evolves_def)
  qed simp
  then show ?thesis using Pair by simp
qed

lemma sv_evolves_Kill: "sv_evolves sv (snd (Kill env req sv))"
proof -
  have "snd (Kill env req sv) \<in> {sv} \<union> {snd (SendKill env l r sv) | l r. True}"
    unfolding Kill_def Let_def by (auto split: option.split prod.split) (metis snd_conv)+
  then show ?thesis by (auto intro: sv_evolves_same)
qed

lemma sv_evolves_WriteStdin_send: "sv_evolves sv (snd (WriteStdin_send env req sv))"
  by (rule sv_evolves_same)
    (auto simp: WriteStdin_send_def Let_def registerWriteStdinWaiter_def put_waiter_def del_waiter_def
      unregisterWriteStdinWaiter_def put_session_def split: option.split sum.split)

lemma sv_evolves_WriteStdin_wait:
  "WriteStdin_wait wake p ch sv = Some (r, sv') \<Longrightarrow> sv_evolves sv sv'"
  by (rule sv_evolves_same)
    (auto simp: WriteStdin_wait_def unregisterWriteStdinWaiter_def del_waiter_def
      split: stdin_wake.splits option.splits)

lemma sv_evolves_deliver: "sv_evolves sv (deliverWriteStdinAck ack sv)"
  by (rule sv_evolves_same) (auto simp: deliverWriteStdinAck_def split: option.split)

lemma sv_evolves_StreamProcessIO_step:
  "StreamProcessIO_step wake a n sv = Some (cs, nx, sv') \<Longrightarrow> sv_evolves sv sv'"
  by (auto simp: StreamProcessIO_step_def Let_def set_ioLastSent_def
      split: prod.splits stream_wake.splits if_splits option.splits intro!: sv_evolves_modify)

lemma sv_evolves_Shutdown: "sv_evolves sv (snd (Shutdown c c' ks d sv))"
proof -
  have "sv_processes (snd (shutdown_loop g c ks sv)) = sv_processes sv" for g
    by (induction g c ks sv rule: shutdown_loop.induct) (auto split: option.split)
  then show ?thesis
    by (intro sv_evolves_same) (simp add: Shutdown_def case_prod_beta split: option.split)
qed

text \<open>The messages of a lord.\<close>

lemma sv_evolves_Connect_start: "sv_evolves sv (snd (Connect_start env first sv))"
proof -
  have "sv_evolves sv (on_processes (\<lambda>t. snd (PT_UpdateLordForHostname ks ol nl t)) sv')"
    if "sv_processes sv' = sv_processes sv" for ks ol nl sv'
    using that by (simp add: sv_evolves_def evolves_UpdateLordForHostname)
  then have "sv_evolves sv (rebind_hostname env h l sv')" if "sv_processes sv' = sv_processes sv" for h l sv'
    using that by (simp add: rebind_hostname_def Let_def sv_evolves_same)
  then show ?thesis
    by (auto simp: Connect_start_def Let_def sv_evolves_cong [OF push_event_frame(1)]
        split: sum.split lord_cmd.split)
qed

lemma sv_evolves_recv_cmd: "sv_evolves sv (recv_cmd env lordID cmd sv)"
proof (cases cmd)
  case (Cmd_Started started)
  show ?thesis
    by (simp add: Cmd_Started recv_cmd_def sv_evolves_def processes_handleStarted pt_state_def
        evolves_UpdateState split: option.split)
next
  case (Cmd_ProcessExit px)
  have "sv_evolves sv (upd_info a (set_usage px) sv)" for a
    by (rule sv_evolves_upd_info) simp
  then have "sv_evolves sv (UpdateResult env a c s (UpdateState env a st l p (upd_info a (set_usage px) sv)))"
    for a c s st l p by (intro evolve_then)
  then have "sv_evolves sv (handleProcessExit env lordID px sv)"
    by (simp add: handleProcessExit_def Let_def sv_evolves_cong [OF on_session_frame(1)]
        split: option.split)
  then show ?thesis by (simp add: Cmd_ProcessExit recv_cmd_def)
next
  case (Cmd_Io io)
  have "sv_evolves sv (handleIo io sv)"
    by (auto simp: handleIo_def write_ioBuf_def split: option.split intro!: sv_evolves_modify)
  then show ?thesis by (simp add: Cmd_Io recv_cmd_def)
qed (auto simp: recv_cmd_def sv_evolves_deliver intro: sv_evolves_same)

lemma sv_evolves_Connect_cleanup: "sv_evolves sv (Connect_cleanup lordID sv)"
  by (rule sv_evolves_same) (simp add: Connect_cleanup_def onLordDisconnect_def)

text \<open>Recovery and migration.\<close>

lemma sv_evolves_relaunch:
  assumes "\<not> (0 \<le> sint (pi_max_restarts (sv_info sv a)) \<and>
      sint (pi_max_restarts (sv_info sv a)) \<le> sint (pi_restart_count (sv_info sv a)))"
  shows "sv_evolves sv (upd_info a (pi_relaunch l) (UpdateState env a st l' p sv))"
proof (rule sv_evolves_trans [OF sv_evolves_UpdateState])
  let ?sv = "UpdateState env a st l' p sv"
  have "pi_max_restarts (sv_info ?sv a) = pi_max_restarts (sv_info sv a)"
    "pi_restart_count (sv_info ?sv a) = pi_restart_count (sv_info sv a)"
    by (simp_all add: sv_info_def info_at_def entry_at_def PE_UpdateState_def heap_modify set_state_def
        Let_def pi_set_lord_def pi_set_local_pid_def split: option.split)
  then show "sv_evolves ?sv (upd_info a (pi_relaunch l) ?sv)"
    using assms by (intro sv_evolves_upd_info within_budget_relaunch) simp
qed

lemma sv_evolves_respawn: "sv_evolves sv (snd (respawnProcessOnLord env a l sv))"
proof -
  obtain r sv' where r: "respawnProcessOnLord env a l sv = (r, sv')" by fastforce
  from r have "sv_evolves sv sv'"
  proof (cases rule: respawn_cases)
    case (failed sv2 err)
    have "sv_evolves sv sv2" unfolding failed(2) by (rule sv_evolves_relaunch [OF failed(6)])
    then show ?thesis unfolding failed(5) by (rule evolve_then)
  next
    case (sent sv2 sv3)
    have "sv_evolves sv sv2" unfolding sent(3) by (rule sv_evolves_relaunch [OF sent(2)])
    moreover have "sv_processes sv' = sv_processes sv2"
      using SendSpawn_processes [OF sent(4)] sent(6) by simp
    ultimately show ?thesis by (simp add: sv_evolves_def)
  qed (simp_all add: sv_evolves_give_up)
  then show ?thesis using r by simp
qed

lemma sv_evolves_respawn_pass: "sv_evolves sv (snd (respawn_pass env l as n sv))"
proof (induction env l as n sv rule: respawn_pass.induct)
  case (2 env l a as n sv)
  obtain r sv1 where r: "respawnProcessOnLord env a l sv = (r, sv1)" by fastforce
  then have "sv_evolves sv sv1" using sv_evolves_respawn by (metis snd_conv)
  then show ?case
    using 2(1) [OF r [symmetric]] 2(2) [OF r [symmetric]] r
    by (cases r) (auto intro: sv_evolves_trans)
qed simp

lemma sv_evolves_recovery_step:
  assumes "recovery_step env r sv = (nxt, sv1)"
  shows "sv_evolves sv sv1"
proof (cases r)
  case (R_start l)
  then show ?thesis
    using assms
    by (intro sv_evolves_same) (auto simp: recovery_start_def Let_def split: option.splits if_splits)
next
  case (R_attempt l as n)
  then have "sv1 = sv \<or> (\<exists>target. sv1 = snd (respawn_pass env target as 0 sv))"
    using assms by (auto simp: recovery_attempt_def split: prod.splits option.splits) (metis snd_conv)
  then show ?thesis using sv_evolves_respawn_pass by auto
next
  case (R_finish l as)
  have "sv_evolves sv (recovery_finish env as sv)"
    by (induction env as sv rule: recovery_finish.induct)
      (auto intro: sv_evolves_trans [OF sv_evolves_give_up])
  then show ?thesis using assms R_finish by simp
qed

lemma sv_evolves_run_recovery: "sv_evolves sv (run_recovery env i sv)"
proof (cases "i < length (sv_recoveries sv)")
  case True
  obtain nxt sv1 where st: "recovery_step env (sv_recoveries sv ! i) sv = (nxt, sv1)" by fastforce
  then show ?thesis
    using True sv_evolves_recovery_step [OF st] by (simp add: run_recovery_def sv_evolves_def)
qed (simp add: run_recovery_def)

lemma sv_evolves_respawn_timer: "sv_evolves sv (respawn_timer env a sv)"
  by (auto simp: respawn_timer_def Let_def intro!: evolve_then intro: sv_evolves_same)

lemma sv_evolves_Migrate: "sv_evolves sv (snd (Migrate env req sv))"
proof -
  have "\<exists>a l. snd (Migrate env req sv) \<in> {sv, snd (respawnProcessOnLord env a l sv)}"
    unfolding Migrate_def Let_def by (auto split: option.split prod.split) (metis snd_conv)+
  then show ?thesis using sv_evolves_respawn by auto
qed

lemma sv_evolves_applyDecision: "sv_evolves sv (snd (applyDecision env d sv))"
proof -
  have "\<exists>req. snd (applyDecision env d sv) \<in> {sv, snd (Migrate env req sv)}"
    unfolding applyDecision_def Let_def by (auto split: prod.split sum.split) (metis snd_conv)+
  then show ?thesis using sv_evolves_Migrate by auto
qed

lemma sv_evolves_apply_loop: "sv_evolves sv (apply_loop envs n ds sv)"
  by (induction envs n ds sv rule: apply_loop.induct)
    (auto intro: sv_evolves_trans [OF sv_evolves_applyDecision])

end
