(* ===== verification/System.thy ===== *)
theory System
  imports Evolution
begin

section \<open>The scheduler as a whole\<close>

text \<open>
  The running scheduler is the server together with the memory of the autoscaler. A run starts on
  the log it finds, makes one step per handler call, message, goroutine step or tick, in any order,
  and may stop at any moment: the next run starts on the log of the last one, or on a beginning
  of it when the last lines did not reach the disk.
\<close>

record system =
  sys_server :: server
  sys_scores :: autoscale_state

definition system_start ::
  "(nat \<Rightarrow> time) \<Rightarrow> wal_file \<Rightarrow> string \<Rightarrow> system option" where
  "system_start clk f algo =
     (case scheduler_startup_wal clk f of
        None \<Rightarrow> None
      | Some (pt, _) \<Rightarrow>
          Some \<lparr>sys_server = NewServer pt (NewLordRegistry algo), sys_scores = NewAutoscaleState\<rparr>)"

definition SweepHeartbeats :: "go_env \<Rightarrow> duration \<Rightarrow> server \<Rightarrow> string list \<times> server" where
  "SweepHeartbeats env ttl sv =
     (case Lords_SweepHeartbeats (ge_now env) ttl (ge_lords env) (sv_lords sv) of
        (lost, r) \<Rightarrow> (lost, on_lords (\<lambda>_. r) sv))"

text \<open>What a step may rely on: a fresh id (that of a new lord is fresh among the lords as well), and
  iteration orders that enumerate the maps.\<close>

definition env_ok :: "go_env \<Rightarrow> server \<Rightarrow> bool" where
  "env_ok env sv \<longleftrightarrow> ge_id env \<noteq> '''' \<and> PT_Get (sv_processes sv) (ge_id env) = None \<and>
     iter_order (lr_byID (sv_lords sv)) (ge_lords env) \<and>
     iter_order (pt_byID (sv_processes sv)) (ge_procs env)"

text \<open>The steps of the server: the calls, the streams, the goroutines.\<close>

inductive server_step :: "server \<Rightarrow> server \<Rightarrow> bool" where
  spawn: "env_ok env sv \<Longrightarrow> server_step sv (snd (Spawn env req sv))"
| kill: "env_ok env sv \<Longrightarrow> server_step sv (snd (Kill env req sv))"
| migrate: "env_ok env sv \<Longrightarrow> server_step sv (snd (Migrate env req sv))"
| stdin_send: "env_ok env sv \<Longrightarrow> server_step sv (snd (WriteStdin_send env req sv))"
| stdin_wait: "WriteStdin_wait wake p ch sv = Some (r, sv') \<Longrightarrow> server_step sv sv'"
| follow: "StreamProcessIO_step wake a n sv = Some (cs, nxt, sv') \<Longrightarrow> server_step sv sv'"
| shutdown: "server_step sv (snd (Shutdown cancelled later ks d sv))"
| connect: "env_ok env sv \<Longrightarrow> Lords_Get (sv_lords sv) (ge_id env) = None \<Longrightarrow>
    server_step sv (snd (Connect_start env first sv))"
| receive: "env_ok env sv \<Longrightarrow> sv_sessions sv l = Some sess \<Longrightarrow> server_step sv (recv_cmd env l cmd sv)"
| send: "sv_sessions sv l = Some sess \<Longrightarrow>
    server_step sv (on_session l (\<lambda>s. snd (sendLoop_step oc s)) sv)"
| late: "sv_sessions sv l = Some sess \<Longrightarrow> server_step sv (on_session l (late_send i taken) sv)"
| disconnect: "sv_sessions sv l = Some sess \<Longrightarrow> server_step sv (Connect_cleanup l sv)"
| sweep: "env_ok env sv \<Longrightarrow> server_step sv (snd (SweepHeartbeats env ttl sv))"
| recover: "env_ok env sv \<Longrightarrow> server_step sv (run_recovery env i sv)"
| timer: "a \<in> set (sv_timers sv) \<Longrightarrow> server_step sv (respawn_timer env a sv)"

inductive sched_step :: "autoscale_config \<Rightarrow> system \<Rightarrow> system \<Rightarrow> bool" for cfg where
  serve: "server_step (sys_server s) sv' \<Longrightarrow> sched_step cfg s (s\<lparr>sys_server := sv'\<rparr>)"
| tick: "autoscale_tick env env' envs cfg (sys_scores s) (sys_server s) = (scores, sv') \<Longrightarrow>
    sched_step cfg s (s\<lparr>sys_server := sv', sys_scores := scores\<rparr>)"

inductive_cases server_stepE: "server_step sv sv'"
inductive_cases sched_stepE: "sched_step cfg s s'"

inductive reachable :: "autoscale_config \<Rightarrow> string \<Rightarrow> system \<Rightarrow> bool" for cfg algo where
  first: "system_start clk F_missing algo = Some s \<Longrightarrow> reachable cfg algo s"
| step: "reachable cfg algo s \<Longrightarrow> sched_step cfg s s' \<Longrightarrow> reachable cfg algo s'"
| restart: "reachable cfg algo s \<Longrightarrow> pt_wal (sv_processes (sys_server s)) = Some ls \<Longrightarrow>
    system_start clk (F_lines (take n ls)) algo = Some s' \<Longrightarrow> reachable cfg algo s'"

subsection \<open>Every step keeps the invariant and lets the directory evolve\<close>

lemma sv_inv_apply_loop: "sv_inv sv \<Longrightarrow> sv_inv (apply_loop envs n ds sv)"
proof (induction envs n ds sv rule: apply_loop.induct)
  case (2 envs n d ds sv)
  have "\<exists>req. snd (applyDecision (envs n) d sv) \<in> {sv, snd (Migrate (envs n) req sv)}"
    unfolding applyDecision_def Let_def by (auto split: prod.split sum.split) (metis snd_conv)+
  then have "sv_inv (snd (applyDecision (envs n) d sv))" using 2(2) sv_inv_Migrate by auto
  then show ?case using 2(1) by simp
qed simp

lemma SweepHeartbeats_snd:
  "snd (SweepHeartbeats env ttl sv) =
     on_lords (\<lambda>r. snd (Lords_SweepHeartbeats (ge_now env) ttl (ge_lords env) r)) sv"
  by (simp add: SweepHeartbeats_def on_lords_def case_prod_beta)

lemma server_step_inv:
  assumes "server_step sv sv'" "sv_inv sv"
  shows "sv_inv sv'"
  using assms
proof (cases rule: server_step.cases)
  case (send l sess oc)
  have "sess_ok l (snd (sendLoop_step oc s))" if "sess_ok l s" for s
    using that by (simp add: sess_ok_def outbox_sendLoop_bounded)
  then show ?thesis using send assms(2) by (simp add: sv_inv_on_session)
next
  case (late l sess i taken)
  have "sess_ok l (late_send i taken s)" if "sess_ok l s" for s
    using that by (simp add: sess_ok_def)
  then show ?thesis using late assms(2) by (simp add: sv_inv_on_session)
next
  case (timer a env)
  then have "a \<in> pending sv" by (simp add: pending_def)
  then show ?thesis using timer assms(2) sv_invD(4) sv_inv_respawn_timer by blast
qed (use assms(2) in \<open>auto simp: env_ok_def SweepHeartbeats_snd intro: sv_inv_Spawn sv_inv_Kill
    sv_inv_Migrate sv_inv_WriteStdin_send sv_inv_WriteStdin_wait sv_inv_StreamProcessIO_step
    sv_inv_Shutdown sv_inv_Connect_start sv_inv_recv_cmd sv_inv_Connect_cleanup sv_inv_run_recovery
    intro!: sv_inv_on_lords lr_inv_Sweep sv_invD(2)\<close>)

lemma server_step_evolves:
  assumes "server_step sv sv'" "sv_inv sv"
  shows "sv_evolves sv sv'"
  using assms
  by (cases rule: server_step.cases)
    (auto simp: env_ok_def SweepHeartbeats_snd intro: sv_evolves_Spawn sv_evolves_Kill
      sv_evolves_Migrate sv_evolves_WriteStdin_send sv_evolves_WriteStdin_wait
      sv_evolves_StreamProcessIO_step sv_evolves_Shutdown sv_evolves_Connect_start
      sv_evolves_recv_cmd sv_evolves_Connect_cleanup sv_evolves_run_recovery
      sv_evolves_respawn_timer, auto intro!: sv_evolves_same)

lemma sched_step_props:
  assumes "sched_step cfg s s'" "sv_inv (sys_server s)"
  shows "sv_inv (sys_server s') \<and> sv_evolves (sys_server s) (sys_server s')"
  using assms
proof (cases rule: sched_step.cases)
  case (serve sv')
  then show ?thesis using server_step_inv server_step_evolves assms(2) by simp
next
  case (tick env env' envs scores sv')
  then have "sv' = apply_loop envs 0 (fst (Decide env' cfg (Sample env cfg (sys_server s) (sys_scores s))))
      (sys_server s)"
    by (auto simp: autoscale_tick_def split: prod.splits)
  then show ?thesis
    using tick sv_inv_apply_loop [OF assms(2)] sv_evolves_apply_loop by simp
qed

text \<open>Over any number of steps.\<close>

lemma steps_evolve:
  assumes "sv_inv (sys_server s)" "(sched_step cfg)\<^sup>*\<^sup>* s s'"
  shows "sv_inv (sys_server s') \<and> sv_evolves (sys_server s) (sys_server s')"
  using assms(2)
proof induction
  case (step s1 s2)
  then show ?case using sched_step_props by (blast intro: sv_evolves_trans)
qed (simp add: assms(1))

subsection \<open>What happens to the registry\<close>




















subsection \<open>Starting\<close>

text \<open>A start on the log of an earlier run, or a beginning of it.\<close>

lemma system_start_server:
  assumes "system_start clk f algo = Some s"
  obtains t f' where "scheduler_startup_wal clk f = Some (t, f')"
    "sys_server s = NewServer t (NewLordRegistry algo)"
  using assms by (auto simp: system_start_def split: option.splits)

lemma sv_inv_New:
  "tbl_inv t \<Longrightarrow> sv_inv (NewServer t (NewLordRegistry algo))"
  by (auto simp: sv_inv_def NewServer_def pending_def lr_inv_New)

lemma startup_missing: "scheduler_startup_wal clk F_missing = scheduler_startup_wal clk (F_lines [L_header])"
  by (simp add: scheduler_startup_wal_def WriteHeader_def)

lemma startup_tbl_inv:
  assumes "scheduler_startup_wal clk (F_lines ls) = Some (t, f)" "\<forall>line\<in>set ls. fresh_line line"
  shows "tbl_inv t"
  using startup_lines_dir [OF assms(1)] wal_inv_startup [OF assms(1)] exit_inv_startup [OF assms] assms(2)
  by (simp add: tbl_inv_def log_fresh_def)

definition heap_all :: "(process_info \<Rightarrow> bool) \<Rightarrow> process_table \<Rightarrow> bool" where
  "heap_all Q t \<longleftrightarrow> (\<forall>a e. pt_heap t a = Some e \<longrightarrow> Q (pe_info e))"

lemma heap_all_modify:
  assumes "heap_all Q t" "\<And>e. Q (pe_info e) \<Longrightarrow> Q (pe_info (f e))"
  shows "heap_all Q (pt_modify a f t)"
  using assms by (auto simp: heap_all_def heap_modify split: if_splits)

lemma within_budget_writes:
  "within_budget i \<Longrightarrow> within_budget (set_state now st l pid i)"
  "within_budget i \<Longrightarrow> within_budget (set_result now c s i)"
  using info_evolves_writes(1,2) unfolding info_evolves_def by blast+

text \<open>What holds of new processes and survives the events of the log holds after a start.\<close>

lemma startup_all:
  assumes "scheduler_startup_wal clk (F_lines ls) = Some (t, f)" "\<forall>line\<in>set ls. fresh_line line"
    and "\<And>i. fresh_info i \<Longrightarrow> Q i"
    and "\<And>now st l pid i. Q i \<Longrightarrow> Q (set_state now st l pid i)"
    and "\<And>now c s i. Q i \<Longrightarrow> Q (set_result now c s i)" and "dir t p = Some i"
  shows "Q i"
proof -
  have "heap_all Q t"
  proof (rule startup_keeps [of "heap_all Q", OF _ _ _ _ _ assms(2,1)])
    show "heap_all Q (snd (PT_Create info t))" if "fresh_info info" "heap_all Q t" for info t
      using that assms(3) by (auto simp: heap_all_def PT_Create_simps new_entry_def)
    show "heap_all Q (PE_UpdateState now a st l pid t)" if "heap_all Q t" for now a st l pid t
      unfolding PE_UpdateState_def using that
      by (intro heap_all_modify) (simp_all add: heap_all_def assms(4))
    show "heap_all Q (PE_UpdateResult now a c s t)" if "heap_all Q t" for now a c s t
      unfolding PE_UpdateResult_def using that
      by (intro heap_all_modify) (simp_all add: heap_all_def assms(5))
    show "heap_all Q NewProcessTable"
      by (simp add: heap_all_def NewProcessTable_def)
    show "heap_all Q (PT_AttachWAL ls t) = heap_all Q t" for t
      by (simp add: heap_all_def PT_AttachWAL_def)
  qed
  moreover obtain a where a: "pt_byID t p = Some a" "i = info_at t a"
    using assms(6) by (auto simp: dir_def)
  moreover obtain e where "pt_heap t a = Some e"
    using pt_inv_byID(1) [OF startup_lines_dir(3) [OF assms(1)] a(1)] by auto
  ultimately show ?thesis by (auto simp: info_at_def heap_all_def)
qed

lemma startup_budgets:
  assumes "scheduler_startup_wal clk (F_lines ls) = Some (t, f)" "\<forall>line\<in>set ls. fresh_line line"
  shows "budgets_ok (dir t)"
  unfolding budgets_ok_def
proof (intro allI impI)
  fix p i assume d: "dir t p = Some i"
  show "within_budget i"
  proof (rule startup_all [OF assms _ _ _ d])
    show "within_budget j" if "fresh_info j" for j
      using that by (simp add: fresh_info_def within_budget_def)
  qed (simp_all add: within_budget_writes)
qed

lemma startup_valid:
  assumes "scheduler_startup_wal clk (F_lines ls) = Some (t, f)" "\<forall>line\<in>set ls. fresh_line line"
  shows "valid_dir (dir t)"
  unfolding valid_dir_def
proof (intro allI impI)
  fix p i assume d: "dir t p = Some i"
  have "pi_process_id i \<noteq> '''' \<and> valid_order i"
    by (rule startup_all [OF assms _ _ _ d])
      (simp_all add: fresh_info_def valid_order_def set_state_def set_result_def pi_set_lord_def
        pi_set_local_pid_def Let_def)
  moreover have "pi_process_id i = p"
    using d pt_inv_byID(2) [OF startup_lines_dir(3) [OF assms(1)]] by (auto simp: dir_def)
  ultimately show "p \<noteq> '''' \<and> valid_order i" by simp
qed

lemma system_start_props:
  assumes "system_start clk (F_lines ls) algo = Some s" "\<forall>line\<in>set ls. fresh_line line"
  shows "sv_inv (sys_server s)" "budgets_ok (sv_dir (sys_server s))" "valid_dir (sv_dir (sys_server s))"
proof -
  obtain t f' where t: "scheduler_startup_wal clk (F_lines ls) = Some (t, f')"
    "sys_server s = NewServer t (NewLordRegistry algo)"
    by (rule system_start_server [OF assms(1)])
  show "sv_inv (sys_server s)" unfolding t(2) by (intro sv_inv_New startup_tbl_inv [OF t(1) assms(2)])
  show "budgets_ok (sv_dir (sys_server s))"
    using startup_budgets [OF t(1) assms(2)] by (simp add: t(2) NewServer_def)
  show "valid_dir (sv_dir (sys_server s))"
    using startup_valid [OF t(1) assms(2)] by (simp add: t(2) NewServer_def)
qed

lemma system_start_missing: "system_start clk F_missing algo = system_start clk (F_lines [L_header]) algo"
  by (simp add: system_start_def startup_missing)

lemma reachable_props:
  assumes "reachable cfg algo s"
  shows "sv_inv (sys_server s) \<and> budgets_ok (sv_dir (sys_server s)) \<and> valid_dir (sv_dir (sys_server s))"
  using assms
proof induction
  case (first clk s)
  then show ?case using system_start_props [of clk "[L_header]"] by (simp add: system_start_missing)
next
  case (step s s')
  then show ?case using sched_step_props evolves_budgets evolves_valid unfolding sv_evolves_def by blast
next
  case (restart s ls clk n s')
  have "\<forall>line\<in>set ls. fresh_line line"
    using tbl_invD(4) [OF sv_invD(1), of "sys_server s"] restart by (simp add: log_fresh_def)
  then have "\<forall>line\<in>set (take n ls). fresh_line line" by (meson in_set_takeD)
  then show ?case using system_start_props restart(3) by blast
qed

lemma replay_all_take:
  "replay_all step clk n ls x \<noteq> None \<Longrightarrow> replay_all step clk n (take k ls) x \<noteq> None"
proof (induction step clk n ls x arbitrary: k rule: replay_all.induct)
  case (2 step clk n ev ls s)
  then show ?case by (cases k) (auto split: option.splits)
qed (auto simp: take_Cons')

lemma system_start_defined:
  assumes "tbl_inv t" "pt_wal t = Some ls"
  shows "\<exists>s. system_start clk (F_lines (take n ls)) algo = Some s"
proof -
  have "replay_all dir_event clk 0 ls Map.empty \<noteq> None"
    using tbl_invD(3) [OF assms(1)] assms(2) by (auto simp: wal_inv_def log_explains_def)
  then have "replay_all dir_event clk 0 (take n ls) Map.empty \<noteq> None"
    by (rule replay_all_take)
  then have "ReplayWAL clk (F_lines (take n ls)) NewProcessTable \<noteq> None"
    by (simp add: ReplayWAL_panics_iff)
  then show ?thesis by (auto simp: system_start_def startup_lines split: option.splits)
qed

subsection \<open>Properties\<close>

text \<open>C2: in every state the scheduler can reach, over any number of crashes and restarts, the
  invariant of the server holds: the indexes of the process table agree, every finished process has
  its waiters released, the log explains the table, the registry is well formed, no outbox exceeds
  its capacity, and the background goroutines hold existing processes only.\<close>

theorem reachable_sv_inv:
  assumes "reachable cfg algo s"
  shows "sv_inv (sys_server s)"
  using reachable_props [OF assms] by blast



text \<open>C7: while the scheduler runs, no process disappears, and none changes its tenant, its program
  or its limits, whatever the steps and their order.\<close>

theorem programs_never_change:
  assumes "reachable cfg algo s" "(sched_step cfg)\<^sup>*\<^sup>* s s'" "sv_dir (sys_server s) p = Some i"
  shows "\<exists>j. sv_dir (sys_server s') p = Some j \<and> program j = program i"
  using steps_evolve [OF reachable_props [OF assms(1), THEN conjunct1] assms(2)] assms(3)
  unfolding sv_evolves_def by (blast dest: evolves_program)

text \<open>C3: a crash is survived at every moment: the scheduler starts again on its log, and on every
  beginning of its log; with the whole log it comes back with exactly the processes it had and
  their durable data, in a state that satisfies the invariant.\<close>

theorem crash_recovers_processes:
  assumes "reachable cfg algo s" "pt_wal (sv_processes (sys_server s)) = Some ls"
  shows "(\<forall>n. \<exists>s'. system_start clk (F_lines (take n ls)) algo = Some s') \<and>
    (\<exists>s'. system_start clk (F_lines ls) algo = Some s' \<and> sv_inv (sys_server s') \<and>
       (\<forall>p. map_option durable (sv_dir (sys_server s') p) =
            map_option durable (sv_dir (sys_server s) p)))"
proof
  note inv = sv_invD(1) [OF reachable_props [OF assms(1), THEN conjunct1]]
  show "\<forall>n. \<exists>s'. system_start clk (F_lines (take n ls)) algo = Some s'"
    using system_start_defined [OF inv assms(2)] by blast
  obtain t' where t': "scheduler_startup_wal clk (F_lines ls) = Some (t', F_lines ls)"
    "same_durable (dir t') (dir (sv_processes (sys_server s)))"
    by (rule startup_recovers [OF tbl_invD(3) [OF inv] assms(2)])
  obtain s' where s': "system_start clk (F_lines ls) algo = Some s'"
    "sys_server s' = NewServer t' (NewLordRegistry algo)"
    using t'(1) by (simp add: system_start_def)
  have "reachable cfg algo s'"
    by (rule reachable.restart [OF assms, of clk "length ls"]) (simp add: s')
  then have "sv_inv (sys_server s')" using reachable_props by blast
  then show "\<exists>s'. system_start clk (F_lines ls) algo = Some s' \<and> sv_inv (sys_server s') \<and>
      (\<forall>p. map_option durable (sv_dir (sys_server s') p) =
           map_option durable (sv_dir (sys_server s) p))"
    using s' t'(2) by (auto simp: same_durable_def NewServer_def)
qed

subsection \<open>A run\<close>

text \<open>A fresh start, a lord that connects, and a process that is spawned on it.\<close>

definition run_env :: "string \<Rightarrow> string list \<Rightarrow> go_env" where
  "run_env i ls = demo_env\<lparr>ge_id := i, ge_lords := ls, ge_procs := []\<rparr>"

definition run_register :: register_request where
  "run_register = \<lparr>rr_hostname = '''', rr_os = ''linux'', rr_arch = ''amd64'',
     rr_cpu_cores_physical = 4, rr_mem_total_bytes_physical = 8000, rr_advertised_cpu_shares = 4,
     rr_advertised_mem_bytes = 8000\<rparr>"

definition run0 :: system where
  "run0 = \<lparr>sys_server = NewServer (PT_AttachWAL [L_header] NewProcessTable) (NewLordRegistry ''trivial''),
     sys_scores = NewAutoscaleState\<rparr>"

definition run1 :: system where
  "run1 = run0\<lparr>sys_server := snd (Connect_start (run_env ''L'' []) (Inr (Cmd_Register run_register))
     (sys_server run0))\<rparr>"

definition run2 :: system where
  "run2 = run1\<lparr>sys_server := snd (Spawn (run_env ''p9'' [''L'']) demo_spawn (sys_server run1))\<rparr>"

lemma run0_start: "system_start (\<lambda>_. 0) F_missing ''trivial'' = Some run0"
  by (simp add: system_start_def startup_missing startup_lines ReplayWAL_def run0_def)

lemma run0_tables:
  "sv_processes (sys_server run0) = PT_AttachWAL [L_header] NewProcessTable"
  "sv_lords (sys_server run0) = NewLordRegistry ''trivial''"
  "sv_sessions (sys_server run0) = Map.empty"
  by (simp_all add: run0_def NewServer_def)

lemma Connect_start_nameless:
  assumes "rr_hostname reg = ''''"
  shows "sv_processes (snd (Connect_start env (Inr (Cmd_Register reg)) sv)) = sv_processes sv"
    "sv_lords (snd (Connect_start env (Inr (Cmd_Register reg)) sv)) =
       Lords_Register (ge_now env) (registered_lord env reg) (sv_lords sv)"
    "sv_sessions (snd (Connect_start env (Inr (Cmd_Register reg)) sv)) (ge_id env) =
       Some ((newLordSession (ge_id env))\<lparr>ls_outbox := [Ev_RegisterAck (ge_id env) 10]\<rparr>)"
proof -
  obtain sv1 where sv1: "sv1 = on_lords (Lords_Register (ge_now env) (registered_lord env reg))
      (put_session (ge_id env) (newLordSession (ge_id env)) sv)" by simp
  obtain m where "snd (Connect_start env (Inr (Cmd_Register reg)) sv) =
      push_event (ge_id env) (Ev_RegisterAck (ge_id env) 10) (sv1\<lparr>sv_bpf := m\<rparr>)"
    using assms sv1 by (simp add: Connect_start_def Let_def rebind_hostname_def)
  then show "sv_processes (snd (Connect_start env (Inr (Cmd_Register reg)) sv)) = sv_processes sv"
    "sv_lords (snd (Connect_start env (Inr (Cmd_Register reg)) sv)) =
       Lords_Register (ge_now env) (registered_lord env reg) (sv_lords sv)"
    "sv_sessions (snd (Connect_start env (Inr (Cmd_Register reg)) sv)) (ge_id env) =
       Some ((newLordSession (ge_id env))\<lparr>ls_outbox := [Ev_RegisterAck (ge_id env) 10]\<rparr>)"
    by (simp_all add: sv1) (simp add: push_event_def sv1 outbox_push_def newLordSession_def outbox_cap_def)
qed

lemma run1_tables:
  "sv_processes (sys_server run1) = PT_AttachWAL [L_header] NewProcessTable"
  "sv_lords (sys_server run1) =
     Lords_Register 50 (registered_lord (run_env ''L'' []) run_register) (NewLordRegistry ''trivial'')"
  "\<exists>s. sv_sessions (sys_server run1) ''L'' = Some s \<and> length (ls_outbox s) = 1"
proof -
  have h: "rr_hostname run_register = ''''" by (simp add: run_register_def)
  have e: "ge_id (run_env ''L'' []) = ''L''" "ge_now (run_env ''L'' []) = 50"
    by (simp_all add: run_env_def demo_env_def)
  note c = Connect_start_nameless [OF h, of "run_env ''L'' []" "sys_server run0", unfolded e run0_tables]
  show "sv_processes (sys_server run1) = PT_AttachWAL [L_header] NewProcessTable"
    "sv_lords (sys_server run1) =
       Lords_Register 50 (registered_lord (run_env ''L'' []) run_register) (NewLordRegistry ''trivial'')"
    "\<exists>s. sv_sessions (sys_server run1) ''L'' = Some s \<and> length (ls_outbox s) = 1"
    by (simp_all add: run1_def c)
qed

lemma run_env_simps:
  "ge_id (run_env i ls) = i" "ge_lords (run_env i ls) = ls" "ge_procs (run_env i ls) = []"
  by (simp_all add: run_env_def)

lemma run_byID: "pt_byID (PT_AttachWAL [L_header] NewProcessTable) = Map.empty"
  by (simp add: PT_AttachWAL_def NewProcessTable_def)

lemma run_Get: "PT_Get (PT_AttachWAL [L_header] NewProcessTable) p = None"
  by (simp add: PT_Get_def PT_AttachWAL_def NewProcessTable_def)

lemma run1_step: "sched_step cfg run0 run1"
  unfolding run1_def
  by (intro sched_step.serve server_step.connect)
    (simp_all add: env_ok_def run0_tables run_Get run_env_simps NewLordRegistry_def iter_order_def run_byID
      Lords_Get_def)

lemma run2_step: "sched_step cfg run1 run2"
  unfolding run2_def
  by (intro sched_step.serve server_step.spawn)
    (simp add: env_ok_def run1_tables run_Get run_env_simps NewLordRegistry_def iter_order_def run_byID
      Lords_Register_def registered_lord_def)

lemma run_reachable: "reachable cfg ''trivial'' run1" "reachable cfg ''trivial'' run2"
  using reachable.first [OF run0_start] run1_step run2_step by (metis reachable.step)+

lemma run_inv: "pt_inv (PT_AttachWAL [L_header] NewProcessTable)"
  by (intro inv_intros)

lemma run2_Spawn:
  "\<exists>sv'. Spawn (run_env ''p9'' [''L'']) demo_spawn (sys_server run1) =
     (Inr (spawn_info (run_env ''p9'' [''L'']) ''L'' demo_spawn), sv')"
proof -
  obtain s where s: "sv_sessions (sys_server run1) ''L'' = Some s" "length (ls_outbox s) = 1"
    using run1_tables(3) by blast
  have pick: "Lords_Pick (sv_lords (sys_server run1)) [''L''] ''a'' =
      Some (registered_lord (run_env ''L'' []) run_register)"
    by (simp add: Lords_Pick_def run1_tables Lords_Register_def NewLordRegistry_def
        registered_lord_def run_env_simps go_values_def)
  have req: "sr_tenant_id demo_spawn \<noteq> ''''" "sr_exec_path demo_spawn \<noteq> ''''"
    "sr_resources demo_spawn = None" "sr_prefer_lord_id demo_spawn = ''a''"
    by (simp_all add: demo_spawn_def zero_spawn_request_def)
  have id: "l_lord_id (registered_lord (run_env ''L'' []) run_register) = ''L''"
    by (simp add: registered_lord_def run_env_simps)
  show ?thesis
    using s
    by (simp add: Spawn_def req pick id run_env_simps validateResources_def getSession_def Let_def
        case_prod_beta SendSpawn_def on_processes_def outbox_send5_room outbox_cap_def sv_info_def
        run1_tables(1) info_at_Create [OF run_inv] PT_Create_simps(1))
qed

lemma Spawn_processes:
  assumes "sv_inv sv" "Spawn env req sv = (Inr info, sv')"
  shows "sv_processes sv' = snd (PT_Create info (sv_processes sv))"
  using assms(2)
proof (cases rule: Spawn_cases)
  case (spawned l sv1)
  have "info = spawn_info env (l_lord_id l) req"
    using spawned(5,7) by (simp add: info_at_Create [OF tbl_invD(1) [OF sv_invD(1) [OF assms(1)]]])
  then show ?thesis using SendSpawn_processes [OF spawned(6)] spawned(5) by simp
qed simp_all

lemma run2_table:
  "sv_processes (sys_server run2) =
     snd (PT_Create (spawn_info (run_env ''p9'' [''L'']) ''L'' demo_spawn)
       (PT_AttachWAL [L_header] NewProcessTable))"
proof -
  obtain sv' where sp: "Spawn (run_env ''p9'' [''L'']) demo_spawn (sys_server run1) =
      (Inr (spawn_info (run_env ''p9'' [''L'']) ''L'' demo_spawn), sv')"
    using run2_Spawn by blast
  have inv: "sv_inv (sys_server run1)"
    using reachable_props [OF run_reachable(1)] by blast
  show ?thesis using Spawn_processes [OF inv sp] by (simp add: run2_def sp run1_tables)
qed

lemma run2_dir:
  "sv_dir (sys_server run2) = [''p9'' \<mapsto> spawn_info (run_env ''p9'' [''L'']) ''L'' demo_spawn]"
  by (simp add: run2_table dir_Create [OF run_inv] run_env_simps)

theorem reachable_sv_inv_witness: "sv_inv (sys_server run2)"
  by (rule reachable_sv_inv [OF run_reachable(2) [of demo_cfg]])











theorem programs_never_change_witness:
  "\<exists>j. sv_dir (sys_server run2) ''p9'' = Some j \<and> pi_tenant_id j = ''t1''"
proof -
  let ?i = "spawn_info (run_env ''p9'' [''L'']) ''L'' demo_spawn"
  have i: "sv_dir (sys_server run2) ''p9'' = Some ?i" by (simp add: run2_dir)
  from programs_never_change [OF run_reachable(2) [of demo_cfg] rtranclp.rtrancl_refl i] show ?thesis
    by (auto simp: program_def demo_spawn_def)
qed

theorem crash_recovers_processes_witness:
  "\<exists>s'. reachable demo_cfg ''trivial'' run2 \<and> reachable demo_cfg ''trivial'' s' \<and>
     map_option pi_tenant_id (sv_dir (sys_server s') ''p9'') = Some ''t1''"
proof -
  let ?i = "spawn_info (run_env ''p9'' [''L'']) ''L'' demo_spawn"
  obtain ls where ls: "pt_wal (sv_processes (sys_server run2)) = Some ls"
    by (simp add: run2_table PT_Create_simps)
  obtain s' where s': "system_start (\<lambda>_. 7) (F_lines ls) ''trivial'' = Some s'"
    "map_option durable (sv_dir (sys_server s') ''p9'') = map_option durable (Some ?i)"
    using crash_recovers_processes [OF run_reachable(2) [of demo_cfg] ls, of "\<lambda>_. 7"]
    unfolding run2_dir by (metis fun_upd_same)
  have "reachable demo_cfg ''trivial'' s'"
    by (rule reachable.restart [OF run_reachable(2) ls, of "\<lambda>_. 7" "length ls"]) (simp add: s'(1))
  moreover obtain j where "sv_dir (sys_server s') ''p9'' = Some j" "durable j = durable ?i"
    using s'(2) by auto
  moreover have "pi_tenant_id (durable x) = pi_tenant_id x" for x by (simp add: durable_def)
  then have "pi_tenant_id j = pi_tenant_id ?i" using calculation(3) by metis
  ultimately show ?thesis using run_reachable(2) by (auto simp: demo_spawn_def)
qed

end
