(* ===== verification/Cgroup.thy ===== *)
theory Cgroup
  imports Proto Go_Text
begin

section \<open>The cgroups of a lord (cgroup.go, stats.go)\<close>

text \<open>
  A lord keeps one slice of the cgroup file system for itself and one per process below it. The
  file system is the kernel's: the model carries the list of the changes the kernel has accepted so
  far, and the answers (what is read, whether a path exists, whether a change is refused) are a
  function of that history, the record \<open>fs_env\<close>. Whatever the kernel answers, the theorems hold.
\<close>

subsection \<open>Paths (package path/filepath)\<close>

fun join_slash :: "string list \<Rightarrow> string" where
  "join_slash [] = ''''"
| "join_slash [e] = e"
| "join_slash (e # es) = e @ CHR ''/'' # join_slash es"

text \<open>\<open>Clean\<close>: the elements on a stack (innermost first), dots resolved.\<close>

fun clean_loop :: "bool \<Rightarrow> string list \<Rightarrow> string list \<Rightarrow> string list" where
  "clean_loop rooted out [] = rev out"
| "clean_loop rooted out (e # es) =
     (if e = '''' \<or> e = ''.'' then clean_loop rooted out es
      else if e = ''..'' then
        (case out of
           [] \<Rightarrow> clean_loop rooted (if rooted then [] else [''..'']) es
         | d # ds \<Rightarrow> clean_loop rooted (if d = ''..'' then ''..'' # out else ds) es)
      else clean_loop rooted (e # out) es)"

definition path_Clean :: "string \<Rightarrow> string" where
  "path_Clean p =
     (if p = '''' then ''.''
      else if HasPrefix p ''/''
      then CHR ''/'' # join_slash (clean_loop True [] (Split p (CHR ''/'')))
      else let s = join_slash (clean_loop False [] (Split p (CHR ''/''))) in
           if s = '''' then ''.'' else s)"

fun path_Join :: "string list \<Rightarrow> string" where
  "path_Join [] = ''''"
| "path_Join (e # es) = (if e = '''' then path_Join es else path_Clean (join_slash (e # es)))"

declare path_Join.simps [simp del]

definition TrimPrefix :: "string \<Rightarrow> string \<Rightarrow> string" where
  "TrimPrefix s p = (if HasPrefix s p then drop (length p) s else s)"

fun Contains :: "string \<Rightarrow> string \<Rightarrow> bool" where
  "Contains [] sub = (sub = '''')"
| "Contains (c # cs) sub = (HasPrefix (c # cs) sub \<or> Contains cs sub)"

subsection \<open>The file system\<close>

datatype fs_op = Mkdir string | Write_file string string | Remove string

datatype remove_error = Not_empty | Busy | Remove_failed string

record fs_env =
  fe_mkdir :: "fs_op list \<Rightarrow> string \<Rightarrow> string option"
  fe_write :: "fs_op list \<Rightarrow> string \<Rightarrow> string \<Rightarrow> string option"
  fe_remove :: "fs_op list \<Rightarrow> string \<Rightarrow> remove_error option"
  fe_read :: "fs_op list \<Rightarrow> string \<Rightarrow> string option"
  fe_stat :: "fs_op list \<Rightarrow> string \<Rightarrow> string option"
  fe_dir :: "fs_op list \<Rightarrow> string \<Rightarrow> (string \<times> bool) list option"   \<comment> \<open>entries, is it a directory\<close>

definition fs_mkdir :: "fs_env \<Rightarrow> string \<Rightarrow> fs_op list \<Rightarrow> string option \<times> fs_op list" where
  "fs_mkdir env path h =
     (case fe_mkdir env h path of Some err \<Rightarrow> (Some err, h) | None \<Rightarrow> (None, h @ [Mkdir path]))"

definition fs_write :: "fs_env \<Rightarrow> string \<Rightarrow> string \<Rightarrow> fs_op list \<Rightarrow> string option \<times> fs_op list" where
  "fs_write env path data h =
     (case fe_write env h path data of
        Some err \<Rightarrow> (Some err, h) | None \<Rightarrow> (None, h @ [Write_file path data]))"

definition fs_remove :: "fs_env \<Rightarrow> string \<Rightarrow> fs_op list \<Rightarrow> remove_error option \<times> fs_op list" where
  "fs_remove env path h =
     (case fe_remove env h path of Some err \<Rightarrow> (Some err, h) | None \<Rightarrow> (None, h @ [Remove path]))"

definition newline :: string where
  "newline = [CHR 0x0A]"

text \<open>\<open>writeFile\<close> ends the value with a newline.\<close>

definition writeFile :: "fs_env \<Rightarrow> string \<Rightarrow> string \<Rightarrow> fs_op list \<Rightarrow> string option \<times> fs_op list" where
  "writeFile env path val h = fs_write env path (val @ newline) h"

text \<open>\<open>readUint\<close>: None is an error of reading or parsing.\<close>

definition readUint :: "fs_env \<Rightarrow> fs_op list \<Rightarrow> string \<Rightarrow> nat option" where
  "readUint env h path =
     (case fe_read env h path of
        None \<Rightarrow> None
      | Some data \<Rightarrow> (case ParseUint (TrimSpace data) of (v, bad) \<Rightarrow> if bad then None else Some v))"

subsection \<open>Finding and preparing the slice of the lord\<close>

definition cgroupRoot :: string where
  "cgroupRoot = ''/sys/fs/cgroup''"

definition etroniumSlice :: string where
  "etroniumSlice = ''etronium''"

definition checkCgroupV2 :: "fs_env \<Rightarrow> fs_op list \<Rightarrow> string option" where
  "checkCgroupV2 env h = fe_stat env h ''/sys/fs/cgroup/cgroup.controllers''"

text \<open>The own slice: the first line \<open>0::path\<close>, unless it is the root.\<close>

fun own_slice :: "string list \<Rightarrow> string list" where
  "own_slice [] = []"
| "own_slice (line # ls) =
     (if HasPrefix line ''0::'' then
        let p = TrimPrefix line ''0::'' in
        (if p \<noteq> '''' \<and> p \<noteq> ''/'' then [path_Join [cgroupRoot, p]] else [])
      else own_slice ls)"

definition root_candidates :: "fs_env \<Rightarrow> fs_op list \<Rightarrow> string list" where
  "root_candidates env h =
     (case fe_read env h ''/proc/self/cgroup'' of
        None \<Rightarrow> []
      | Some data \<Rightarrow> own_slice (Split data (CHR 0x0A))) @ [cgroupRoot]"

definition probe_dir :: "string \<Rightarrow> string" where
  "probe_dir c = path_Join [c, ''.etronium-probe-dir'']"

fun probe_loop ::
  "fs_env \<Rightarrow> string list \<Rightarrow> string \<Rightarrow> fs_op list \<Rightarrow> (go_error + string) \<times> fs_op list" where
  "probe_loop env [] lastErr h = (Inl (Errorf
     (''no writable cgroup root (need CAP_SYS_ADMIN or proper slice delegation); last error: '' @ lastErr)), h)"
| "probe_loop env (c # cs) lastErr h =
     (case fs_mkdir env (probe_dir c) h of
        (Some err, h1) \<Rightarrow> probe_loop env cs err h1
      | (None, h1) \<Rightarrow> (Inr c, snd (fs_remove env (probe_dir c) h1)))"

definition findWritableRoot :: "fs_env \<Rightarrow> fs_op list \<Rightarrow> (go_error + string) \<times> fs_op list" where
  "findWritableRoot env h = probe_loop env (root_candidates env h) ''<nil>'' h"

text \<open>\<open>enableControllers\<close> tries each controller on its own and never reports an error.\<close>

definition read_or_empty :: "fs_env \<Rightarrow> fs_op list \<Rightarrow> string \<Rightarrow> string" where
  "read_or_empty env h path = (case fe_read env h path of None \<Rightarrow> '''' | Some s \<Rightarrow> s)"

fun controllers_loop ::
  "fs_env \<Rightarrow> string \<Rightarrow> string list \<Rightarrow> string \<Rightarrow> fs_op list \<Rightarrow> fs_op list" where
  "controllers_loop env ctrl [] currentStr h = h"
| "controllers_loop env ctrl (c # cs) currentStr h =
     (if Contains currentStr (''+'' @ c) then controllers_loop env ctrl cs currentStr h
      else case writeFile env ctrl (''+'' @ c) h of
        (Some _, h1) \<Rightarrow> controllers_loop env ctrl cs currentStr h1
      | (None, h1) \<Rightarrow> controllers_loop env ctrl cs (read_or_empty env h1 ctrl) h1)"

definition subtree_control :: "string \<Rightarrow> string" where
  "subtree_control dir = path_Join [dir, ''cgroup.subtree_control'']"

definition enableControllers :: "fs_env \<Rightarrow> string \<Rightarrow> fs_op list \<Rightarrow> fs_op list" where
  "enableControllers env dir h =
     controllers_loop env (subtree_control dir) [''cpu'', ''memory'', ''io'', ''pids'']
       (read_or_empty env h (subtree_control dir)) h"

record cgroup_manager =
  cm_lordID :: string
  cm_basePath :: string

definition NewCgroupManager ::
  "fs_env \<Rightarrow> string \<Rightarrow> fs_op list \<Rightarrow> (go_error + cgroup_manager) \<times> fs_op list" where
  "NewCgroupManager env lordID h =
     (case checkCgroupV2 env h of
        Some err \<Rightarrow> (Inl (Errorf (''cgroup v2 not available: '' @ err)), h)
      | None \<Rightarrow>
     (case findWritableRoot env h of
        (Inl err, h1) \<Rightarrow> (Inl err, h1)
      | (Inr writableRoot, h1) \<Rightarrow>
          let etroniumRoot = path_Join [writableRoot, etroniumSlice] in
          (case fs_mkdir env etroniumRoot h1 of
             (Some err, h2) \<Rightarrow> (Inl (Errorf (''mkdir '' @ etroniumRoot @ '': '' @ err)), h2)
           | (None, h2) \<Rightarrow>
               let h3 = enableControllers env etroniumRoot h2;
                   base = path_Join [etroniumRoot, lordID] in
               (case fs_mkdir env base h3 of
                  (Some err, h4) \<Rightarrow> (Inl (Errorf (''mkdir '' @ base @ '': '' @ err)), h4)
                | (None, h4) \<Rightarrow> (Inr \<lparr>cm_lordID = lordID, cm_basePath = base\<rparr>, h4)))))"

subsection \<open>The slice of a process\<close>

record resources =
  re_CPUShares :: u32
  re_MemLimitBytes :: i64
  re_IOWeight :: u32
  re_PidsLimit :: u32

definition no_resources :: resources where
  "no_resources = \<lparr>re_CPUShares = 0, re_MemLimitBytes = 0, re_IOWeight = 0, re_PidsLimit = 0\<rparr>"

text \<open>A limit is written when its file exists; a refused write is logged and forgotten.\<close>

definition apply_limit :: "fs_env \<Rightarrow> string \<Rightarrow> string \<Rightarrow> string \<Rightarrow> fs_op list \<Rightarrow> fs_op list" where
  "apply_limit env dir file val h =
     (let path = path_Join [dir, file] in
      case fe_stat env h path of
        Some _ \<Rightarrow> h
      | None \<Rightarrow> snd (writeFile env path val h))"

definition applyResources :: "fs_env \<Rightarrow> string \<Rightarrow> resources \<Rightarrow> fs_op list \<Rightarrow> fs_op list" where
  "applyResources env dir r h =
     (let h1 = (if 0 < re_CPUShares r
                then apply_limit env dir ''cpu.weight'' (show_nat (unat (min (re_CPUShares r) 10000))) h
                else h);
          h2 = (if 0 < sint (re_MemLimitBytes r)
                then apply_limit env dir ''memory.max'' (show_int (sint (re_MemLimitBytes r))) h1
                else h1);
          h3 = (if 0 < re_IOWeight r
                then apply_limit env dir ''io.weight'' (show_nat (unat (min (re_IOWeight r) 10000))) h2
                else h2)
      in if 0 < re_PidsLimit r
         then apply_limit env dir ''pids.max'' (show_nat (unat (re_PidsLimit r))) h3
         else h3)"

definition CreateProcessSlice ::
  "fs_env \<Rightarrow> cgroup_manager \<Rightarrow> string \<Rightarrow> resources option \<Rightarrow> fs_op list \<Rightarrow>
     (go_error + string) \<times> fs_op list" where
  "CreateProcessSlice env m processID res h =
     (let dir = path_Join [cm_basePath m, processID] in
      case fs_mkdir env dir h of
        (Some err, h1) \<Rightarrow> (Inl (Errorf (''mkdir '' @ dir @ '': '' @ err)), h1)
      | (None, h1) \<Rightarrow>
          let h2 = enableControllers env dir h1;
              r = (case res of None \<Rightarrow> no_resources | Some r \<Rightarrow> r) in
          (Inr dir, applyResources env dir r h2))"

definition Attach ::
  "fs_env \<Rightarrow> cgroup_manager \<Rightarrow> string \<Rightarrow> int \<Rightarrow> fs_op list \<Rightarrow> go_error option \<times> fs_op list" where
  "Attach env m processID pid h =
     (let procsFile = path_Join [path_Join [cm_basePath m, processID], ''cgroup.procs''] in
      case fs_write env procsFile (show_int pid @ newline) h of
        (Some err, h1) \<Rightarrow> (Some (Errorf (''write '' @ procsFile @ '': '' @ err)), h1)
      | (None, h1) \<Rightarrow> (None, h1))"

definition Destroy ::
  "fs_env \<Rightarrow> cgroup_manager \<Rightarrow> string \<Rightarrow> fs_op list \<Rightarrow> go_error option \<times> fs_op list" where
  "Destroy env m processID h =
     (let dir = path_Join [cm_basePath m, processID];
          killFile = path_Join [dir, ''cgroup.kill''];
          h1 = (case fe_read env h killFile of
                  Some data \<Rightarrow> if 0 < length data then snd (fs_write env killFile ''1'' h) else h
                | None \<Rightarrow> h) in
      case fs_remove env dir h1 of
        (None, h2) \<Rightarrow> (None, h2)
      | (Some Not_empty, h2) \<Rightarrow> (None, h2)
      | (Some Busy, h2) \<Rightarrow> (None, h2)
      | (Some (Remove_failed err), h2) \<Rightarrow> (Some (Errorf (''rmdir '' @ dir @ '': '' @ err)), h2))"

subsection \<open>Reading the counters\<close>

record cg_stats =
  st_CPUUsageUSec :: nat
  st_MemoryCurrent :: nat
  st_MemoryPeak :: nat
  st_ProcsCurrent :: u32

definition or_zero :: "nat option \<Rightarrow> nat" where
  "or_zero v = (case v of None \<Rightarrow> 0 | Some n \<Rightarrow> n)"

definition ReadStats :: "fs_env \<Rightarrow> cgroup_manager \<Rightarrow> string \<Rightarrow> fs_op list \<Rightarrow> cg_stats" where
  "ReadStats env m processID h =
     (let dir = path_Join [cm_basePath m, processID] in
      \<lparr>st_CPUUsageUSec = or_zero (readUint env h (path_Join [dir, ''cpu.usage.usec''])),
       st_MemoryCurrent = or_zero (readUint env h (path_Join [dir, ''memory.current''])),
       st_MemoryPeak = or_zero (readUint env h (path_Join [dir, ''memory.peak''])),
       st_ProcsCurrent = of_nat (or_zero (readUint env h (path_Join [dir, ''pids.current''])))\<rparr>)"

text \<open>The readers of stats.go ignore the error of the parser and keep its value.\<close>

definition readCpuUsec :: "fs_env \<Rightarrow> fs_op list \<Rightarrow> string \<Rightarrow> nat" where
  "readCpuUsec env h cgroupPath =
     (case fe_read env h (path_Join [cgroupPath, ''cpu.usage.usec'']) of
        None \<Rightarrow> 0
      | Some data \<Rightarrow> fst (ParseUint (TrimSpace data)))"

fun mem_total_loop :: "fs_env \<Rightarrow> fs_op list \<Rightarrow> string \<Rightarrow> (string \<times> bool) list \<Rightarrow> u64 \<Rightarrow> u64" where
  "mem_total_loop env h cgroupPath [] acc = acc"
| "mem_total_loop env h cgroupPath ((name, isDir) # es) acc =
     (if \<not> isDir then mem_total_loop env h cgroupPath es acc
      else case fe_read env h (path_Join [cgroupPath, name, ''memory.current'']) of
        None \<Rightarrow> mem_total_loop env h cgroupPath es acc
      | Some data \<Rightarrow>
          mem_total_loop env h cgroupPath es (acc + of_nat (fst (ParseUint (TrimSpace data)))))"

definition readMemTotal :: "fs_env \<Rightarrow> fs_op list \<Rightarrow> string \<Rightarrow> u64" where
  "readMemTotal env h cgroupPath =
     (case fe_dir env h cgroupPath of
        None \<Rightarrow> 0
      | Some entries \<Rightarrow> mem_total_loop env h cgroupPath entries 0)"

subsection \<open>Paths of plain names\<close>

text \<open>A name without separator that is no dot; a clean absolute directory below the root.\<close>

definition plain_name :: "string \<Rightarrow> bool" where
  "plain_name n \<longleftrightarrow> n \<noteq> '''' \<and> n \<noteq> ''.'' \<and> n \<noteq> ''..'' \<and> CHR ''/'' \<notin> set n"

definition clean_dir :: "string \<Rightarrow> bool" where
  "clean_dir d \<longleftrightarrow> HasPrefix d ''/'' \<and> d \<noteq> ''/'' \<and> path_Clean d = d"

lemma split_at_char_append:
  "split_at_char sep acc (xs @ sep # ys) = split_at_char sep acc xs @ split_at_char sep [] ys"
  by (induction sep acc xs rule: split_at_char.induct) simp_all

lemma split_at_char_none: "sep \<notin> set s \<Longrightarrow> split_at_char sep acc s = [rev acc @ s]"
  by (induction sep acc s rule: split_at_char.induct) auto

lemma clean_loop_append:
  "clean_loop r out (xs @ ys) = clean_loop r (rev (clean_loop r out xs)) ys"
  by (induction r out xs rule: clean_loop.induct) (auto split: list.split)

lemma join_slash_snoc: "es \<noteq> [] \<Longrightarrow> join_slash (es @ [x]) = join_slash es @ CHR ''/'' # x"
proof (induction es)
  case (Cons e es)
  then show ?case by (cases es) simp_all
qed simp

lemma path_Join_plain:
  assumes "clean_dir d" "plain_name n"
  shows "path_Join [d, n] = d @ CHR ''/'' # n"
proof -
  obtain c d' where d: "d = CHR ''/'' # d'" "d' \<noteq> []"
    using assms(1) by (cases d) (auto simp: clean_dir_def HasPrefix_def)
  let ?es = "clean_loop True [] (Split d (CHR ''/''))"
  have es: "CHR ''/'' # join_slash ?es = d"
    using assms(1) d by (simp add: clean_dir_def path_Clean_def HasPrefix_def)
  then have ne: "?es \<noteq> []" using d by auto
  have "Split (d @ CHR ''/'' # n) (CHR ''/'') = Split d (CHR ''/'') @ [n]"
    using assms(2) by (simp add: Split_def split_at_char_append split_at_char_none plain_name_def)
  then have "clean_loop True [] (Split (d @ CHR ''/'' # n) (CHR ''/'')) = ?es @ [n]"
    using assms(2) by (simp add: clean_loop_append plain_name_def)
  then have "path_Clean (d @ CHR ''/'' # n) = CHR ''/'' # join_slash ?es @ CHR ''/'' # n"
    using d join_slash_snoc [OF ne] by (simp add: path_Clean_def HasPrefix_def)
  then show ?thesis using es d by (simp add: path_Join.simps)
qed

lemma clean_dir_Join:
  assumes "clean_dir d" "plain_name n"
  shows "clean_dir (d @ CHR ''/'' # n)"
proof -
  obtain d' where d: "d = CHR ''/'' # d'" "d' \<noteq> []"
    using assms(1) by (cases d) (auto simp: clean_dir_def HasPrefix_def)
  then have "path_Clean (d @ CHR ''/'' # n) = path_Join [d, n]" by (simp add: path_Join.simps)
  then have "path_Clean (d @ CHR ''/'' # n) = d @ CHR ''/'' # n"
    using path_Join_plain [OF assms] by (rule trans)
  then show ?thesis unfolding clean_dir_def using d by (simp add: HasPrefix_def)
qed

subsection \<open>What the kernel accepts\<close>

lemma writeFile_snd:
  "snd (writeFile env path val h) =
     h @ (if fe_write env h path (val @ newline) = None then [Write_file path (val @ newline)] else [])"
  by (simp add: writeFile_def fs_write_def split: option.split)

text \<open>Of the given writes, those to files that exist and that the kernel takes, each looked at in the
  state that the ones before have left.\<close>

fun accepted :: "fs_env \<Rightarrow> fs_op list \<Rightarrow> fs_op list \<Rightarrow> fs_op list" where
  "accepted env h [] = []"
| "accepted env h (Write_file path data # ops) =
     (if fe_stat env h path = None \<and> fe_write env h path data = None
      then Write_file path data # accepted env (h @ [Write_file path data]) ops
      else accepted env h ops)"
| "accepted env h (op # ops) = accepted env h ops"

lemma accepted_append:
  "accepted env h (ws @ vs) = accepted env h ws @ accepted env (h @ accepted env h ws) vs"
  by (induction env h ws rule: accepted.induct) simp_all

lemma accepted_subset: "set (accepted env h ws) \<subseteq> set ws"
  by (induction env h ws rule: accepted.induct) auto

lemma accepted_none:
  "\<forall>path data. Write_file path data \<in> set ws \<longrightarrow> fe_stat env h path \<noteq> None \<Longrightarrow> accepted env h ws = []"
  by (induction env h ws rule: accepted.induct) auto

lemma apply_limit_accepted:
  "apply_limit env dir file val h =
     h @ accepted env h [Write_file (path_Join [dir, file]) (val @ newline)]"
  by (simp add: apply_limit_def Let_def writeFile_snd split: option.split)

lemma controllers_loop_ops:
  "\<exists>ops. controllers_loop env ctrl cs cur h = h @ ops \<and>
     set ops \<subseteq> (\<lambda>c. Write_file ctrl (''+'' @ c @ newline)) ` set cs"
proof (induction cs arbitrary: cur h)
  case (Cons c cs)
  show ?case
  proof (cases "\<not> Contains cur (''+'' @ c) \<and> fe_write env h ctrl (''+'' @ c @ newline) = None")
    case True
    let ?h = "h @ [Write_file ctrl (''+'' @ c @ newline)]"
    obtain ops where "controllers_loop env ctrl cs (read_or_empty env ?h ctrl) ?h = ?h @ ops"
      "set ops \<subseteq> (\<lambda>c. Write_file ctrl (''+'' @ c @ newline)) ` set cs"
      using Cons.IH by blast
    then show ?thesis
      using True by (intro exI [of _ "Write_file ctrl (''+'' @ c @ newline) # ops"])
        (auto simp: writeFile_def fs_write_def)
  next
    case False
    then have "controllers_loop env ctrl (c # cs) cur h = controllers_loop env ctrl cs cur h"
      by (auto simp: writeFile_def fs_write_def split: option.split)
    then show ?thesis using Cons.IH [of cur h] by auto
  qed
qed simp

text \<open>The limits of a process, in the order they are written.\<close>

definition limit_ops :: "string \<Rightarrow> resources \<Rightarrow> fs_op list" where
  "limit_ops dir r =
     (if 0 < re_CPUShares r
      then [Write_file (dir @ ''/cpu.weight'') (show_nat (min 10000 (unat (re_CPUShares r))) @ newline)]
      else []) @
     (if 0 < sint (re_MemLimitBytes r)
      then [Write_file (dir @ ''/memory.max'') (show_nat (nat (sint (re_MemLimitBytes r))) @ newline)]
      else []) @
     (if 0 < re_IOWeight r
      then [Write_file (dir @ ''/io.weight'') (show_nat (min 10000 (unat (re_IOWeight r))) @ newline)]
      else []) @
     (if 0 < re_PidsLimit r
      then [Write_file (dir @ ''/pids.max'') (show_nat (unat (re_PidsLimit r)) @ newline)]
      else [])"

lemma unat_min_10000: "unat (min w (10000 :: u32)) = min 10000 (unat w)"
  by (simp add: min_def word_le_nat_alt)

lemma limit_name: "clean_dir dir \<Longrightarrow> plain_name n \<Longrightarrow> path_Join [dir, n] = dir @ ''/'' @ n"
  using path_Join_plain [of dir n] by (simp only: append_Cons append_Nil)

text \<open>Writing the limits one after the other adds the accepted ones to the history.\<close>

lemma add_limit:
  assumes "clean_dir dir" "plain_name n" "h1 = h @ accepted env h ws"
  shows "(if b then apply_limit env dir n v h1 else h1) =
    h @ accepted env h (ws @ (if b then [Write_file (dir @ ''/'' @ n) (v @ newline)] else []))"
proof (cases b)
  case True
  have "apply_limit env dir n v h1 = h1 @ accepted env h1 [Write_file (dir @ ''/'' @ n) (v @ newline)]"
    by (simp only: apply_limit_accepted limit_name [OF assms(1,2)])
  then show ?thesis using True by (simp only: accepted_append assms(3) if_True append_assoc)
qed (simp add: assms(3))

lemma applyResources_accepted:
  assumes "clean_dir dir"
  shows "applyResources env dir r h = h @ accepted env h (limit_ops dir r)"
proof -
  have names: "plain_name ''cpu.weight''" "plain_name ''memory.max''" "plain_name ''io.weight''"
    "plain_name ''pids.max''"
    by (simp_all add: plain_name_def)
  have "0 < sint (re_MemLimitBytes r) \<longrightarrow>
      show_int (sint (re_MemLimitBytes r)) = show_nat (nat (sint (re_MemLimitBytes r)))"
    by (simp add: show_int_def)
  then have ops: "limit_ops dir r = ((([] @
      (if 0 < re_CPUShares r then [Write_file (dir @ ''/'' @ ''cpu.weight'')
         (show_nat (unat (min (re_CPUShares r) 10000)) @ newline)] else [])) @
      (if 0 < sint (re_MemLimitBytes r) then [Write_file (dir @ ''/'' @ ''memory.max'')
         (show_int (sint (re_MemLimitBytes r)) @ newline)] else [])) @
      (if 0 < re_IOWeight r then [Write_file (dir @ ''/'' @ ''io.weight'')
         (show_nat (unat (min (re_IOWeight r) 10000)) @ newline)] else [])) @
      (if 0 < re_PidsLimit r then [Write_file (dir @ ''/'' @ ''pids.max'')
         (show_nat (unat (re_PidsLimit r)) @ newline)] else [])"
    by (simp add: limit_ops_def unat_min_10000)
  show ?thesis
    unfolding ops applyResources_def Let_def
    by (intro add_limit assms names) simp
qed

text \<open>Enabling the controllers writes to one file only.\<close>

lemma enableControllers_ops:
  assumes "clean_dir dir"
  shows "\<exists>ops. enableControllers env dir h = h @ ops \<and>
    set ops \<subseteq> (\<lambda>c. Write_file (dir @ ''/cgroup.subtree_control'') (''+'' @ c @ newline)) `
      {''cpu'', ''memory'', ''io'', ''pids''}"
proof -
  have "plain_name ''cgroup.subtree_control''" by (simp add: plain_name_def)
  then have ctrl: "subtree_control dir = dir @ ''/cgroup.subtree_control''"
    using limit_name [OF assms] by (simp only: subtree_control_def append_Cons append_Nil)
  obtain cur where "enableControllers env dir h = controllers_loop env (dir @ ''/cgroup.subtree_control'')
      [''cpu'', ''memory'', ''io'', ''pids''] cur h"
    by (simp only: enableControllers_def ctrl)
  moreover obtain ops where "controllers_loop env (dir @ ''/cgroup.subtree_control'')
      [''cpu'', ''memory'', ''io'', ''pids''] cur h = h @ ops"
    "set ops \<subseteq> (\<lambda>c. Write_file (dir @ ''/cgroup.subtree_control'') (''+'' @ c @ newline)) `
       set [''cpu'', ''memory'', ''io'', ''pids'']"
    using controllers_loop_ops by blast
  ultimately show ?thesis by (intro exI [of _ ops]) simp
qed

subsection \<open>Properties\<close>

text \<open>Creating the slice of a process fails exactly when its directory cannot be made, and then
  changes nothing. Otherwise the only changes are inside the slice: the directory, its controllers,
  and of the limits that were asked for, within the range of the kernel, those whose file exists and
  takes them.\<close>

theorem CreateProcessSlice_effect:
  assumes "clean_dir (cm_basePath m)" "plain_name processID"
  shows "let dir = cm_basePath m @ ''/'' @ processID;
      r = (case res of None \<Rightarrow> no_resources | Some r \<Rightarrow> r) in
    (case fe_mkdir env h dir of
       Some err \<Rightarrow> CreateProcessSlice env m processID res h = (Inl (Errorf (''mkdir '' @ dir @ '': '' @ err)), h)
     | None \<Rightarrow> \<exists>ctrl. CreateProcessSlice env m processID res h =
           (Inr dir, h @ [Mkdir dir] @ ctrl @
              accepted env (h @ [Mkdir dir] @ ctrl) (limit_ops dir r)) \<and>
         set ctrl \<subseteq> (\<lambda>c. Write_file (dir @ ''/cgroup.subtree_control'') (''+'' @ c @ newline)) `
           {''cpu'', ''memory'', ''io'', ''pids''})"
proof -
  obtain dir r where dir: "dir = cm_basePath m @ ''/'' @ processID"
    and r: "r = (case res of None \<Rightarrow> no_resources | Some r \<Rightarrow> r)" by simp
  have join: "path_Join [cm_basePath m, processID] = dir" unfolding dir by (rule limit_name [OF assms])
  have cd: "clean_dir dir" unfolding dir using clean_dir_Join [OF assms] by simp
  obtain ctrl where ctrl: "enableControllers env dir (h @ [Mkdir dir]) = (h @ [Mkdir dir]) @ ctrl"
    "set ctrl \<subseteq> (\<lambda>c. Write_file (dir @ ''/cgroup.subtree_control'') (''+'' @ c @ newline)) `
       {''cpu'', ''memory'', ''io'', ''pids''}"
    using enableControllers_ops [OF cd] by blast
  have "CreateProcessSlice env m processID res h = (case fe_mkdir env h dir of
      Some err \<Rightarrow> (Inl (Errorf (''mkdir '' @ dir @ '': '' @ err)), h)
    | None \<Rightarrow> (Inr dir, applyResources env dir r (enableControllers env dir (h @ [Mkdir dir]))))"
    unfolding CreateProcessSlice_def Let_def join r [symmetric] fs_mkdir_def
    by (cases "fe_mkdir env h dir") simp_all
  then show ?thesis
    unfolding Let_def dir [symmetric] r [symmetric] ctrl(1) applyResources_accepted [OF cd]
    using ctrl(2) by (cases "fe_mkdir env h dir") auto
qed

subsection \<open>Delegation\<close>

text \<open>The operations of the manager on the slices of its processes, after it has been made.\<close>

inductive slice_step :: "fs_env \<Rightarrow> cgroup_manager \<Rightarrow> fs_op list \<Rightarrow> fs_op list \<Rightarrow> bool" for env m where
  create: "plain_name p \<Longrightarrow> slice_step env m h (snd (CreateProcessSlice env m p res h))"
| attach: "plain_name p \<Longrightarrow> slice_step env m h (snd (Attach env m p pid h))"
| destroy: "plain_name p \<Longrightarrow> slice_step env m h (snd (Destroy env m p h))"

definition limit_files :: "string set" where
  "limit_files = {''cpu.weight'', ''memory.max'', ''io.weight'', ''pids.max''}"

text \<open>
  What the kernel documents of cgroups (Documentation/admin-guide/cgroup-v2.rst, "Enabling and
  Disabling"): a controller's files exist in a slice only if the controller was enabled for it, by
  a write to \<open>cgroup.subtree_control\<close> of the slice above.
\<close>

definition delegation_law :: "fs_env \<Rightarrow> string \<Rightarrow> bool" where
  "delegation_law env base \<longleftrightarrow> (\<forall>h p f. plain_name p \<and> f \<in> limit_files \<and>
     fe_stat env h (base @ ''/'' @ p @ ''/'' @ f) = None \<longrightarrow>
       (\<exists>v. Write_file (base @ ''/cgroup.subtree_control'') v \<in> set h))"

text \<open>No controller was enabled for the processes of the slice, and no limit was written.\<close>

definition undelegated :: "string \<Rightarrow> fs_op list \<Rightarrow> bool" where
  "undelegated base h \<longleftrightarrow> (\<forall>v. Write_file (base @ ''/cgroup.subtree_control'') v \<notin> set h) \<and>
     (\<forall>p f v. plain_name p \<and> f \<in> limit_files \<longrightarrow> Write_file (base @ ''/'' @ p @ ''/'' @ f) v \<notin> set h)"

lemma limit_files_plain: "f \<in> limit_files \<Longrightarrow> CHR ''/'' \<notin> set f"
  by (auto simp: limit_files_def)

text \<open>A file in the slice of a process, named by the process and the file.\<close>

lemma slice_file_eq:
  assumes "plain_name p" "plain_name q" "CHR ''/'' \<notin> set f" "CHR ''/'' \<notin> set g"
  shows "base @ ''/'' @ p @ ''/'' @ f = base @ ''/'' @ q @ ''/'' @ g \<longleftrightarrow> p = q \<and> f = g"
  using assms append_Cons_eq_iff [of "CHR ''/''" p f q g] by (auto simp: plain_name_def)

lemma slice_file_deep: "CHR ''/'' \<notin> set f \<Longrightarrow> base @ ''/'' @ f \<noteq> base @ ''/'' @ p @ ''/'' @ g"
  by auto

text \<open>A change inside the slice of a process that is no limit.\<close>

definition harmless :: "string \<Rightarrow> fs_op \<Rightarrow> bool" where
  "harmless base op \<longleftrightarrow> (\<forall>path v. op = Write_file path v \<longrightarrow>
     (\<exists>p f. path = base @ ''/'' @ p @ ''/'' @ f \<and> plain_name p \<and> CHR ''/'' \<notin> set f \<and> f \<notin> limit_files))"

lemma undelegated_harmless:
  assumes "undelegated base h" "\<forall>op\<in>set ops. harmless base op"
  shows "undelegated base (h @ ops)"
proof -
  have c: "CHR ''/'' \<notin> set ''cgroup.subtree_control''" by simp
  have "Write_file (base @ ''/cgroup.subtree_control'') v \<notin> set ops" for v
  proof
    assume "Write_file (base @ ''/cgroup.subtree_control'') v \<in> set ops"
    then obtain p f where "base @ ''/cgroup.subtree_control'' = base @ ''/'' @ p @ ''/'' @ f"
      using assms(2) unfolding harmless_def by blast
    then show False using slice_file_deep [OF c, of base p f] by simp
  qed
  moreover have "Write_file (base @ ''/'' @ p @ ''/'' @ f) v \<notin> set ops"
    if "plain_name p" "f \<in> limit_files" for p f v
  proof
    assume "Write_file (base @ ''/'' @ p @ ''/'' @ f) v \<in> set ops"
    then obtain q g where q: "base @ ''/'' @ p @ ''/'' @ f = base @ ''/'' @ q @ ''/'' @ g"
      "plain_name q" "CHR ''/'' \<notin> set g" "g \<notin> limit_files"
      using assms(2) unfolding harmless_def by blast
    then have "f = g" using slice_file_eq [OF that(1) q(2) limit_files_plain [OF that(2)] q(3)] by blast
    then show False using that(2) q(4) by blast
  qed
  ultimately show ?thesis using assms(1) by (auto simp: undelegated_def)
qed

lemma limit_ops_files:
  "op \<in> set (limit_ops dir r) \<Longrightarrow> \<exists>f v. op = Write_file (dir @ ''/'' @ f) v \<and> f \<in> limit_files"
  by (auto simp: limit_ops_def limit_files_def split: if_splits)

text \<open>Without delegation no limit is accepted.\<close>

lemma undelegated_accepts_none:
  assumes "delegation_law env base" "undelegated base h" "plain_name p"
  shows "accepted env h (limit_ops (base @ ''/'' @ p) r) = []"
proof (rule accepted_none, intro allI impI)
  fix path data
  assume "Write_file path data \<in> set (limit_ops (base @ ''/'' @ p) r)"
  then obtain f where f: "path = base @ ''/'' @ p @ ''/'' @ f" "f \<in> limit_files"
    using limit_ops_files by fastforce
  show "fe_stat env h path \<noteq> None"
  proof
    assume "fe_stat env h path = None"
    then have "\<exists>v. Write_file (base @ ''/cgroup.subtree_control'') v \<in> set h"
      using assms(1,3) f unfolding delegation_law_def by (metis (no_types))
    then show False using assms(2) by (simp add: undelegated_def)
  qed
qed

lemma undelegated_create:
  assumes "delegation_law env (cm_basePath m)" "undelegated (cm_basePath m) h"
    and "clean_dir (cm_basePath m)" "plain_name p"
  shows "undelegated (cm_basePath m) (snd (CreateProcessSlice env m p res h))"
proof (cases "fe_mkdir env h (cm_basePath m @ ''/'' @ p)")
  case None
  let ?dir = "cm_basePath m @ ''/'' @ p"
  obtain ctrl r where c: "snd (CreateProcessSlice env m p res h) =
      h @ [Mkdir ?dir] @ ctrl @ accepted env (h @ [Mkdir ?dir] @ ctrl) (limit_ops ?dir r)"
    "set ctrl \<subseteq> (\<lambda>c. Write_file (?dir @ ''/cgroup.subtree_control'') (''+'' @ c @ newline)) `
       {''cpu'', ''memory'', ''io'', ''pids''}"
    using CreateProcessSlice_effect [OF assms(3,4), where env = env and h = h and res = res] None
    by (auto simp: Let_def)
  have "harmless (cm_basePath m) op" if "op \<in> set (Mkdir ?dir # ctrl)" for op
  proof -
    have s: "CHR ''/'' \<notin> set ''cgroup.subtree_control''" "''cgroup.subtree_control'' \<notin> limit_files"
      by (simp_all add: limit_files_def)
    have "op = Mkdir ?dir \<or> (\<exists>v. op = Write_file (cm_basePath m @ ''/'' @ p @ ''/'' @ ''cgroup.subtree_control'') v)"
      using that c(2) by auto
    then show ?thesis unfolding harmless_def using assms(4) s by (metis fs_op.distinct(1) fs_op.inject(2))
  qed
  then have u: "undelegated (cm_basePath m) (h @ [Mkdir ?dir] @ ctrl)"
    by (intro undelegated_harmless [OF assms(2)]) simp
  show ?thesis
    unfolding c(1) using u undelegated_accepts_none [OF assms(1) u assms(4)] by simp
next
  case (Some err)
  then show ?thesis
    using CreateProcessSlice_effect [OF assms(3,4), where env = env and h = h and res = res] assms(2) by (simp add: Let_def)
qed

lemma harmless_other:
  "plain_name p \<Longrightarrow> CHR ''/'' \<notin> set f \<Longrightarrow> f \<notin> limit_files \<Longrightarrow>
     harmless base (Write_file (base @ ''/'' @ p @ ''/'' @ f) v)"
  "harmless base (Remove q)" "harmless base (Mkdir q)"
  by (auto simp: harmless_def)

lemma undelegated_slice_step:
  assumes "slice_step env m h h'" "delegation_law env (cm_basePath m)" "clean_dir (cm_basePath m)"
    and "undelegated (cm_basePath m) h"
  shows "undelegated (cm_basePath m) h'"
  using assms(1)
proof (cases rule: slice_step.cases)
  case (create p res)
  then show ?thesis using undelegated_create assms(2-4) by simp
next
  case (attach p pid)
  have n: "plain_name ''cgroup.procs''" "''cgroup.procs'' \<notin> limit_files" "CHR ''/'' \<notin> set ''cgroup.procs''"
    by (simp_all add: plain_name_def limit_files_def)
  have path: "path_Join [path_Join [cm_basePath m, p], ''cgroup.procs''] =
      cm_basePath m @ ''/'' @ p @ ''/'' @ ''cgroup.procs''"
    using limit_name [OF clean_dir_Join [OF assms(3) attach(2)] n(1)] limit_name [OF assms(3) attach(2)] by simp
  have "\<exists>ops. h' = h @ ops \<and> (\<forall>op\<in>set ops. harmless (cm_basePath m) op)"
    unfolding attach(1) Attach_def Let_def path fs_write_def
    using harmless_other(1) [OF attach(2) n(3,2)]
    by (cases "fe_write env h (cm_basePath m @ ''/'' @ p @ ''/'' @ ''cgroup.procs'') (show_int pid @ newline)")
      simp_all
  then show ?thesis using undelegated_harmless [OF assms(4)] by blast
next
  case (destroy p)
  have n: "plain_name ''cgroup.kill''" "''cgroup.kill'' \<notin> limit_files" "CHR ''/'' \<notin> set ''cgroup.kill''"
    by (simp_all add: plain_name_def limit_files_def)
  have path: "path_Join [path_Join [cm_basePath m, p], ''cgroup.kill''] =
      cm_basePath m @ ''/'' @ p @ ''/'' @ ''cgroup.kill''"
    using limit_name [OF clean_dir_Join [OF assms(3) destroy(2)] n(1)] limit_name [OF assms(3) destroy(2)] by simp
  let ?w = "Write_file (cm_basePath m @ ''/'' @ p @ ''/'' @ ''cgroup.kill'') ''1''"
  let ?d = "path_Join [cm_basePath m, p]"
  have "h' \<in> {h, h @ [?w], h @ [Remove ?d], h @ [?w, Remove ?d]}"
    unfolding destroy(1) Destroy_def Let_def path fs_write_def fs_remove_def
    by (auto split: option.splits remove_error.splits prod.splits)
  then have "\<exists>ops. h' = h @ ops \<and> (\<forall>op\<in>set ops. harmless (cm_basePath m) op)"
    using harmless_other(1) [OF destroy(2) n(3,2), of "cm_basePath m" "''1''"] harmless_other(2) by auto
  then show ?thesis using undelegated_harmless [OF assms(4)] by blast
qed

text \<open>The manager enables the controllers in the slice above its own, and in no other.\<close>

lemma probe_loop_ops:
  "\<exists>ops. snd (probe_loop env cs err h) = h @ ops \<and> (\<forall>path v. Write_file path v \<notin> set ops)"
  by (induction cs arbitrary: err h) (auto simp: fs_mkdir_def fs_remove_def split: option.split)

lemma probe_loop_in: "probe_loop env cs err h = (Inr c, h') \<Longrightarrow> c \<in> set cs"
  by (induction cs arbitrary: err h) (auto simp: fs_mkdir_def split: option.splits)

lemma NewCgroupManager_undelegated:
  assumes "NewCgroupManager env lordID h = (Inr m, h')" "plain_name lordID"
    and "\<forall>c\<in>set (root_candidates env h). clean_dir c"
    and "\<forall>f v. Write_file (cm_basePath m @ ''/'' @ f) v \<notin> set h"
  shows "clean_dir (cm_basePath m)" "undelegated (cm_basePath m) h'"
proof -
  obtain c h1 where c: "findWritableRoot env h = (Inr c, h1)"
    using assms(1) by (auto simp: NewCgroupManager_def split: option.splits sum.splits prod.splits)
  let ?root = "path_Join [c, etroniumSlice]"
  have plain: "plain_name etroniumSlice" by (simp add: plain_name_def etroniumSlice_def)
  have "clean_dir c"
    using c assms(3) probe_loop_in unfolding findWritableRoot_def by blast
  then have root: "clean_dir ?root"
    using clean_dir_Join [of c etroniumSlice] path_Join_plain [of c etroniumSlice] plain by simp
  have base: "cm_basePath m = ?root @ ''/'' @ lordID"
    using assms(1) c limit_name [OF root assms(2)]
    by (auto simp: NewCgroupManager_def Let_def split: option.splits prod.splits)
  show "clean_dir (cm_basePath m)"
    unfolding base using clean_dir_Join [OF root assms(2)] by simp
  obtain ops1 where ops1: "h1 = h @ ops1" "\<forall>path v. Write_file path v \<notin> set ops1"
    using c probe_loop_ops unfolding findWritableRoot_def by (metis snd_conv)
  obtain ctrl where ctrl: "enableControllers env ?root (h1 @ [Mkdir ?root]) = (h1 @ [Mkdir ?root]) @ ctrl"
    "set ctrl \<subseteq> (\<lambda>c. Write_file (?root @ ''/cgroup.subtree_control'') (''+'' @ c @ newline)) `
       {''cpu'', ''memory'', ''io'', ''pids''}"
    using enableControllers_ops [OF root] by blast
  have h': "h' = h1 @ [Mkdir ?root] @ ctrl @ [Mkdir (path_Join [?root, lordID])]"
    using assms(1) c ctrl(1)
    by (auto simp: NewCgroupManager_def Let_def fs_mkdir_def split: option.splits prod.splits)
  have far: "?root @ ''/cgroup.subtree_control'' \<noteq> cm_basePath m @ ''/'' @ f" for f
  proof
    assume "?root @ ''/cgroup.subtree_control'' = cm_basePath m @ ''/'' @ f"
    then have "''cgroup.subtree_control'' = lordID @ ''/'' @ f" unfolding base by simp
    then have "CHR ''/'' \<in> set ''cgroup.subtree_control''" by (metis in_set_conv_decomp append_Cons append_Nil)
    then show False by simp
  qed
  have none: "Write_file (cm_basePath m @ ''/'' @ f) v \<notin> set h'" for f v
    using assms(4) ops1(2) ctrl(2) far [of f] unfolding h' ops1(1) by auto
  show "undelegated (cm_basePath m) h'"
    unfolding undelegated_def using none by (metis append_Cons append_Nil)
qed

lemma undelegated_steps:
  assumes "(slice_step env m)\<^sup>*\<^sup>* h h'" "delegation_law env (cm_basePath m)" "clean_dir (cm_basePath m)"
    and "undelegated (cm_basePath m) h"
  shows "undelegated (cm_basePath m) h'"
  using assms(1) by induction (use assms(2-4) undelegated_slice_step in blast)+

text \<open>A root that is found is one of the two candidates, the kernel lets the lord make directories
  in it, and the search has done nothing but make and remove its probe there.\<close>

theorem findWritableRoot_sound:
  assumes "findWritableRoot env h = (Inr c, h')"
  shows "c \<in> set (root_candidates env h) \<and> fe_mkdir env h (probe_dir c) = None \<and>
    (h' = h @ [Mkdir (probe_dir c)] \<or> h' = h @ [Mkdir (probe_dir c), Remove (probe_dir c)])"
proof -
  have "probe_loop env cs err h = (Inr c, h') \<Longrightarrow> c \<in> set cs \<and> fe_mkdir env h (probe_dir c) = None \<and>
    (h' = h @ [Mkdir (probe_dir c)] \<or> h' = h @ [Mkdir (probe_dir c), Remove (probe_dir c)])" for cs err
    by (induction cs arbitrary: err)
      (auto simp: fs_mkdir_def fs_remove_def split: option.splits)
  then show ?thesis using assms by (simp add: findWritableRoot_def)
qed

text \<open>A counter that the kernel prints on a line of its own is read back exactly.\<close>

lemma readUint_roundtrip:
  "fe_read env h path = Some (show_nat n @ newline) \<Longrightarrow> n \<le> maxUint64 \<Longrightarrow> readUint env h path = Some n"
  by (simp add: readUint_def newline_def ParseUint_TrimSpace)


subsection \<open>The search on a concrete system\<close>

text \<open>The lord runs in a slice of its own, in which it may make directories.\<close>

definition demo_cgroup_fs :: fs_env where
  "demo_cgroup_fs = \<lparr>fe_mkdir = (\<lambda>h p. None), fe_write = (\<lambda>h p d. None), fe_remove = (\<lambda>h p. None),
     fe_read = (\<lambda>h p. if p = ''/proc/self/cgroup'' then Some (''0::/user'' @ newline) else None),
     fe_stat = (\<lambda>h p. None), fe_dir = (\<lambda>h p. None)\<rparr>"

lemma demo_candidates: "root_candidates demo_cgroup_fs h = [''/sys/fs/cgroup/user'', ''/sys/fs/cgroup'']"
  by (simp add: root_candidates_def demo_cgroup_fs_def newline_def Split_def HasPrefix_def TrimPrefix_def
      cgroupRoot_def path_Join.simps path_Clean_def)

theorem findWritableRoot_sound_witness:
  "\<exists>h'. findWritableRoot demo_cgroup_fs [] = (Inr ''/sys/fs/cgroup/user'', h') \<and>
     Mkdir (probe_dir ''/sys/fs/cgroup/user'') \<in> set h'"
proof -
  obtain h' where f: "findWritableRoot demo_cgroup_fs [] = (Inr ''/sys/fs/cgroup/user'', h')"
    unfolding findWritableRoot_def demo_candidates
    by (simp add: demo_cgroup_fs_def fs_mkdir_def)
  from findWritableRoot_sound [OF f] show ?thesis using f by auto
qed

end
