(* ===== verification/Lord_Agent.thy ===== *)
theory Lord_Agent
  imports Cgroup Evolution
begin

section \<open>The agent on a donor machine (agent.go, exec.go, drain.go, stats.go)\<close>

text \<open>
  The agent holds the table of the processes it runs and the outbox of its stream. A message of the
  scheduler, the end of a child, a read of a pipe and a heartbeat are steps over its state. What the
  operating system answers (whether a program starts and under which pid, how much of a write a
  pipe takes, whether a signal can be sent, the cgroup file system, the clock) is the record
  \<open>ag_env\<close>. The package variable \<open>draining\<close> is part of the state. The outbox is the queue of all
  messages sent and not yet taken by the stream: a sender that finds the channel of 128 full blocks
  until there is room, which keeps the order; only the message of the drain is given up instead.
\<close>

subsection \<open>State\<close>

record local_process =
  loc_ProcessID :: string
  loc_LordPID :: int
  loc_execPath :: string
  loc_argv :: "string list"
  loc_dir :: string                 \<comment> \<open>the directory it starts in; none: that of the agent\<close>
  loc_env :: "string list"
  loc_stdin :: "byte list"          \<comment> \<open>what the pipe has taken\<close>
  loc_pipeOpen :: bool
  loc_stdinClosed :: bool

text \<open>A child that is waited for: the goroutine holds its id, its pid and the cgroup manager.\<close>

record child =
  ch_ProcessID :: string
  ch_pid :: int
  ch_cg :: "cgroup_manager option"

record agent =
  ag_lordID :: string
  ag_cg :: "cgroup_manager option"
  ag_procs :: "string \<Rightarrow> local_process option"
  ag_outbox :: "lord_cmd list"
  ag_draining :: bool
  ag_fs :: "fs_op list"
  ag_children :: "child list"
  ag_signals :: "(int \<times> int) list"          \<comment> \<open>signals sent: target, number\<close>
  ag_lastCpuUsec :: nat
  ag_lastSampleAt :: time

definition NewAgent :: agent where
  "NewAgent = \<lparr>ag_lordID = '''', ag_cg = None, ag_procs = Map.empty, ag_outbox = [],
     ag_draining = False, ag_fs = [], ag_children = [], ag_signals = [],
     ag_lastCpuUsec = 0, ag_lastSampleAt = 0\<rparr>"

datatype start_outcome = Pipe_failed string string | Start_failed string | Started_as int

record ag_env =
  ax_fs :: fs_env
  ax_now :: time
  ax_start :: start_outcome
  ax_environ :: "string list"
  ax_envOrder :: "string list"              \<comment> \<open>iteration over the environment of the request\<close>
  ax_write :: "byte list \<Rightarrow> nat \<times> bool"      \<comment> \<open>bytes a pipe takes, and whether it fails\<close>
  ax_kill :: "int \<Rightarrow> int \<Rightarrow> string option"
  ax_procOrder :: "string list"             \<comment> \<open>iteration over the processes\<close>
  ax_numCPU :: int

definition ag_send :: "lord_cmd \<Rightarrow> agent \<Rightarrow> agent" where
  "ag_send cmd ag = ag\<lparr>ag_outbox := ag_outbox ag @ [cmd]\<rparr>"

definition put_proc :: "string \<Rightarrow> local_process \<Rightarrow> agent \<Rightarrow> agent" where
  "put_proc p lp ag = ag\<lparr>ag_procs := (ag_procs ag)(p \<mapsto> lp)\<rparr>"

definition del_proc :: "string \<Rightarrow> agent \<Rightarrow> agent" where
  "del_proc p ag = ag\<lparr>ag_procs := (ag_procs ag)(p := None)\<rparr>"

interpretation local_procs: keyed_store ag_procs put_proc del_proc
  by unfold_locales (simp_all add: put_proc_def del_proc_def)

subsection \<open>Starting a process\<close>

definition sendProcessExit :: "string \<Rightarrow> i32 \<Rightarrow> i32 \<Rightarrow> i64 \<Rightarrow> i64 \<Rightarrow> agent \<Rightarrow> agent" where
  "sendProcessExit processID exitCode exitSignal cpuUsec memPeak =
     ag_send (Cmd_ProcessExit \<lparr>px_process_id = processID, px_exit_code = exitCode,
       px_exit_signal = exitSignal, px_cpu_usage_usec = cpuUsec, px_mem_peak_bytes = memPeak\<rparr>)"

text \<open>The environment of the agent first, so that the request overrides it.\<close>

definition buildEnv :: "string list \<Rightarrow> string list \<Rightarrow> str_map \<Rightarrow> string list" where
  "buildEnv environ ks env =
     environ @ (case env of
        None \<Rightarrow> []
      | Some m \<Rightarrow> map (\<lambda>(k, v). k @ ''='' @ v) (go_range m ks))"

definition max32 :: "i32 \<Rightarrow> i32 \<Rightarrow> i32" where
  "max32 a b = (if sint b < sint a then a else b)"

definition protoResourcesToLord :: "resource_spec option \<Rightarrow> resources option" where
  "protoResourcesToLord r =
     (case r of
        None \<Rightarrow> None
      | Some r \<Rightarrow> Some \<lparr>re_CPUShares = max32 (rs_cpu_shares r) 0,
          re_MemLimitBytes = rs_mem_limit_bytes r,
          re_IOWeight = max32 (rs_io_weight r) 0,
          re_PidsLimit = max32 (rs_pids_limit r) 0\<rparr>)"

text \<open>Creating the slice and moving the child into it; failures are logged only.\<close>

definition attach_cgroup ::
  "ag_env \<Rightarrow> string \<Rightarrow> resource_spec option \<Rightarrow> int \<Rightarrow> agent \<Rightarrow> agent" where
  "attach_cgroup env processID res pid ag =
     (case ag_cg ag of
        None \<Rightarrow> ag
      | Some cg \<Rightarrow>
          (case CreateProcessSlice (ax_fs env) cg processID (protoResourcesToLord res) (ag_fs ag) of
             (Inl _, h) \<Rightarrow> ag\<lparr>ag_fs := h\<rparr>
           | (Inr _, h) \<Rightarrow> ag\<lparr>ag_fs := snd (Attach (ax_fs env) cg processID pid h)\<rparr>))"

text \<open>The initial input is written and the pipe closed; what the pipe does not take is lost.\<close>

definition new_local_process :: "ag_env \<Rightarrow> spawn_request \<Rightarrow> int \<Rightarrow> local_process" where
  "new_local_process env req pid =
     (let input = sr_stdin_initial req in
      \<lparr>loc_ProcessID = sr_process_id req, loc_LordPID = pid, loc_execPath = sr_exec_path req,
       loc_argv = sr_argv req, loc_dir = sr_working_dir req,
       loc_env = buildEnv (ax_environ env) (ax_envOrder env) (sr_env req),
       loc_stdin = (if 0 < length input then take (fst (ax_write env input)) input else []),
       loc_pipeOpen = (\<not> 0 < length input), loc_stdinClosed = False\<rparr>)"

definition started_cmd :: "string \<Rightarrow> int \<Rightarrow> lord_cmd" where
  "started_cmd processID pid =
     Cmd_Started \<lparr>ps_process_id = processID, ps_local_pid = word_of_int pid\<rparr>"

definition handleSpawn :: "ag_env \<Rightarrow> spawn_request \<Rightarrow> agent \<Rightarrow> go_error option \<times> agent" where
  "handleSpawn env req ag =
     (let processID = sr_process_id req in
      if processID = '''' then (Some (Errorf ''spawn: missing process_id''), ag)
      else if ag_draining ag then
        (Some (Errorf ''lord is draining''), sendProcessExit processID (- 1) 0 0 0 ag)
      else
        (case ax_start env of
           Pipe_failed which err \<Rightarrow> (Some (Errorf (which @ '' pipe: '' @ err)), ag)
         | Start_failed err \<Rightarrow>
             (Some (Errorf (''start: '' @ err)), sendProcessExit processID (- 1) 0 0 0 ag)
         | Started_as pid \<Rightarrow>
             let ag1 = attach_cgroup env processID (sr_resources req) pid ag;
                 ag2 = put_proc processID (new_local_process env req pid) ag1;
                 ag3 = ag_send (started_cmd processID pid) ag2
             in (None, ag3\<lparr>ag_children := ag_children ag3 @
                   [\<lparr>ch_ProcessID = processID, ch_pid = pid, ch_cg = ag_cg ag\<rparr>]\<rparr>)))"

subsection \<open>The end of a child\<close>

text \<open>What \<open>Wait\<close> of the child returns: no error, an exit code, a signal, or an error of its own.\<close>

datatype wait_outcome = Wait_ok | Wait_code i32 | Wait_signal i32 | Wait_failed

fun exit_codes :: "wait_outcome \<Rightarrow> i32 \<times> i32" where
  "exit_codes Wait_ok = (0, 0)"
| "exit_codes (Wait_code c) = (c, 0)"
| "exit_codes (Wait_signal s) = (- 1, s)"
| "exit_codes Wait_failed = (- 1, 0)"

text \<open>The waiting goroutine of the i-th child reads the counters, removes the slice, reports.\<close>

definition child_exited :: "ag_env \<Rightarrow> nat \<Rightarrow> wait_outcome \<Rightarrow> agent \<Rightarrow> agent" where
  "child_exited env i outcome ag =
     (if i < length (ag_children ag) then
        (let c = ag_children ag ! i;
             p = ch_ProcessID c;
             (code, sig) = exit_codes outcome;
             (cpuUsec, memPeak, h) =
               (case ch_cg c of
                  None \<Rightarrow> (0, 0, ag_fs ag)
                | Some cg \<Rightarrow>
                    (let stats = ReadStats (ax_fs env) cg p (ag_fs ag) in
                     (of_nat (st_CPUUsageUSec stats), of_nat (st_MemoryPeak stats),
                      snd (Destroy (ax_fs env) cg p (ag_fs ag)))));
             ag1 = ag\<lparr>ag_fs := h,
                      ag_children := take i (ag_children ag) @ drop (i + 1) (ag_children ag)\<rparr>
         in del_proc p (sendProcessExit p code sig cpuUsec memPeak ag1))
      else ag)"

subsection \<open>Output\<close>

text \<open>
  \<open>pumpStream\<close>: the reads of a pipe, each with its bytes (4096 at most) and whether it also
  returned an error (the end of the file is one); the messages it sends, with running offsets.
\<close>

fun pump_loop :: "string \<Rightarrow> io_stream \<Rightarrow> i64 \<Rightarrow> (byte list \<times> bool) list \<Rightarrow> lord_cmd list" where
  "pump_loop processID str off [] = []"
| "pump_loop processID str off ((data, err) # reads) =
     (let chunk = (if 0 < length data
        then [Cmd_Io \<lparr>po_process_id = processID,
                po_chunk = Some \<lparr>io_stream = str, io_data = data, io_offset = off\<rparr>\<rparr>]
        else []);
        off' = (if 0 < length data then off + of_nat (length data) else off)
      in chunk @ (if err then [] else pump_loop processID str off' reads))"

definition pumpStream :: "string \<Rightarrow> io_stream \<Rightarrow> (byte list \<times> bool) list \<Rightarrow> lord_cmd list" where
  "pumpStream processID str reads = pump_loop processID str 0 reads"

subsection \<open>Signals and input\<close>

definition lord_signal :: "kill_request \<Rightarrow> i32" where
  "lord_signal req =
     (let signal = (if kr_signal_number req = 0 then 15 else kr_signal_number req) in
      if kr_force req then 9 else signal)"

text \<open>\<open>syscall.Kill\<close>: a signal that is sent is recorded.\<close>

definition sys_kill :: "ag_env \<Rightarrow> int \<Rightarrow> int \<Rightarrow> agent \<Rightarrow> string option \<times> agent" where
  "sys_kill env target sig ag =
     (case ax_kill env target sig of
        Some err \<Rightarrow> (Some err, ag)
      | None \<Rightarrow> (None, ag\<lparr>ag_signals := ag_signals ag @ [(target, sig)]\<rparr>))"

text \<open>The signal goes to the process group.\<close>

definition handleKill :: "ag_env \<Rightarrow> kill_request \<Rightarrow> agent \<Rightarrow> go_error option \<times> agent" where
  "handleKill env req ag =
     (case ag_procs ag (kr_process_id req) of
        None \<Rightarrow> (None, ag)
      | Some lp \<Rightarrow>
          (case sys_kill env (- loc_LordPID lp) (sint (lord_signal req)) ag of
             (Some err, ag1) \<Rightarrow> (Some (Errorf err), ag1)
           | (None, ag1) \<Rightarrow> (None, ag1)))"

definition stdin_ack :: "agent \<Rightarrow> string \<Rightarrow> i32 \<Rightarrow> bool \<Rightarrow> lord_cmd" where
  "stdin_ack ag processID written isClosed =
     Cmd_WriteStdinAck \<lparr>wa_lord_id = ag_lordID ag, wa_process_id = processID,
       wa_bytes_written = written, wa_closed = isClosed\<rparr>"

text \<open>Writing to the pipe of a process: a pipe that was closed takes nothing and fails.\<close>

definition pipe_write :: "ag_env \<Rightarrow> byte list \<Rightarrow> local_process \<Rightarrow> (nat \<times> bool) \<times> local_process" where
  "pipe_write env data lp =
     (if \<not> loc_pipeOpen lp then ((0, True), lp)
      else (case ax_write env data of (n, err) \<Rightarrow>
        ((n, err), lp\<lparr>loc_stdin := loc_stdin lp @ take n data\<rparr>)))"

definition handleWriteStdin :: "ag_env \<Rightarrow> write_stdin_request \<Rightarrow> agent \<Rightarrow> agent" where
  "handleWriteStdin env req ag =
     (let p = ws_process_id req in
      case ag_procs ag p of
        None \<Rightarrow> ag_send (stdin_ack ag p 0 True) ag
      | Some lp \<Rightarrow>
          if loc_stdinClosed lp then ag_send (stdin_ack ag p 0 True) ag
          else
            let (written, closedNow, lp1) =
                  (if 0 < length (ws_data req) then
                     (case pipe_write env (ws_data req) lp of ((n, err), lp') \<Rightarrow>
                        (of_nat n, err, if err then lp'\<lparr>loc_stdinClosed := True\<rparr> else lp'))
                   else (0, False, lp));
                (closedNow', lp2) =
                  (if ws_eof req \<and> \<not> closedNow
                   then (True, lp1\<lparr>loc_pipeOpen := False, loc_stdinClosed := True\<rparr>)
                   else (closedNow, lp1))
            in ag_send (stdin_ack ag p written closedNow') (put_proc p lp2 ag))"

subsection \<open>Draining\<close>

definition outbox_size :: nat where
  "outbox_size = 128"

definition drain_grace :: "i32 \<Rightarrow> duration" where
  "drain_grace sec = (let grace = sint sec * Second in if grace = 0 then 30 * Second else grace)"

fun kill_all :: "ag_env \<Rightarrow> int \<Rightarrow> int list \<Rightarrow> agent \<Rightarrow> agent" where
  "kill_all env sig [] ag = ag"
| "kill_all env sig (pid # pids) ag = kill_all env sig pids (snd (sys_kill env pid sig ag))"

definition local_pids :: "ag_env \<Rightarrow> agent \<Rightarrow> int list" where
  "local_pids env ag = map loc_LordPID (go_values (ag_procs ag) (ax_procOrder env))"

text \<open>
  The start of the drain, up to the polling loop: None when the agent drains already, otherwise
  the deadline of the loop.
\<close>

definition drain_start :: "ag_env \<Rightarrow> i32 \<Rightarrow> agent \<Rightarrow> time option \<times> agent" where
  "drain_start env graceSec ag =
     (if ag_draining ag then (None, ag)
      else (Some (ax_now env + drain_grace graceSec),
            kill_all env 15 (local_pids env ag) (ag\<lparr>ag_draining := True\<rparr>)))"

text \<open>Whether the loop goes on when it looks.\<close>

definition drain_waits :: "ag_env \<Rightarrow> time \<Rightarrow> agent \<Rightarrow> bool" where
  "drain_waits env deadline ag \<longleftrightarrow>
     time_Before (ax_now env) deadline \<and> length (go_range (ag_procs ag) (ax_procOrder env)) \<noteq> 0"

text \<open>After the loop: what is left is killed, the scheduler told if there is room; then the agent exits.\<close>

definition drain_finish :: "ag_env \<Rightarrow> i32 \<Rightarrow> agent \<Rightarrow> go_error option \<times> agent" where
  "drain_finish env graceSec ag =
     (let ag1 = kill_all env 9 (local_pids env ag) ag;
          ag2 = (if length (ag_outbox ag1) < outbox_size
                 then ag_send (Cmd_LazyDeath \<lparr>ld_lord_id = ag_lordID ag1,
                   ld_grace_period_sec = f64_to_i32 (duration_Seconds (drain_grace graceSec))\<rparr>) ag1
                 else ag1)
      in (Some (Errorf ''drain complete''), ag2))"

subsection \<open>Heartbeats\<close>

definition detectHardware ::
  "string \<Rightarrow> string \<Rightarrow> int \<Rightarrow> (string + i64) \<Rightarrow> i32 \<Rightarrow> i64 \<Rightarrow> go_error + register_request" where
  "detectHardware hostname arch numCPU memTotal advShares advMem =
     (case memTotal of
        Inl err \<Rightarrow> Inl (Errorf err)
      | Inr memBytes \<Rightarrow> Inr
          \<lparr>rr_hostname = hostname, rr_os = ''linux'', rr_arch = arch,
           rr_cpu_cores_physical = word_of_int numCPU, rr_mem_total_bytes_physical = memBytes,
           rr_advertised_cpu_shares = advShares, rr_advertised_mem_bytes = advMem\<rparr>)"

text \<open>The share of all cores used since the last sample, in per cent.\<close>

definition cpu_percent :: "nat \<Rightarrow> f64 \<Rightarrow> int \<Rightarrow> f64" where
  "cpu_percent deltaUsec elapsed numCPU =
     (let cores = f64_of_int numCPU;
          cpuPct = f64_of_int (int deltaUsec) / f64_of_int 1000000 / elapsed * f64_of_int 100 / cores;
          cpuPct1 = (if cpuPct < 0 then 0 else cpuPct);
          top = f64_of_int 100 * cores
      in if top < cpuPct1 then top else cpuPct1)"

definition getCurrentUsage :: "ag_env \<Rightarrow> agent \<Rightarrow> (i32 \<times> i64) \<times> agent" where
  "getCurrentUsage env ag =
     (case ag_cg ag of
        None \<Rightarrow> ((0, 0), ag)
      | Some cg \<Rightarrow>
          let nowUsec = readCpuUsec (ax_fs env) (ag_fs ag) (cm_basePath cg);
              elapsed = duration_Seconds (time_Sub (ax_now env) (ag_lastSampleAt ag));
              cpuUsec =
                (if 0 < ag_lastCpuUsec ag \<and> ag_lastCpuUsec ag < nowUsec \<and>
                    \<not> time_IsZero (ag_lastSampleAt ag)
                 then (if 0 < elapsed
                       then f64_to_u64 (cpu_percent (nowUsec - ag_lastCpuUsec ag) elapsed (ax_numCPU env))
                       else 0)
                 else 0);
              memBytes = readMemTotal (ax_fs env) (ag_fs ag) (cm_basePath cg)
          in ((ucast cpuUsec, memBytes),
              ag\<lparr>ag_lastCpuUsec := nowUsec, ag_lastSampleAt := ax_now env\<rparr>))"

definition sendHeartbeat :: "ag_env \<Rightarrow> agent \<Rightarrow> agent" where
  "sendHeartbeat env ag =
     (let active = of_nat (length (go_range (ag_procs ag) (ax_procOrder env)));
          ((cpuPct, memBytes), ag1) = getCurrentUsage env ag in
      ag_send (Cmd_Heartbeat \<lparr>hb_lord_id = ag_lordID ag1, hb_cpu_used_pct = cpuPct,
        hb_mem_used_bytes = memBytes, hb_active_processes = active\<rparr>) ag1)"

subsection \<open>The stream\<close>

text \<open>
  The acknowledgement of the registration brings the id; without cgroups the agent goes on.
\<close>

definition handle_first :: "ag_env \<Rightarrow> lord_event \<Rightarrow> agent \<Rightarrow> go_error option \<times> agent" where
  "handle_first env ev ag =
     (case ev of
        Ev_RegisterAck lordID interval \<Rightarrow>
          let ag1 = ag\<lparr>ag_lordID := lordID\<rparr> in
          (case NewCgroupManager (ax_fs env) lordID (ag_fs ag1) of
             (Inl err, h) \<Rightarrow> (None, ag1\<lparr>ag_fs := h\<rparr>)
           | (Inr cgm, h) \<Rightarrow> (None, ag1\<lparr>ag_fs := h, ag_cg := Some cgm\<rparr>))
      | _ \<Rightarrow> (Some (Errorf ''expected RegisterAck''), ag))"

text \<open>
  A message of the scheduler; the error is logged by the loop and nothing else. A drain makes the
  loop block until it is over: this is its start.
\<close>

definition handleEvent :: "ag_env \<Rightarrow> lord_event \<Rightarrow> agent \<Rightarrow> go_error option \<times> agent" where
  "handleEvent env ev ag =
     (case ev of
        Ev_RegisterAck lordID interval \<Rightarrow> (None, ag)
      | Ev_HeartbeatAck ack nxt \<Rightarrow> (None, ag)
      | Ev_Spawn req \<Rightarrow> handleSpawn env req ag
      | Ev_Kill req \<Rightarrow> handleKill env req ag
      | Ev_LazyDeathAck ack timeout \<Rightarrow> (Some (Errorf ''lazy death requested''), ag)
      | Ev_SetDrain grace reason \<Rightarrow> (None, snd (drain_start env grace ag))
      | Ev_WriteStdin req \<Rightarrow> (None, handleWriteStdin env req ag)
      | Ev_FilePush \<Rightarrow> (None, ag))"

text \<open>A round of the send loop: a message that cannot be sent is lost with the stream.\<close>

definition agent_sendLoop_step :: "string option \<Rightarrow> agent \<Rightarrow> (lord_cmd option \<times> go_error option) \<times> agent" where
  "agent_sendLoop_step sendErr ag =
     (case ag_outbox ag of
        [] \<Rightarrow> ((None, None), ag)
      | cmd # cmds \<Rightarrow>
          (case sendErr of
             None \<Rightarrow> ((Some cmd, None), ag\<lparr>ag_outbox := cmds\<rparr>)
           | Some err \<Rightarrow> ((None, Some (Errorf err)), ag\<lparr>ag_outbox := cmds\<rparr>)))"

text \<open>The pause before the next connection, in the order of the attempts.\<close>

definition Millisecond :: duration where
  "Millisecond = 1000000"

definition initialBackoff :: duration where
  "initialBackoff = 500 * Millisecond"

definition maxBackoff :: duration where
  "maxBackoff = 30 * Second"

definition next_backoff :: "duration \<Rightarrow> duration" where
  "next_backoff backoff = (let b = backoff * 2 in if maxBackoff < b then maxBackoff else b)"

fun backoff_after :: "nat \<Rightarrow> duration" where
  "backoff_after 0 = initialBackoff"
| "backoff_after (Suc n) = next_backoff (backoff_after n)"

subsection \<open>Output across the two machines\<close>

text \<open>The bytes of a pipe up to the first error, in the chunks they are sent in.\<close>

fun pipe_chunks :: "(byte list \<times> bool) list \<Rightarrow> byte list list" where
  "pipe_chunks [] = []"
| "pipe_chunks ((data, err) # reads) =
     (if data = [] then [] else [data]) @ (if err then [] else pipe_chunks reads)"

definition io_cmd :: "string \<Rightarrow> io_stream \<Rightarrow> byte list \<Rightarrow> i64 \<Rightarrow> lord_cmd" where
  "io_cmd p str data off = Cmd_Io \<lparr>po_process_id = p,
     po_chunk = Some \<lparr>io_stream = str, io_data = data, io_offset = off\<rparr>\<rparr>"

fun io_cmds :: "string \<Rightarrow> io_stream \<Rightarrow> i64 \<Rightarrow> byte list list \<Rightarrow> lord_cmd list" where
  "io_cmds p str off [] = []"
| "io_cmds p str off (data # ds) = io_cmd p str data off # io_cmds p str (off + of_nat (length data)) ds"

lemma pump_loop_chunks: "pump_loop p str off reads = io_cmds p str off (pipe_chunks reads)"
  by (induction p str off reads rule: pump_loop.induct) (auto simp: Let_def io_cmd_def)

lemma io_cmds_length: "length (io_cmds p str off ds) = length ds"
  by (induction p str off ds rule: io_cmds.induct) simp_all

lemma io_cmds_nth:
  "i < length ds \<Longrightarrow> io_cmds p str off ds ! i =
     io_cmd p str (ds ! i) (off + of_nat (length (concat (take i ds))))"
proof (induction p str off ds arbitrary: i rule: io_cmds.induct)
  case (2 p str off data ds)
  then show ?case by (cases i) (simp_all add: add.assoc)
qed simp

text \<open>The scheduler writes every chunk into the buffer of the process and changes nothing else.\<close>

lemma handleIo_known:
  assumes "PT_Get (sv_processes sv) p = Some a" "alloc sv a"
  shows "pe_ioBuf (entry_at (sv_processes (recv_cmd env l (io_cmd p str data off) sv)) a) =
      rb_Write (pe_ioBuf (entry_at (sv_processes sv) a)) data"
    "PT_Get (sv_processes (recv_cmd env l (io_cmd p str data off) sv)) q = PT_Get (sv_processes sv) q"
    "alloc (recv_cmd env l (io_cmd p str data off) sv) b = alloc sv b"
    "sv_dir (recv_cmd env l (io_cmd p str data off) sv) = sv_dir sv"
proof -
  have r: "recv_cmd env l (io_cmd p str data off) sv = on_processes (pt_modify a (write_ioBuf data)) sv"
    using assms(1) by (simp add: recv_cmd_def io_cmd_def handleIo_def io_bytes_def)
  have h: "pt_heap (sv_processes sv) a \<noteq> None" using assms(2) by (simp add: alloc_def)
  show "pe_ioBuf (entry_at (sv_processes (recv_cmd env l (io_cmd p str data off) sv)) a) =
      rb_Write (pe_ioBuf (entry_at (sv_processes sv) a)) data"
    using h by (simp add: r entry_at_modify write_ioBuf_def)
  show "PT_Get (sv_processes (recv_cmd env l (io_cmd p str data off) sv)) q = PT_Get (sv_processes sv) q"
    by (simp add: r PT_Get_def)
  show "alloc (recv_cmd env l (io_cmd p str data off) sv) b = alloc sv b"
    by (simp add: r alloc_def heap_modify)
  show "sv_dir (recv_cmd env l (io_cmd p str data off) sv) = sv_dir sv"
  proof -
    have "info_at (pt_modify a (write_ioBuf data) (sv_processes sv)) b = info_at (sv_processes sv) b" for b
      unfolding info_at_modify [OF h] by (simp add: write_ioBuf_def info_at_def)
    then show ?thesis by (intro ext) (simp add: r dir_def map_option_case split: option.split)
  qed
qed

lemma feed_io:
  assumes "PT_Get (sv_processes sv) p = Some a" "alloc sv a"
  shows "pe_ioBuf (entry_at (sv_processes (fold (recv_cmd env l) (io_cmds p str off ds) sv)) a) =
      rb_writes (pe_ioBuf (entry_at (sv_processes sv) a)) ds \<and>
    sv_dir (fold (recv_cmd env l) (io_cmds p str off ds) sv) = sv_dir sv"
  using assms
proof (induction p str off ds arbitrary: sv rule: io_cmds.induct)
  case (2 p str off data ds)
  let ?sv = "recv_cmd env l (io_cmd p str data off) sv"
  note k = handleIo_known [OF 2(2,3), where str = str and data = data and off = off and env = env and l = l]
  have "PT_Get (sv_processes ?sv) p = Some a" "alloc ?sv a" using 2(2,3) k by simp_all
  from 2(1) [OF this] show ?case by (simp add: k)
qed simp

lemma feed_io_Get:
  assumes "PT_Get (sv_processes sv) p = Some a" "alloc sv a"
  shows "PT_Get (sv_processes (fold (recv_cmd env l) (io_cmds p str off ds) sv)) p = Some a"
  using assms
proof (induction p str off ds arbitrary: sv rule: io_cmds.induct)
  case (2 p str off data ds)
  then show ?case by (simp add: handleIo_known)
qed simp

subsection \<open>The table of the agent\<close>

text \<open>Every process in the table has a child that is waited for, so that its end will be reported.\<close>

definition ag_inv :: "agent \<Rightarrow> bool" where
  "ag_inv ag \<longleftrightarrow> (\<forall>p lp. ag_procs ag p = Some lp \<longrightarrow> p \<noteq> '''' \<and> loc_ProcessID lp = p \<and>
     (\<exists>c\<in>set (ag_children ag). ch_ProcessID c = p \<and> ch_pid c = loc_LordPID lp))"

lemma ag_send_frame [frame_simps, simp]:
  "ag_procs (ag_send cmd ag) = ag_procs ag" "ag_children (ag_send cmd ag) = ag_children ag"
  "ag_draining (ag_send cmd ag) = ag_draining ag" "ag_signals (ag_send cmd ag) = ag_signals ag"
  "ag_fs (ag_send cmd ag) = ag_fs ag" "ag_cg (ag_send cmd ag) = ag_cg ag"
  "ag_lordID (ag_send cmd ag) = ag_lordID ag" "ag_outbox (ag_send cmd ag) = ag_outbox ag @ [cmd]"
  by (simp_all add: ag_send_def)

lemma sendProcessExit_frame [frame_simps, simp]:
  "ag_procs (sendProcessExit p c s u m ag) = ag_procs ag"
  "ag_children (sendProcessExit p c s u m ag) = ag_children ag"
  "ag_draining (sendProcessExit p c s u m ag) = ag_draining ag"
  by (simp_all add: sendProcessExit_def)

lemma attach_cgroup_frame [frame_simps, simp]:
  "ag_procs (attach_cgroup env p res pid ag) = ag_procs ag"
  "ag_children (attach_cgroup env p res pid ag) = ag_children ag"
  "ag_draining (attach_cgroup env p res pid ag) = ag_draining ag"
  "ag_outbox (attach_cgroup env p res pid ag) = ag_outbox ag"
  "ag_lordID (attach_cgroup env p res pid ag) = ag_lordID ag"
  "ag_cg (attach_cgroup env p res pid ag) = ag_cg ag"
  by (auto simp: attach_cgroup_def split: option.split sum.split prod.split)

lemma proc_ops_frame [frame_simps, simp]:
  "ag_children (put_proc p lp ag) = ag_children ag" "ag_children (del_proc p ag) = ag_children ag"
  "ag_draining (put_proc p lp ag) = ag_draining ag" "ag_draining (del_proc p ag) = ag_draining ag"
  "ag_outbox (put_proc p lp ag) = ag_outbox ag" "ag_outbox (del_proc p ag) = ag_outbox ag"
  "ag_procs (put_proc p lp ag) = (ag_procs ag)(p \<mapsto> lp)"
  "ag_procs (del_proc p ag) = (ag_procs ag)(p := None)"
  by (simp_all add: put_proc_def del_proc_def)

lemma sys_kill_frame [frame_simps, simp]:
  "ag_procs (snd (sys_kill env t s ag)) = ag_procs ag"
  "ag_children (snd (sys_kill env t s ag)) = ag_children ag"
  "ag_draining (snd (sys_kill env t s ag)) = ag_draining ag"
  "ag_outbox (snd (sys_kill env t s ag)) = ag_outbox ag"
  by (auto simp: sys_kill_def split: option.split)

lemma kill_all_frame [frame_simps, simp]:
  "ag_procs (kill_all env s pids ag) = ag_procs ag"
  "ag_children (kill_all env s pids ag) = ag_children ag"
  "ag_draining (kill_all env s pids ag) = ag_draining ag"
  "ag_outbox (kill_all env s pids ag) = ag_outbox ag"
  by (induction env s pids ag rule: kill_all.induct) simp_all

lemma ag_inv_cong:
  "ag_procs ag' = ag_procs ag \<Longrightarrow> ag_children ag' = ag_children ag \<Longrightarrow> ag_inv ag' = ag_inv ag"
  by (simp add: ag_inv_def)

lemma handleSpawn_tables:
  "(ag_procs (snd (handleSpawn env req ag)) = ag_procs ag \<and>
    ag_children (snd (handleSpawn env req ag)) = ag_children ag) \<or>
   (\<exists>pid cg. sr_process_id req \<noteq> '''' \<and>
     ag_procs (snd (handleSpawn env req ag)) =
       (ag_procs ag)(sr_process_id req \<mapsto> new_local_process env req pid) \<and>
     ag_children (snd (handleSpawn env req ag)) =
       ag_children ag @ [\<lparr>ch_ProcessID = sr_process_id req, ch_pid = pid, ch_cg = cg\<rparr>])"
  by (cases "sr_process_id req = ''''"; cases "ag_draining ag"; cases "ax_start env")
    (simp_all add: handleSpawn_def Let_def)

lemma new_local_process_ids [simp]:
  "loc_ProcessID (new_local_process env req pid) = sr_process_id req"
  "loc_LordPID (new_local_process env req pid) = pid"
  by (simp_all add: new_local_process_def Let_def)

lemma ag_inv_add:
  assumes "ag_inv ag" "p \<noteq> ''''" "loc_ProcessID lp = p" "ch_ProcessID c = p" "ch_pid c = loc_LordPID lp"
    "ag_procs ag' = (ag_procs ag)(p \<mapsto> lp)" "ag_children ag' = ag_children ag @ [c]"
  shows "ag_inv ag'"
  unfolding ag_inv_def
proof (intro allI impI)
  fix q lq
  assume q: "ag_procs ag' q = Some lq"
  show "q \<noteq> '''' \<and> loc_ProcessID lq = q \<and>
    (\<exists>c\<in>set (ag_children ag'). ch_ProcessID c = q \<and> ch_pid c = loc_LordPID lq)"
  proof (cases "q = p")
    case False
    then have "ag_procs ag q = Some lq" using q assms(6) by simp
    then show ?thesis using assms(1,7) by (auto simp: ag_inv_def)
  qed (use q assms in simp)
qed

lemma ag_inv_handleSpawn:
  assumes "ag_inv ag"
  shows "ag_inv (snd (handleSpawn env req ag))"
  using handleSpawn_tables [of env req ag]
proof (elim disjE exE conjE)
  fix pid cg
  assume "sr_process_id req \<noteq> ''''"
    "ag_procs (snd (handleSpawn env req ag)) =
       (ag_procs ag)(sr_process_id req \<mapsto> new_local_process env req pid)"
    "ag_children (snd (handleSpawn env req ag)) =
       ag_children ag @ [\<lparr>ch_ProcessID = sr_process_id req, ch_pid = pid, ch_cg = cg\<rparr>]"
  then show ?thesis by (intro ag_inv_add [OF assms]) simp_all
qed (rule ag_inv_cong [THEN iffD2, OF _ _ assms])

lemma child_exited_tables:
  assumes "i < length (ag_children ag)"
  shows "ag_procs (child_exited env i oc ag) = (ag_procs ag)(ch_ProcessID (ag_children ag ! i) := None)"
    "ag_children (child_exited env i oc ag) = take i (ag_children ag) @ drop (i + 1) (ag_children ag)"
    "ag_draining (child_exited env i oc ag) = ag_draining ag"
  using assms
  by (cases "exit_codes oc"; cases "ch_cg (ag_children ag ! i)"; simp add: child_exited_def Let_def)+

lemma ag_inv_child_exited:
  assumes "ag_inv ag"
  shows "ag_inv (child_exited env i oc ag)"
proof (cases "i < length (ag_children ag)")
  case True
  let ?cs = "ag_children ag"
  have split: "?cs = take i ?cs @ ?cs ! i # drop (i + 1) ?cs"
    using id_take_nth_drop [OF True] by simp
  have "c \<in> set (take i ?cs @ drop (i + 1) ?cs)"
    if "c \<in> set ?cs" "ch_ProcessID c \<noteq> ch_ProcessID (?cs ! i)" for c
  proof -
    have "c \<in> set (take i ?cs @ ?cs ! i # drop (i + 1) ?cs)" using that(1) split by metis
    then show ?thesis using that(2) by auto
  qed
  then show ?thesis
    using assms unfolding ag_inv_def child_exited_tables [OF True]
    by (metis fun_upd_apply option.distinct(1))
qed (simp add: child_exited_def assms)

lemma ag_inv_handleWriteStdin: "ag_inv ag \<Longrightarrow> ag_inv (handleWriteStdin env req ag)"
  by (auto simp: handleWriteStdin_def Let_def ag_inv_def pipe_write_def case_prod_beta
      split: option.split if_splits)

lemma handleKill_cases:
  "snd (handleKill env req ag) = ag \<or> (\<exists>t s. snd (handleKill env req ag) = snd (sys_kill env t s ag))"
proof (cases "ag_procs ag (kr_process_id req)")
  case (Some lp)
  then show ?thesis
    by (cases "sys_kill env (- loc_LordPID lp) (sint (lord_signal req)) ag" rule: prod.exhaust)
      (metis (no_types, lifting) handleKill_def old.prod.case option.case(2) option.exhaust
        option.simps(4) snd_conv)
qed (simp add: handleKill_def)

lemma handleKill_frame:
  "ag_procs (snd (handleKill env req ag)) = ag_procs ag"
  "ag_children (snd (handleKill env req ag)) = ag_children ag"
  "ag_draining (snd (handleKill env req ag)) = ag_draining ag"
  using handleKill_cases [of env req ag] by auto

lemma drain_frame:
  "ag_procs (snd (drain_start env g ag)) = ag_procs ag"
  "ag_children (snd (drain_start env g ag)) = ag_children ag"
  "ag_procs (snd (drain_finish env g ag)) = ag_procs ag"
  "ag_children (snd (drain_finish env g ag)) = ag_children ag"
  "ag_draining (snd (drain_finish env g ag)) = ag_draining ag"
  by (simp_all add: drain_start_def drain_finish_def Let_def)

lemma getCurrentUsage_frame:
  "ag_procs (snd (getCurrentUsage env ag)) = ag_procs ag"
  "ag_children (snd (getCurrentUsage env ag)) = ag_children ag"
  "ag_draining (snd (getCurrentUsage env ag)) = ag_draining ag"
  by (simp_all add: getCurrentUsage_def Let_def split: option.split)

lemma sendHeartbeat_frame:
  "ag_procs (sendHeartbeat env ag) = ag_procs ag" "ag_children (sendHeartbeat env ag) = ag_children ag"
  "ag_draining (sendHeartbeat env ag) = ag_draining ag"
  using getCurrentUsage_frame [of env ag] by (simp_all add: sendHeartbeat_def Let_def case_prod_beta)

lemma handle_first_frame:
  "ag_procs (snd (handle_first env ev ag)) = ag_procs ag"
  "ag_children (snd (handle_first env ev ag)) = ag_children ag"
  "ag_draining (snd (handle_first env ev ag)) = ag_draining ag"
  by (auto simp: handle_first_def Let_def split: lord_event.split sum.split prod.split)

text \<open>The steps of the agent.\<close>

inductive agent_step :: "agent \<Rightarrow> agent \<Rightarrow> bool" where
  first: "agent_step ag (snd (handle_first env ev ag))"
| event: "agent_step ag (snd (handleEvent env ev ag))"
| child: "agent_step ag (child_exited env i oc ag)"
| pump: "agent_step ag (fold ag_send (pumpStream p str reads) ag)"
| heartbeat: "agent_step ag (sendHeartbeat env ag)"
| drained: "ag_draining ag \<Longrightarrow> agent_step ag (snd (drain_finish env g ag))"
| sent: "agent_step ag (snd (agent_sendLoop_step err ag))"

lemma fold_ag_send_frame:
  "ag_procs (fold ag_send cmds ag) = ag_procs ag" "ag_children (fold ag_send cmds ag) = ag_children ag"
  "ag_draining (fold ag_send cmds ag) = ag_draining ag"
  by (induction cmds arbitrary: ag) simp_all

lemma sendLoop_step_frame:
  "ag_procs (snd (agent_sendLoop_step err ag)) = ag_procs ag"
  "ag_children (snd (agent_sendLoop_step err ag)) = ag_children ag"
  "ag_draining (snd (agent_sendLoop_step err ag)) = ag_draining ag"
  by (simp_all add: agent_sendLoop_step_def split: list.split option.split)

lemma ag_inv_NewAgent: "ag_inv NewAgent"
  by (simp add: ag_inv_def NewAgent_def)

lemma ag_inv_step:
  assumes "agent_step ag ag'" "ag_inv ag"
  shows "ag_inv ag'"
  using assms
proof (cases rule: agent_step.cases)
  case (event env ev)
  then show ?thesis
    using assms(2)
    by (cases ev) (simp_all add: handleEvent_def ag_inv_handleSpawn ag_inv_handleWriteStdin
        ag_inv_cong [OF handleKill_frame(1,2)] ag_inv_cong [OF drain_frame(1,2)])
qed (use assms(2) in \<open>auto simp: ag_inv_cong [OF handle_first_frame(1,2)] ag_inv_child_exited
    ag_inv_cong [OF fold_ag_send_frame(1,2)] ag_inv_cong [OF sendHeartbeat_frame(1,2)]
    ag_inv_cong [OF drain_frame(3,4)] ag_inv_cong [OF sendLoop_step_frame(1,2)]\<close>)


subsection \<open>Properties\<close>

inductive agent_reachable :: "agent \<Rightarrow> bool" where
  start: "agent_reachable NewAgent"
| step: "agent_reachable ag \<Longrightarrow> agent_step ag ag' \<Longrightarrow> agent_reachable ag'"

lemma ag_inv_reachable: "agent_reachable ag \<Longrightarrow> ag_inv ag"
  by (induction rule: agent_reachable.induct) (simp_all add: ag_inv_NewAgent ag_inv_step)

lemma child_exited_outbox:
  assumes "i < length (ag_children ag)" "ch_ProcessID (ag_children ag ! i) = p"
  shows "\<exists>cpu mem. ag_outbox (child_exited env i oc ag) = ag_outbox ag @
    [Cmd_ProcessExit \<lparr>px_process_id = p, px_exit_code = fst (exit_codes oc),
       px_exit_signal = snd (exit_codes oc), px_cpu_usage_usec = cpu, px_mem_peak_bytes = mem\<rparr>]"
  using assms
  by (cases "exit_codes oc"; cases "ch_cg (ag_children ag ! i)")
    (simp_all add: child_exited_def sendProcessExit_def Let_def)

text \<open>C23: in every state the agent can reach, each process in its table is waited for, and when the
  child ends, however it ends, its exit code or signal is reported and the process leaves the table.\<close>

theorem started_processes_are_reported:
  assumes "agent_reachable ag" "ag_procs ag p = Some lp"
  shows "p \<noteq> '''' \<and> (\<exists>i<length (ag_children ag).
    ch_ProcessID (ag_children ag ! i) = p \<and> ch_pid (ag_children ag ! i) = loc_LordPID lp \<and>
    (\<forall>env oc. ag_procs (child_exited env i oc ag) = (ag_procs ag)(p := None) \<and>
       (\<exists>cpu mem. ag_outbox (child_exited env i oc ag) = ag_outbox ag @
          [Cmd_ProcessExit \<lparr>px_process_id = p, px_exit_code = fst (exit_codes oc),
             px_exit_signal = snd (exit_codes oc), px_cpu_usage_usec = cpu, px_mem_peak_bytes = mem\<rparr>])))"
proof -
  have inv: "p \<noteq> ''''" "\<exists>c\<in>set (ag_children ag). ch_ProcessID c = p \<and> ch_pid c = loc_LordPID lp"
    using ag_inv_reachable [OF assms(1)] assms(2) by (auto simp: ag_inv_def)
  then obtain i where i: "i < length (ag_children ag)" "ch_ProcessID (ag_children ag ! i) = p"
    "ch_pid (ag_children ag ! i) = loc_LordPID lp"
    by (metis in_set_conv_nth)
  then show ?thesis
    using inv(1) child_exited_tables(1) [OF i(1)] child_exited_outbox [OF i(1,2)] by (intro conjI exI [of _ i]) simp_all
qed

text \<open>Nothing starts once the agent drains.\<close>

lemma draining_step:
  assumes "agent_step ag ag'" "ag_draining ag"
  shows "ag_draining ag' \<and> dom (ag_procs ag') \<subseteq> dom (ag_procs ag) \<and>
    set (ag_children ag') \<subseteq> set (ag_children ag)"
  using assms
proof (cases rule: agent_step.cases)
  case (event env ev)
  have w: "dom (ag_procs (handleWriteStdin env req ag)) \<subseteq> dom (ag_procs ag) \<and>
      ag_children (handleWriteStdin env req ag) = ag_children ag \<and>
      ag_draining (handleWriteStdin env req ag) = ag_draining ag" for req
    by (auto simp: handleWriteStdin_def Let_def case_prod_beta split: option.split if_splits)
  show ?thesis
    using w assms(2) event
    by (cases ev) (simp_all add: handleEvent_def handleKill_frame drain_start_def handleSpawn_def Let_def)
next
  case (child env i oc)
  then show ?thesis
    using assms(2) child_exited_tables [of i ag env oc]
    by (cases "i < length (ag_children ag)")
      (auto simp: child_exited_def dest: in_set_takeD in_set_dropD)
qed (simp_all add: handle_first_frame fold_ag_send_frame sendHeartbeat_frame drain_frame sendLoop_step_frame)

text \<open>C24: a lord that was told to drain never runs a new process: over all later steps it stays
  draining, its table and its children only shrink, and it answers every spawn with a failed exit.\<close>

theorem draining_is_final:
  assumes "agent_step\<^sup>*\<^sup>* (snd (handleEvent env (Ev_SetDrain grace why) ag)) ag'"
  shows "ag_draining ag' \<and> dom (ag_procs ag') \<subseteq> dom (ag_procs ag) \<and>
    set (ag_children ag') \<subseteq> set (ag_children ag) \<and>
    (\<forall>env req. sr_process_id req \<noteq> '''' \<longrightarrow> ag_outbox (snd (handleEvent env (Ev_Spawn req) ag')) =
       ag_outbox ag' @ [Cmd_ProcessExit \<lparr>px_process_id = sr_process_id req, px_exit_code = - 1,
         px_exit_signal = 0, px_cpu_usage_usec = 0, px_mem_peak_bytes = 0\<rparr>])"
proof -
  have "ag_draining ag' \<and> dom (ag_procs ag') \<subseteq> dom (ag_procs ag) \<and>
      set (ag_children ag') \<subseteq> set (ag_children ag)"
    using assms
  proof (induction rule: rtranclp_induct)
    case base
    then show ?case by (simp add: handleEvent_def drain_start_def drain_frame)
  next
    case (step ag1 ag2)
    then show ?case using draining_step by blast
  qed
  then show ?thesis by (simp add: handleEvent_def handleSpawn_def sendProcessExit_def Let_def)
qed

text \<open>The agent waits half a second before the second connection and twice as long before each
  further one, but never longer than half a minute.\<close>

theorem backoff_after_exact:
  "backoff_after n = (if n < 6 then 500 * 2 ^ n * Millisecond else 30 * Second)"
proof (induction n)
  case (Suc n)
  have "n < 6 \<longrightarrow> n \<in> {0, 1, 2, 3, 4, 5}" by auto
  then show ?case
    using Suc by (auto simp: next_backoff_def Let_def maxBackoff_def Second_def Millisecond_def)
qed (simp add: initialBackoff_def)


subsection \<open>The properties on concrete inputs\<close>

text \<open>A kernel that refuses nothing and knows no file; a system on which every program starts as 7.\<close>

definition demo_fs :: fs_env where
  "demo_fs = \<lparr>fe_mkdir = (\<lambda>h p. None), fe_write = (\<lambda>h p d. None), fe_remove = (\<lambda>h p. None),
     fe_read = (\<lambda>h p. None), fe_stat = (\<lambda>h p. None), fe_dir = (\<lambda>h p. None)\<rparr>"

definition demo_ax :: ag_env where
  "demo_ax = \<lparr>ax_fs = demo_fs, ax_now = 5, ax_start = Started_as 7, ax_environ = [''HOME=/''],
     ax_envOrder = [], ax_write = (\<lambda>d. (length d, False)), ax_kill = (\<lambda>t s. None),
     ax_procOrder = [], ax_numCPU = 2\<rparr>"

definition demo_req :: spawn_request where
  "demo_req = zero_spawn_request\<lparr>sr_process_id := ''p1'', sr_exec_path := ''/bin/cat'',
     sr_resources := Some \<lparr>rs_cpu_shares = 300, rs_cpu_quota_pct = 0, rs_mem_limit_bytes = 0,
       rs_io_weight = 0, rs_pids_limit = 8\<rparr>\<rparr>"

definition demo_agent :: agent where
  "demo_agent = snd (handleEvent demo_ax (Ev_Spawn demo_req) NewAgent)"

lemma demo_agent_procs: "ag_procs demo_agent = [''p1'' \<mapsto> new_local_process demo_ax demo_req 7]"
  by (simp add: demo_agent_def handleEvent_def handleSpawn_def demo_ax_def demo_req_def Let_def
      attach_cgroup_def NewAgent_def)

lemma demo_agent_reachable: "agent_reachable demo_agent"
  unfolding demo_agent_def by (rule agent_reachable.step [OF agent_reachable.start agent_step.event])

theorem started_processes_are_reported_witness:
  "\<exists>i. ch_ProcessID (ag_children demo_agent ! i) = ''p1'' \<and>
     ag_procs (child_exited demo_ax i (Wait_signal 9) demo_agent) = Map.empty"
proof -
  have "ag_procs demo_agent ''p1'' = Some (new_local_process demo_ax demo_req 7)"
    by (simp add: demo_agent_procs)
  from started_processes_are_reported [OF demo_agent_reachable this] obtain i where
    "ch_ProcessID (ag_children demo_agent ! i) = ''p1''"
    "\<forall>env oc. ag_procs (child_exited env i oc demo_agent) = (ag_procs demo_agent)(''p1'' := None)"
    by blast
  then show ?thesis by (intro exI [of _ i]) (simp add: demo_agent_procs)
qed

theorem draining_is_final_witness:
  "ag_draining (snd (handleEvent demo_ax (Ev_SetDrain 30 ''stop'') demo_agent)) \<and>
   ag_outbox (snd (handleEvent demo_ax (Ev_Spawn demo_req)
     (snd (handleEvent demo_ax (Ev_SetDrain 30 ''stop'') demo_agent)))) =
   ag_outbox (snd (handleEvent demo_ax (Ev_SetDrain 30 ''stop'') demo_agent)) @
     [Cmd_ProcessExit \<lparr>px_process_id = ''p1'', px_exit_code = - 1, px_exit_signal = 0,
        px_cpu_usage_usec = 0, px_mem_peak_bytes = 0\<rparr>]"
proof -
  let ?ag = "snd (handleEvent demo_ax (Ev_SetDrain 30 ''stop'') demo_agent)"
  have p: "sr_process_id demo_req = ''p1''" "sr_process_id demo_req \<noteq> ''''"
    by (simp_all add: demo_req_def)
  note d = draining_is_final [of demo_ax 30 "''stop''" demo_agent ?ag, OF rtranclp.rtrancl_refl]
  show ?thesis
    using d [THEN conjunct1] d [THEN conjunct2, THEN conjunct2, THEN conjunct2, rule_format, OF p(2)]
    unfolding p(1) by (rule conjI)
qed

end
