(* ===== verification/End_To_End.thy ===== *)
theory End_To_End
  imports System Lord_Agent
begin

section \<open>Paths through both machines\<close>

text \<open>
  Properties of the scheduler and the agent together: what a tenant asks for reaches the process on
  the donor machine, and what the process does reaches the tenant. Each follows one message from
  the operation that queues it to the operation that takes it. The limits of a process are followed one step
  further, into what the kernel takes of them.
\<close>

subsection \<open>Output\<close>

lemma pipe_chunks_concat:
  "concat (pipe_chunks (map (\<lambda>d. (d, False)) ds @ [(d, True)])) = concat ds @ d"
  by (induction ds) auto

lemma rb_writes_fold: "rb_writes r ps = fold (\<lambda>p b. rb_Write b p) ps r"
  by (induction r ps rule: rb_writes.induct) simp_all

text \<open>C9: whatever the reads of a pipe return, up to the end of the file, reaches the buffer of the
  process, in order and in numbered messages, and changes nothing else of the tables; and while the
  buffer has room, the tenant reads exactly the bytes that the process has written.\<close>

theorem output_reaches_tenant:
  assumes "sv_inv sv" "PT_Get (sv_processes sv) p = Some a"
    and "reads = map (\<lambda>d. (d, False)) ds @ [(d, True)]"
  shows "let cmds = pumpStream p str reads; sv' = fold (recv_cmd env l) cmds sv;
      buf = pe_ioBuf (entry_at (sv_processes sv) a) in
    sv_dir sv' = sv_dir sv \<and>
    pe_ioBuf (entry_at (sv_processes sv') a) = rb_writes buf (pipe_chunks reads) \<and>
    (\<forall>i<length cmds. cmds ! i = io_cmd p str (pipe_chunks reads ! i)
       (of_nat (length (concat (take i (pipe_chunks reads)))))) \<and>
    (\<not> rb_full buf \<and> rb_off buf + length (concat ds @ d) < rb_cap buf \<longrightarrow>
       StreamProcessIO_dump sv' p =
         (let data = rb_Bytes buf @ concat ds @ d in
          Inr (if 0 < length data then [stdout_chunk data] else [])))"
proof -
  let ?buf = "pe_ioBuf (entry_at (sv_processes sv) a)" and ?cs = "pipe_chunks reads"
  have a: "pt_inv (sv_processes sv)" "alloc sv a"
    using assms(1,2) by (auto simp: sv_inv_def tbl_inv_def alloc_def PT_Get_def dest: pt_inv_byID)
  have rb: "rb_inv ?buf"
    using pt_inv_pe_ok [OF a(1)] a(2) by (auto simp: alloc_def pe_ok_def)
  have cmds: "pumpStream p str reads = io_cmds p str 0 ?cs"
    by (simp add: pumpStream_def pump_loop_chunks)
  let ?sv = "fold (recv_cmd env l) (io_cmds p str 0 ?cs) sv"
  have f: "pe_ioBuf (entry_at (sv_processes ?sv) a) = rb_writes ?buf ?cs" "sv_dir ?sv = sv_dir sv"
    using feed_io [OF assms(2) a(2)] by blast+
  have get: "PT_Get (sv_processes ?sv) p = Some a"
    using feed_io_Get [OF assms(2) a(2)] by blast
  have dump: "StreamProcessIO_dump ?sv p =
      (let data = rb_Bytes ?buf @ concat ds @ d in Inr (if 0 < length data then [stdout_chunk data] else []))"
    if "\<not> rb_full ?buf" "rb_off ?buf + length (concat ds @ d) < rb_cap ?buf"
  proof -
    have "concat ?cs = concat ds @ d" by (simp only: assms(3) pipe_chunks_concat)
    then have "rb_Bytes (rb_writes ?buf ?cs) = rb_Bytes ?buf @ concat ds @ d"
      using rb_writes_unfilled [OF rb that(1), of ?cs] that(2) by (simp only: rb_writes_fold)
    then show ?thesis by (simp add: StreamProcessIO_dump_def get f(1))
  qed
  show ?thesis
    unfolding Let_def cmds using f dump by (simp add: io_cmds_length io_cmds_nth Let_def)
qed

subsection \<open>Signals\<close>

text \<open>C11: a kill that is acknowledged has queued one event on the lord of the process and changed no
  table; the agent that takes it sends the signal that was asked for (15 unless given, 9 when
  forced) to the process group, and a refused kill has changed nothing.\<close>

theorem kill_reaches_process:
  assumes "Kill env req sv = (r, sv')"
  shows "sv_processes sv' = sv_processes sv \<and> sv_lords sv' = sv_lords sv \<and>
    (case r of
       Inl _ \<Rightarrow> sv' = sv
     | Inr resp \<Rightarrow> \<exists>i s evs ev. dir (sv_processes sv) (kr_process_id req) = Some i \<and>
         kp_current_state resp = pi_state i \<and>
         sv_sessions sv' (pi_lord_id i) = Some s \<and> ls_outbox s = evs @ [ev] \<and>
         (\<forall>ax ag lp. ag_procs ag (kr_process_id req) = Some lp \<and>
            ax_kill ax (- loc_LordPID lp) (sint (kill_signal req)) = None \<longrightarrow>
            handleEvent ax ev ag =
              (None, ag\<lparr>ag_signals := ag_signals ag @ [(- loc_LordPID lp, sint (kill_signal req))]\<rparr>)))"
proof (cases r)
  case (Inr resp)
  let ?ev = "Ev_Kill \<lparr>kr_process_id = kr_process_id req, kr_signal_number = kill_signal req,
    kr_force = kr_force req\<rparr>"
  obtain i s evs where k: "dir (sv_processes sv) (kr_process_id req) = Some i"
    "sv_sessions sv' (pi_lord_id i) = Some s" "ls_outbox s = evs @ [?ev]"
    "kp_current_state resp = pi_state i"
    using Kill_effect [OF assms] Inr by auto
  have sig: "lord_signal \<lparr>kr_process_id = kr_process_id req, kr_signal_number = kill_signal req,
      kr_force = kr_force req\<rparr> = kill_signal req"
    by (simp add: lord_signal_def kill_signal_def Let_def)
  have "handleEvent ax ?ev ag =
      (None, ag\<lparr>ag_signals := ag_signals ag @ [(- loc_LordPID lp, sint (kill_signal req))]\<rparr>)"
    if "ag_procs ag (kr_process_id req) = Some lp"
      "ax_kill ax (- loc_LordPID lp) (sint (kill_signal req)) = None" for ax ag lp
    using that by (simp add: handleEvent_def handleKill_def sig sys_kill_def)
  then show ?thesis
    using Kill_effect [OF assms] k Inr by auto
qed (use Kill_effect [OF assms] in simp)


subsection \<open>Input\<close>

lemma WriteStdin_send_queued:
  assumes "WriteStdin_send env req sv = (Waiting ch, sv')"
  shows "\<exists>l s evs ev. sv_sessions sv' l = Some s \<and> ls_outbox s = evs @ [ev] \<and>
    ev = Ev_WriteStdin \<lparr>ws_lord_id = l, ws_process_id = ws_process_id req,
      ws_data = ws_data req, ws_eof = ws_eof req\<rparr>"
  using assms
  by (fastforce simp: WriteStdin_send_def Let_def registerWriteStdinWaiter_def put_waiter_def
      put_session_def dest: outbox_send5_props split: option.splits if_splits sum.splits)

text \<open>The agent: what the pipe takes is added to the input of the process, and one answer is sent.\<close>

lemma handleWriteStdin_taken:
  assumes "ag_procs ag (ws_process_id req) = Some lp" "\<not> loc_stdinClosed lp" "loc_pipeOpen lp"
    and "ax_write ax (ws_data req) = (length (ws_data req), False)"
  shows "handleWriteStdin ax req ag =
    ag_send (stdin_ack ag (ws_process_id req) (of_nat (length (ws_data req))) (ws_eof req))
      (put_proc (ws_process_id req) (lp\<lparr>loc_stdin := loc_stdin lp @ ws_data req,
         loc_pipeOpen := \<not> ws_eof req, loc_stdinClosed := ws_eof req\<rparr>) ag)"
  using assms
  by (cases "ws_data req = []"; cases "ws_eof req"; cases lp)
    (simp_all add: handleWriteStdin_def pipe_write_def Let_def)

text \<open>C12: input that a tenant writes reaches the process: the write that waits has queued one event;
  the agent that takes it appends the bytes to the input of the process, closes the input exactly
  when the end of the file was asked for, and answers; and the answer makes the call return with the
  number of bytes and that flag.\<close>

theorem stdin_reaches_process:
  assumes "sv_acks sv (sv_nextChan sv) = None"
    and "WriteStdin_send env req sv = (Waiting ch, sv1)"
    and "ag_procs ag (ws_process_id req) = Some lp" "\<not> loc_stdinClosed lp" "loc_pipeOpen lp"
    and "ax_write ax (ws_data req) = (length (ws_data req), False)"
  shows "\<exists>l s evs ev ack ag' sv2. sv_sessions sv1 l = Some s \<and> ls_outbox s = evs @ [ev] \<and>
    handleEvent ax ev ag = (None, ag') \<and>
    ag_outbox ag' = ag_outbox ag @ [Cmd_WriteStdinAck ack] \<and>
    ag_procs ag' = (ag_procs ag)(ws_process_id req \<mapsto>
      lp\<lparr>loc_stdin := loc_stdin lp @ ws_data req, loc_pipeOpen := \<not> ws_eof req,
         loc_stdinClosed := ws_eof req\<rparr>) \<and>
    WriteStdin_wait Got_ack (ws_process_id req) ch (recv_cmd env' l (Cmd_WriteStdinAck ack) sv1) =
      Some (Inr \<lparr>wp_bytes_written = of_nat (length (ws_data req)), wp_closed = ws_eof req\<rparr>, sv2)"
proof -
  obtain l s evs where q: "sv_sessions sv1 l = Some s"
    "ls_outbox s = evs @ [Ev_WriteStdin \<lparr>ws_lord_id = l, ws_process_id = ws_process_id req,
      ws_data = ws_data req, ws_eof = ws_eof req\<rparr>]"
    using WriteStdin_send_queued [OF assms(2)] by blast
  let ?r = "\<lparr>ws_lord_id = l, ws_process_id = ws_process_id req, ws_data = ws_data req,
    ws_eof = ws_eof req\<rparr>"
  let ?ack = "\<lparr>wa_lord_id = ag_lordID ag, wa_process_id = ws_process_id req,
    wa_bytes_written = of_nat (length (ws_data req)), wa_closed = ws_eof req\<rparr>"
  have h: "handleEvent ax (Ev_WriteStdin ?r) ag = (None, handleWriteStdin ax ?r ag)"
    by (simp add: handleEvent_def)
  have t: "handleWriteStdin ax ?r ag =
    ag_send (Cmd_WriteStdinAck ?ack) (put_proc (ws_process_id req)
      (lp\<lparr>loc_stdin := loc_stdin lp @ ws_data req, loc_pipeOpen := \<not> ws_eof req,
         loc_stdinClosed := ws_eof req\<rparr>) ag)"
    using handleWriteStdin_taken [of ag ?r lp ax] assms(3-6) by (simp add: stdin_ack_def)
  obtain sv2 where "WriteStdin_wait Got_ack (ws_process_id req) ch (deliverWriteStdinAck ?ack sv1) =
    Some (Inr \<lparr>wp_bytes_written = of_nat (length (ws_data req)), wp_closed = ws_eof req\<rparr>, sv2)"
    using WriteStdin_roundtrip [OF assms(1,2), of ?ack] by auto
  then have "WriteStdin_wait Got_ack (ws_process_id req) ch (recv_cmd env' l (Cmd_WriteStdinAck ?ack) sv1) =
    Some (Inr \<lparr>wp_bytes_written = of_nat (length (ws_data req)), wp_closed = ws_eof req\<rparr>, sv2)"
    by (simp add: recv_cmd_def)
  then show ?thesis
    using q h t by (intro exI [of _ l] exI [of _ s] exI [of _ evs] exI [of _ "Ev_WriteStdin ?r"]
        exI [of _ ?ack] exI [of _ "handleWriteStdin ax ?r ag"] exI [of _ sv2]) simp
qed

subsection \<open>Limits\<close>

text \<open>The limits of a request, as the files of the kernel that hold them.\<close>

definition requested_limits :: "string \<Rightarrow> resource_spec option \<Rightarrow> fs_op list" where
  "requested_limits slc res =
     (case res of None \<Rightarrow> [] | Some r \<Rightarrow>
        concat (map (\<lambda>(file, v). if 0 < v then [Write_file (slc @ file) (show_int v @ newline)] else [])
          [(''/cpu.weight'', sint (rs_cpu_shares r)), (''/memory.max'', sint (rs_mem_limit_bytes r)),
           (''/io.weight'', sint (rs_io_weight r)), (''/pids.max'', sint (rs_pids_limit r))]))"

lemma max32_0: "0 \<le> sint w \<Longrightarrow> max32 w 0 = w"
  by (auto simp: max32_def)

lemma sint_nonneg_unat:
  assumes "0 \<le> sint (w :: i32)"
  shows "sint w = int (unat w)"
proof -
  have msb: "\<not> bit (uint w) 31"
    using assms by (simp add: not_less [symmetric] bit_last_iff [symmetric] bit_uint_iff)
  have "take_bit 31 (uint w) = uint w"
  proof (rule bit_eqI)
    show "bit (take_bit 31 (uint w)) n = bit (uint w) n" for n
      using msb by (cases "n = 31") (auto simp: bit_take_bit_iff bit_uint_iff)
  qed
  then show ?thesis using msb by (simp add: sint_uint signed_take_bit_eq_if_positive)
qed

lemma nonneg_i32:
  assumes "0 \<le> sint (w :: i32)"
  shows "0 < w \<longleftrightarrow> 0 < sint w" "show_nat (unat w) = show_int (sint w)"
    "sint w \<le> 10000 \<Longrightarrow> show_nat (min 10000 (unat w)) = show_int (sint w)"
proof -
  have s: "sint w = int (unat w)" by (rule sint_nonneg_unat [OF assms])
  show "0 < w \<longleftrightarrow> 0 < sint w" unfolding s by (simp only: word_less_nat_alt of_nat_0_less_iff unat_0)
  show show_eq: "show_nat (unat w) = show_int (sint w)" unfolding s by (simp add: show_int_def)
  show "show_nat (min 10000 (unat w)) = show_int (sint w)" if "sint w \<le> 10000"
  proof -
    have "unat w \<le> 10000" using that unfolding s by linarith
    then show ?thesis by (simp only: show_eq min.absorb2)
  qed
qed

lemma limits_of_request:
  assumes "resources_valid res"
  shows "limit_ops slc (case protoResourcesToLord res of None \<Rightarrow> no_resources | Some r \<Rightarrow> r) =
    requested_limits slc res"
proof (cases res)
  case None
  then show ?thesis
    by (simp add: protoResourcesToLord_def requested_limits_def limit_ops_def no_resources_def)
next
  case (Some r)
  then have b: "0 \<le> sint (rs_cpu_shares r)" "sint (rs_cpu_shares r) \<le> 10000"
    "0 \<le> sint (rs_io_weight r)" "sint (rs_io_weight r) \<le> 10000" "0 \<le> sint (rs_pids_limit r)"
    using assms by (simp_all add: resources_valid_def)
  note n = nonneg_i32 [OF b(1)] nonneg_i32 [OF b(3)] nonneg_i32 [OF b(5)]
  have m: "0 < sint (rs_mem_limit_bytes r) \<longrightarrow> show_nat (nat (sint (rs_mem_limit_bytes r))) =
      show_int (sint (rs_mem_limit_bytes r))"
    by (simp add: show_int_def)
  show ?thesis
    using m unfolding Some protoResourcesToLord_def requested_limits_def limit_ops_def
    by (simp add: max32_0 n b)
qed

lemma handleEvent_spawned:
  assumes "sr_process_id req \<noteq> ''''" "\<not> ag_draining ag" "ax_start ax = Started_as pid"
  shows "ag_fs (snd (handleEvent ax (Ev_Spawn req) ag)) =
      ag_fs (attach_cgroup ax (sr_process_id req) (sr_resources req) pid ag)"
    "ag_outbox (snd (handleEvent ax (Ev_Spawn req) ag)) =
      ag_outbox ag @ [started_cmd (sr_process_id req) pid]"
    "ag_procs (snd (handleEvent ax (Ev_Spawn req) ag)) =
      (ag_procs ag)(sr_process_id req \<mapsto> new_local_process ax req pid)"
  using assms by (simp_all add: handleEvent_def handleSpawn_def Let_def put_proc_def)

text \<open>C10: what the kernel is told when a valid request is started, whatever it answers: the slice of the
  process is made, and in it only, the controllers are enabled; of the limits that were asked for,
  with exactly the numbers of the request (none is cut), those are written whose file exists and that the
  kernel takes; then the child is moved into the slice. The start is reported and the process entered
  in every case; when the slice cannot be made, it runs without limits.\<close>

theorem spawn_applies_limits:
  assumes "validateResources (sr_resources req) = None"
    and "plain_name (sr_process_id req)" "\<not> ag_draining ag" "ax_start ax = Started_as pid"
    and "ag_cg ag = Some m" "clean_dir (cm_basePath m)"
  shows "let slc = cm_basePath m @ ''/'' @ sr_process_id req; fs = ax_fs ax; h = ag_fs ag;
      ag' = snd (handleEvent ax (Ev_Spawn req) ag) in
    (case fe_mkdir fs h slc of
       Some _ \<Rightarrow> ag_fs ag' = h
     | None \<Rightarrow> \<exists>ctrl. ag_fs ag' =
         (let h1 = h @ [Mkdir slc] @ ctrl;
              h2 = h1 @ accepted fs h1 (requested_limits slc (sr_resources req)) in
          snd (fs_write fs (slc @ ''/cgroup.procs'') (show_int pid @ newline) h2)) \<and>
         set ctrl \<subseteq> (\<lambda>c. Write_file (slc @ ''/cgroup.subtree_control'') (''+'' @ c @ newline)) `
           {''cpu'', ''memory'', ''io'', ''pids''}) \<and>
    ag_outbox ag' = ag_outbox ag @ [started_cmd (sr_process_id req) pid] \<and>
    ag_procs ag' = (ag_procs ag)(sr_process_id req \<mapsto> new_local_process ax req pid)"
proof -
  let ?p = "sr_process_id req" and ?res = "protoResourcesToLord (sr_resources req)"
  let ?slc = "cm_basePath m @ ''/'' @ ?p" and ?h = "ag_fs ag"
  have ne: "?p \<noteq> ''''" using assms(2) by (simp add: plain_name_def)
  note sp = handleEvent_spawned [OF ne assms(3,4)]
  note lims = limits_of_request [OF assms(1) [unfolded validateResources_None], of ?slc]
  have pn: "plain_name ''cgroup.procs''" by (simp add: plain_name_def)
  have cd: "clean_dir ?slc" using clean_dir_Join [OF assms(6,2)] by simp
  have procs: "path_Join [path_Join [cm_basePath m, ?p], ''cgroup.procs''] = ?slc @ ''/cgroup.procs''"
    unfolding limit_name [OF assms(6,2)] limit_name [OF cd pn] by simp
  have att: "snd (Attach (ax_fs ax) m ?p pid h) =
      snd (fs_write (ax_fs ax) (?slc @ ''/cgroup.procs'') (show_int pid @ newline) h)" for h
    by (simp add: Attach_def procs fs_write_def split: option.split)
  note e = CreateProcessSlice_effect [OF assms(6,2), where res = ?res and env = "ax_fs ax" and h = ?h,
      unfolded Let_def lims]
  have "(case fe_mkdir (ax_fs ax) ?h ?slc of
       Some _ \<Rightarrow> ag_fs (attach_cgroup ax ?p (sr_resources req) pid ag) = ?h
     | None \<Rightarrow> \<exists>ctrl. ag_fs (attach_cgroup ax ?p (sr_resources req) pid ag) =
          snd (fs_write (ax_fs ax) (?slc @ ''/cgroup.procs'') (show_int pid @ newline)
            ((?h @ [Mkdir ?slc] @ ctrl) @ accepted (ax_fs ax) (?h @ [Mkdir ?slc] @ ctrl)
              (requested_limits ?slc (sr_resources req)))) \<and>
         set ctrl \<subseteq> (\<lambda>c. Write_file (?slc @ ''/cgroup.subtree_control'') (''+'' @ c @ newline)) `
           {''cpu'', ''memory'', ''io'', ''pids''})"
  proof (cases "fe_mkdir (ax_fs ax) ?h ?slc")
    case (Some err)
    then show ?thesis using e by (simp add: attach_cgroup_def assms(5))
  next
    case None
    then obtain ctrl where c: "CreateProcessSlice (ax_fs ax) m ?p ?res ?h = (Inr ?slc,
        ?h @ [Mkdir ?slc] @ ctrl @ accepted (ax_fs ax) (?h @ [Mkdir ?slc] @ ctrl)
          (requested_limits ?slc (sr_resources req)))"
      "set ctrl \<subseteq> (\<lambda>c. Write_file (?slc @ ''/cgroup.subtree_control'') (''+'' @ c @ newline)) `
         {''cpu'', ''memory'', ''io'', ''pids''}"
      using e by (simp only: option.case) blast
    have "ag_fs (attach_cgroup ax ?p (sr_resources req) pid ag) =
        snd (fs_write (ax_fs ax) (?slc @ ''/cgroup.procs'') (show_int pid @ newline)
          ((?h @ [Mkdir ?slc] @ ctrl) @ accepted (ax_fs ax) (?h @ [Mkdir ?slc] @ ctrl)
            (requested_limits ?slc (sr_resources req))))"
      by (simp only: attach_cgroup_def assms(5) c(1) option.case prod.case sum.case att) simp
    then show ?thesis using None c(2) by (simp only: option.case) blast
  qed
  then show ?thesis unfolding Let_def sp by simp
qed

text \<open>C20: the limits are never in force: under the documented rule of the kernel that the files of a
  controller exist in a slice only when the slice above has enabled it, no limit is ever written, whatever
  is spawned and ends, because the manager enables the controllers above the slice of the lord and
  inside the slices of the processes, but not in the slice of the lord, which is between them.\<close>

theorem limits_never_in_force:
  assumes "NewCgroupManager fs lordID h0 = (Inr m, h1)" "plain_name lordID"
    and "\<forall>c\<in>set (root_candidates fs h0). clean_dir c"
    and "\<forall>f v. Write_file (cm_basePath m @ ''/'' @ f) v \<notin> set h0"
    and "delegation_law fs (cm_basePath m)" "(slice_step fs m)\<^sup>*\<^sup>* h1 (ag_fs ag)"
    and "ag_cg ag = Some m" "ax_fs ax = fs" "ax_start ax = Started_as pid" "\<not> ag_draining ag"
    and "plain_name (sr_process_id req)"
  shows "let ag' = snd (handleEvent ax (Ev_Spawn req) ag) in
    ag_procs ag' (sr_process_id req) = Some (new_local_process ax req pid) \<and>
    (\<forall>p f v. plain_name p \<and> f \<in> {''cpu.weight'', ''memory.max'', ''io.weight'', ''pids.max''} \<longrightarrow>
       Write_file (cm_basePath m @ ''/'' @ p @ ''/'' @ f) v \<notin> set (ag_fs ag'))"
proof -
  note base = NewCgroupManager_undelegated [OF assms(1-4)]
  have u: "undelegated (cm_basePath m) (ag_fs ag)"
    by (rule undelegated_steps [OF assms(6,5) base])
  have ne: "sr_process_id req \<noteq> ''''" using assms(11) by (simp add: plain_name_def)
  note sp = handleEvent_spawned [OF ne assms(10,9)]
  have "(slice_step fs m)\<^sup>*\<^sup>* (ag_fs ag) (ag_fs (attach_cgroup ax (sr_process_id req) (sr_resources req) pid ag))"
  proof (cases "CreateProcessSlice fs m (sr_process_id req) (protoResourcesToLord (sr_resources req)) (ag_fs ag)")
    case (Pair r h)
    have c: "slice_step fs m (ag_fs ag) h"
      using slice_step.create [OF assms(11), of fs m "ag_fs ag" "protoResourcesToLord (sr_resources req)"]
      by (simp add: Pair)
    have "slice_step fs m h (snd (Attach fs m (sr_process_id req) pid h))"
      by (rule slice_step.attach [OF assms(11)])
    then show ?thesis
      using c Pair assms(7,8) by (cases r) (auto simp: attach_cgroup_def)
  qed
  then have "undelegated (cm_basePath m) (ag_fs (snd (handleEvent ax (Ev_Spawn req) ag)))"
    unfolding sp by (rule undelegated_steps [OF _ assms(5) base(1) u])
  then show ?thesis unfolding Let_def by (simp add: sp(2,3) undelegated_def limit_files_def)
qed

subsection \<open>The paths on concrete inputs\<close>

text \<open>The agent of the machine L1 after it has started the process p1 without limits.\<close>

lemma demo_agent_p1:
  "ag_procs demo_agent ''p1'' = Some (new_local_process demo_ax demo_req 7)"
  "loc_LordPID (new_local_process demo_ax demo_req 7) = 7"
  "\<not> loc_stdinClosed (new_local_process demo_ax demo_req 7)"
  "loc_pipeOpen (new_local_process demo_ax demo_req 7)"
  by (simp_all add: demo_agent_procs) (simp_all add: new_local_process_def demo_req_def zero_spawn_request_def)

lemma demo_buffer: "pe_ioBuf (entry_at demo_table 0) = newRingBuffer ioBufSize"
  by (simp add: demo_table_def PE_UpdateState_def entry_at_def heap_modify
      PT_Create_simps PT_AttachWAL_def NewProcessTable_def new_entry_def pe_set_state_def notify_def)

theorem output_reaches_tenant_witness:
  "StreamProcessIO_dump (fold (recv_cmd demo_env ''L1'')
     (pumpStream ''p1'' STREAM_STDOUT [([104], False), ([105], False), ([10], True)]) demo_server) ''p1'' =
   Inr [stdout_chunk [104, 105, 10]]"
proof -
  have g: "PT_Get (sv_processes demo_server) ''p1'' = Some 0"
    by (simp add: demo_server_tables demo_table_Get)
  have r: "[([104], False), ([105], False), ([10], True)] =
      map (\<lambda>d. (d, False)) [[104], [105 :: byte]] @ [([10], True)]" by simp
  have b: "rb_Bytes (newRingBuffer ioBufSize) = []" "\<not> rb_full (newRingBuffer ioBufSize)"
    "rb_off (newRingBuffer ioBufSize) = 0" "rb_cap (newRingBuffer ioBufSize) = ioBufSize"
    by (simp_all add: newRingBuffer_def rb_Bytes_def)
  have "(3 :: nat) < ioBufSize" by (simp add: ioBufSize_def)
  then show ?thesis
    using output_reaches_tenant [OF demo_server_inv g r, where env = demo_env and l = "''L1''"
        and str = STREAM_STDOUT]
    by (simp add: Let_def demo_server_tables demo_buffer b)
qed

definition demo_kill :: kill_request where
  "demo_kill = \<lparr>kr_process_id = ''p1'', kr_signal_number = 0, kr_force = False\<rparr>"

theorem kill_reaches_process_witness:
  "\<exists>s ev. sv_sessions (snd (Kill demo_env demo_kill demo_server)) ''L1'' = Some s \<and>
     last (ls_outbox s) = ev \<and>
     ag_signals (snd (handleEvent demo_ax ev demo_agent)) = ag_signals demo_agent @ [(- 7, 15)]"
proof -
  obtain r sv' where k: "Kill demo_env demo_kill demo_server = (Inr r, sv')"
    using demo_server_session(1)
    by (auto simp: Kill_def demo_kill_def demo_server_tables demo_table_Get sv_info_def demo_info_0
        SendKill_def getSession_def outbox_send5_room outbox_cap_def newLordSession_def Let_def
        split: prod.split option.split)
  have d: "dir demo_table ''p1'' = Some (info_at demo_table 0)"
    using demo_table_Get(1) by (simp add: dir_def PT_Get_def)
  have sig: "sint (kill_signal demo_kill) = 15" by (simp add: kill_signal_def demo_kill_def)
  have ax: "ax_kill demo_ax t s = None" for t s by (simp add: demo_ax_def)
  from kill_reaches_process [OF k] obtain i s evs ev where
    e: "dir demo_table ''p1'' = Some i" "sv_sessions sv' (pi_lord_id i) = Some s" "ls_outbox s = evs @ [ev]"
      "handleEvent demo_ax ev demo_agent = (None, demo_agent\<lparr>ag_signals := ag_signals demo_agent @ [(- 7, 15)]\<rparr>)"
    using demo_agent_p1(1,2) ax sig by (auto simp: demo_server_tables demo_kill_def)
  have "pi_lord_id i = ''L1''" using e(1) d demo_info_0 by simp
  then show ?thesis using e k by (intro exI [of _ s] exI [of _ ev]) simp
qed

theorem stdin_reaches_process_witness:
  "\<exists>ch sv1 ev. WriteStdin_send demo_env demo_write demo_server = (Waiting ch, sv1) \<and>
     loc_stdin (the (ag_procs (snd (handleEvent demo_ax ev demo_agent)) ''p1'')) =
       loc_stdin (new_local_process demo_ax demo_req 7) @ [104, 105]"
proof -
  obtain ch sv1 where w: "WriteStdin_send demo_env demo_write demo_server = (Waiting ch, sv1)"
    using demo_WriteStdin [of demo_server] demo_server_session
    by (auto simp: demo_server_tables newLordSession_def)
  have p: "ag_procs demo_agent (ws_process_id demo_write) = Some (new_local_process demo_ax demo_req 7)"
    "ax_write demo_ax (ws_data demo_write) = (length (ws_data demo_write), False)"
    by (simp_all add: demo_write_def demo_agent_p1 demo_ax_def)
  from stdin_reaches_process [OF demo_server_session(2) w p(1) demo_agent_p1(3,4) p(2)] obtain ev ag' where
    "handleEvent demo_ax ev demo_agent = (None, ag')"
    "ag_procs ag' = (ag_procs demo_agent)(ws_process_id demo_write \<mapsto>
       (new_local_process demo_ax demo_req 7)\<lparr>loc_stdin :=
          loc_stdin (new_local_process demo_ax demo_req 7) @ ws_data demo_write,
        loc_pipeOpen := \<not> ws_eof demo_write, loc_stdinClosed := ws_eof demo_write\<rparr>)"
    by blast
  then have "loc_stdin (the (ag_procs (snd (handleEvent demo_ax ev demo_agent)) ''p1'')) =
      loc_stdin (new_local_process demo_ax demo_req 7) @ [104, 105]"
    by (simp add: demo_write_def)
  then show ?thesis using w by blast
qed

definition demo_cg :: cgroup_manager where
  "demo_cg = \<lparr>cm_lordID = ''L1'', cm_basePath = ''/sys/fs/cgroup/etronium/L1''\<rparr>"

text \<open>A kernel that offers the weight of the processor and no other limit.\<close>

definition demo_weights_fs :: fs_env where
  "demo_weights_fs = demo_fs\<lparr>fe_stat := (\<lambda>h p.
     if p = ''/sys/fs/cgroup/etronium/L1/p1/cpu.weight'' then None else Some ''no such file'')\<rparr>"

lemma demo_base: "clean_dir (cm_basePath demo_cg)" "cm_basePath demo_cg = ''/sys/fs/cgroup/etronium/L1''"
  by (simp_all add: clean_dir_def demo_cg_def HasPrefix_def path_Clean_def Split_def)

lemma demo_req_simps:
  "sr_process_id demo_req = ''p1''" "plain_name ''p1''"
  "validateResources (sr_resources demo_req) = None"
  by (simp_all add: validateResources_None resources_valid_def demo_req_def plain_name_def)

theorem spawn_applies_limits_witness:
  "\<exists>ctrl. ag_fs (snd (handleEvent (demo_ax\<lparr>ax_fs := demo_weights_fs\<rparr>) (Ev_Spawn demo_req)
       (NewAgent\<lparr>ag_cg := Some demo_cg\<rparr>))) =
     [Mkdir ''/sys/fs/cgroup/etronium/L1/p1''] @ ctrl @
     [Write_file ''/sys/fs/cgroup/etronium/L1/p1/cpu.weight'' (''300'' @ newline),
      Write_file ''/sys/fs/cgroup/etronium/L1/p1/cgroup.procs'' (''7'' @ newline)]"
proof -
  let ?ax = "demo_ax\<lparr>ax_fs := demo_weights_fs\<rparr>" and ?ag = "NewAgent\<lparr>ag_cg := Some demo_cg\<rparr>"
  have h: "\<not> ag_draining ?ag" "ax_start ?ax = Started_as 7" "ag_cg ?ag = Some demo_cg" "ag_fs ?ag = []"
    "fe_mkdir demo_weights_fs h p = None" "ax_fs ?ax = demo_weights_fs" for h p
    by (simp_all add: NewAgent_def demo_ax_def demo_weights_fs_def demo_fs_def)
  have n: "show_int 300 = ''300''" "show_int 8 = ''8''" "show_int 7 = ''7''"
    by code_simp+
  have lims: "accepted demo_weights_fs h
      (requested_limits ''/sys/fs/cgroup/etronium/L1/p1'' (sr_resources demo_req)) =
     [Write_file ''/sys/fs/cgroup/etronium/L1/p1/cpu.weight'' (''300'' @ newline)]" for h
    by (simp add: requested_limits_def demo_req_def n demo_weights_fs_def demo_fs_def)
  have req: "plain_name (sr_process_id demo_req)" by (simp add: demo_req_simps)
  have "snd (fs_write demo_weights_fs q d h) = h @ [Write_file q d]" for q d h
    by (simp add: fs_write_def demo_weights_fs_def demo_fs_def)
  then show ?thesis
    using spawn_applies_limits [OF demo_req_simps(3) req h(1-3) demo_base(1),
        unfolded Let_def h option.case demo_req_simps(1) demo_base(2)] lims
    by (auto simp: n)
qed

text \<open>A kernel that follows the rule: the files of the limits of \<open>L1\<close> exist once its slice has
  enabled a controller.\<close>

definition demo_kernel :: fs_env where
  "demo_kernel = demo_fs\<lparr>fe_stat := (\<lambda>h p.
     if p = ''/sys/fs/cgroup/cgroup.controllers'' \<or>
        list_ex (\<lambda>op. case op of
          Write_file q v \<Rightarrow> q = ''/sys/fs/cgroup/etronium/L1/cgroup.subtree_control'' | _ \<Rightarrow> False) h
     then None else Some ''no such file'')\<rparr>"

lemma demo_kernel_law: "delegation_law demo_kernel (cm_basePath demo_cg)"
proof -
  have "''/sys/fs/cgroup/etronium/L1'' @ ''/'' @ p @ ''/'' @ f \<noteq> ''/sys/fs/cgroup/cgroup.controllers'' " for p f
    by simp
  then show ?thesis
    unfolding delegation_law_def demo_base demo_kernel_def
    by (auto simp: list_ex_iff split: fs_op.splits if_splits)
qed

lemma demo_kernel_manager: "\<exists>h1. NewCgroupManager demo_kernel ''L1'' [] = (Inr demo_cg, h1)"
proof -
  have p: "path_Join [cgroupRoot, ''.etronium-probe-dir''] = ''/sys/fs/cgroup/.etronium-probe-dir''"
    "path_Join [cgroupRoot, etroniumSlice] = ''/sys/fs/cgroup/etronium''"
    "path_Join [''/sys/fs/cgroup/etronium'', ''L1''] = ''/sys/fs/cgroup/etronium/L1''"
    by (simp_all add: path_Join.simps path_Clean_def Split_def HasPrefix_def cgroupRoot_def etroniumSlice_def)
  have mk: "fs_mkdir demo_kernel q h = (None, h @ [Mkdir q])" for q h
    by (simp add: fs_mkdir_def demo_kernel_def demo_fs_def)
  have v2: "checkCgroupV2 demo_kernel [] = None"
    by (simp add: checkCgroupV2_def demo_kernel_def)
  have root: "findWritableRoot demo_kernel [] =
      (Inr cgroupRoot, snd (fs_remove demo_kernel (probe_dir cgroupRoot) [Mkdir (probe_dir cgroupRoot)]))"
    by (simp add: findWritableRoot_def root_candidates_def mk demo_kernel_def demo_fs_def
        fs_mkdir_def)
  show ?thesis
    using v2 unfolding NewCgroupManager_def root Let_def by (simp add: p mk demo_cg_def)
qed

theorem limits_never_in_force_witness:
  "\<exists>ag lp. ag_procs (snd (handleEvent (demo_ax\<lparr>ax_fs := demo_kernel\<rparr>) (Ev_Spawn demo_req) ag)) ''p1'' =
       Some lp \<and> rs_cpu_shares (the (sr_resources demo_req)) = 300 \<and>
     (\<forall>v. Write_file ''/sys/fs/cgroup/etronium/L1/p1/cpu.weight'' v \<notin>
       set (ag_fs (snd (handleEvent (demo_ax\<lparr>ax_fs := demo_kernel\<rparr>) (Ev_Spawn demo_req) ag))))"
proof -
  obtain h1 where m: "NewCgroupManager demo_kernel ''L1'' [] = (Inr demo_cg, h1)"
    using demo_kernel_manager by blast
  let ?ax = "demo_ax\<lparr>ax_fs := demo_kernel\<rparr>" and ?ag = "NewAgent\<lparr>ag_cg := Some demo_cg, ag_fs := h1\<rparr>"
  have h: "plain_name ''L1''" "\<forall>c\<in>set (root_candidates demo_kernel []). clean_dir c"
    "\<forall>f v. Write_file (cm_basePath demo_cg @ ''/'' @ f) v \<notin> set []"
    "(slice_step demo_kernel demo_cg)\<^sup>*\<^sup>* h1 (ag_fs ?ag)" "ag_cg ?ag = Some demo_cg" "ax_fs ?ax = demo_kernel"
    "ax_start ?ax = Started_as 7" "\<not> ag_draining ?ag" "plain_name (sr_process_id demo_req)"
    by (simp_all add: plain_name_def root_candidates_def demo_kernel_def demo_fs_def clean_dir_def cgroupRoot_def
        HasPrefix_def path_Clean_def Split_def NewAgent_def demo_ax_def demo_req_def)
  have f: "plain_name ''p1''" "''cpu.weight'' \<in> {''cpu.weight'', ''memory.max'', ''io.weight'', ''pids.max''}"
    by (simp_all add: plain_name_def)
  note l = limits_never_in_force [OF m h(1-3) demo_kernel_law h(4-9), unfolded Let_def]
  have "Write_file (cm_basePath demo_cg @ ''/'' @ ''p1'' @ ''/'' @ ''cpu.weight'') v \<notin>
      set (ag_fs (snd (handleEvent ?ax (Ev_Spawn demo_req) ?ag)))" for v
    using l f by blast
  moreover have "rs_cpu_shares (the (sr_resources demo_req)) = 300" by (simp add: demo_req_def)
  ultimately show ?thesis
    using l by (intro exI [of _ ?ag] exI [of _ "new_local_process ?ax demo_req 7"])
      (simp add: demo_req_simps demo_base)
qed

end
