(* ===== verification/Network.thy ===== *)
theory Network
  imports System Lord_Agent "HOL-Library.Multiset"
begin

section \<open>The scheduler and its lords\<close>

text \<open>
  The whole system: one scheduler, any number of donor machines, the streams between them. The
  scheduler makes the steps of \<open>System\<close>; what a session has sent stays on the wire of its lord until
  the machine reads it; a machine handles what it reads, in order, and otherwise makes the steps of
  its agent. The scheduler takes any message from a lord at any time, so the facts below do not
  rest on what lords report. Streams break, agents stop, and the scheduler crashes and starts again on
  its log at any moment. The properties are of agreement: what runs on a machine, and what is on its way to
  one, was ordered, with the environment that the tenant asked for; and of number: how often a process is sent out.
\<close>

subsection \<open>What a spawn request launches\<close>

text \<open>A request without its addressee and its initial input; nil and empty environments are the same.\<close>

definition launch ::
  "spawn_request \<Rightarrow> string \<times> string \<times> string list \<times> str_map \<times> string \<times> resource_spec option \<times> string \<times> i32"
where
  "launch req = (sr_tenant_id req, sr_exec_path req, sr_argv req, omit_empty (sr_env req),
     sr_working_dir req, sr_resources req, sr_state_dump_path_hint req, sr_max_restarts req)"

text \<open>The request agrees with the entry of the directory.\<close>

definition ordered :: "directory \<Rightarrow> spawn_request \<Rightarrow> bool" where
  "ordered d req \<longleftrightarrow> (\<exists>i. d (sr_process_id req) = Some i \<and> launch req = launch (respawn_request i))"

definition launch_env :: "process_info \<Rightarrow> str_map" where
  "launch_env i =
     (if pi_state_dump_path i = '''' then pi_env i
      else Some ((case pi_env i of None \<Rightarrow> Map.empty | Some m \<Rightarrow> m)
             (''ETRONIUM_STATE_DUMP'' \<mapsto> pi_state_dump_path i)))"

lemma respawn_request_simps [simp]:
  "sr_tenant_id (respawn_request i) = pi_tenant_id i" "sr_exec_path (respawn_request i) = pi_exec_path i"
  "sr_argv (respawn_request i) = pi_argv i" "sr_env (respawn_request i) = launch_env i"
  "sr_working_dir (respawn_request i) = pi_working_dir i" "sr_resources (respawn_request i) = pi_resources i"
  "sr_state_dump_path_hint (respawn_request i) = pi_state_dump_path i"
  "sr_max_restarts (respawn_request i) = pi_max_restarts i"
  "sr_process_id (respawn_request i) = pi_process_id i"
  by (cases "pi_env i"; simp add: respawn_request_def buildSpawnRequest_def zero_spawn_request_def
      launch_env_def copyMap_def Let_def)+

lemma launch_env_program: "program j = program i \<Longrightarrow> omit_empty (launch_env j) = omit_empty (launch_env i)"
  by (auto simp: program_def launch_env_def omit_empty_def split: option.splits if_splits)

lemma launch_program: "program j = program i \<Longrightarrow> launch (respawn_request j) = launch (respawn_request i)"
  using launch_env_program [of j i] by (simp add: launch_def) (simp add: program_def)

text \<open>The directory keeps its programs.\<close>

definition keeps_programs :: "directory \<Rightarrow> directory \<Rightarrow> bool" where
  "keeps_programs d d' \<longleftrightarrow> (\<forall>p i. d p = Some i \<longrightarrow> (\<exists>j. d' p = Some j \<and> program j = program i))"

lemma keeps_evolves: "sv_evolves sv sv' \<Longrightarrow> keeps_programs (sv_dir sv) (sv_dir sv')"
  by (auto simp: keeps_programs_def sv_evolves_def dest: evolves_program)

lemma program_durable: "durable j = durable i \<Longrightarrow> program j = program i"
  by (cases i; cases j) (auto simp: durable_def program_def)

lemma keeps_durable:
  assumes "\<forall>p. map_option durable (d' p) = map_option durable (d p)"
  shows "keeps_programs d d'"
  unfolding keeps_programs_def
proof (intro allI impI)
  fix p i assume "d p = Some i"
  then obtain j where "d' p = Some j" "durable j = durable i" using assms by (metis map_option_eq_Some option.simps(9))
  then show "\<exists>j. d' p = Some j \<and> program j = program i" using program_durable by blast
qed

lemma ordered_mono: "keeps_programs d d' \<Longrightarrow> ordered d req \<Longrightarrow> ordered d' req"
  unfolding keeps_programs_def ordered_def by (metis launch_program)

lemma ordered_spawn:
  assumes "d (pi_process_id i) = Some i" "pi_tenant_id i = sr_tenant_id req"
    "pi_exec_path i = sr_exec_path req" "pi_argv i = sr_argv req" "pi_env i = sr_env req"
    "pi_working_dir i = sr_working_dir req" "pi_resources i = sr_resources req"
  shows "ordered d (buildSpawnRequest i req)"
proof -
  have "launch (buildSpawnRequest i req) = launch (respawn_request i)"
    unfolding launch_def respawn_request_simps
    by (simp add: buildSpawnRequest_def Let_def assms(2-) [symmetric] copyMap_def)
      (auto simp: launch_env_def split: option.split)
  moreover have "sr_process_id (buildSpawnRequest i req) = pi_process_id i"
    by (simp add: buildSpawnRequest_def Let_def)
  ultimately show ?thesis using assms(1) by (auto simp: ordered_def)
qed

subsection \<open>What the sessions hold\<close>

text \<open>The spawn requests among the events of a queue, with their number.\<close>

fun spawn_msgs :: "lord_event list \<Rightarrow> spawn_request multiset" where
  "spawn_msgs [] = {#}"
| "spawn_msgs (ev # evs) = (case ev of Ev_Spawn req \<Rightarrow> {#req#} | _ \<Rightarrow> {#}) + spawn_msgs evs"

lemma spawn_msgs_append [simp]: "spawn_msgs (xs @ ys) = spawn_msgs xs + spawn_msgs ys"
  by (induction xs) (simp_all add: add.assoc)

lemma spawn_msgs_mem: "req \<in># spawn_msgs evs \<longleftrightarrow> Ev_Spawn req \<in> set evs"
  by (induction evs) (auto split: lord_event.splits)

lemma spawn_msgs_quiet: "\<forall>req. ev \<noteq> Ev_Spawn req \<Longrightarrow> spawn_msgs [ev] = {#}"
  by (cases ev) auto

text \<open>All requests that a session holds: queued, sent, or in a send that is late.\<close>

definition held :: "lord_session \<Rightarrow> spawn_request multiset" where
  "held s = spawn_msgs (ls_outbox s) + spawn_msgs (ls_sent s) + spawn_msgs (ls_late s)"

definition sess_held :: "server \<Rightarrow> string \<Rightarrow> spawn_request multiset" where
  "sess_held sv l = (case sv_sessions sv l of None \<Rightarrow> {#} | Some s \<Rightarrow> held s)"

definition spawns :: "server \<Rightarrow> spawn_request set" where
  "spawns sv = {req. \<exists>l. req \<in># sess_held sv l}"

lemma sess_held_Some [simp]: "sv_sessions sv l = Some s \<Longrightarrow> sess_held sv l = held s"
  by (simp add: sess_held_def)

text \<open>A step that adds no request to any session.\<close>

definition calm :: "server \<Rightarrow> server \<Rightarrow> bool" where
  "calm sv sv' \<longleftrightarrow> (\<forall>l. sess_held sv' l \<subseteq># sess_held sv l)"

lemma calm_spawns: "calm sv sv' \<Longrightarrow> spawns sv' \<subseteq> spawns sv"
  unfolding calm_def spawns_def using mset_subset_eqD by fastforce

lemma calm_same: "sv_sessions sv' = sv_sessions sv \<Longrightarrow> calm sv sv'"
  by (simp add: calm_def sess_held_def)

lemma calm_refl [simp, intro!]: "calm sv sv"
  by (simp add: calm_same)

lemma calm_trans: "calm a b \<Longrightarrow> calm b c \<Longrightarrow> calm a c"
  unfolding calm_def by (meson subset_mset.order_trans)

lemma calm_upd:
  "sv_sessions sv' = (sv_sessions sv)(l \<mapsto> s') \<Longrightarrow> held s' \<subseteq># sess_held sv l \<Longrightarrow> calm sv sv'"
  by (simp add: calm_def sess_held_def)

lemma calm_put: "held s' \<subseteq># sess_held sv l \<Longrightarrow> calm sv (put_session l s' sv)"
  by (rule calm_upd [of _ _ l s']) simp_all

lemma calm_del: "sv_sessions sv' = (sv_sessions sv)(l := None) \<Longrightarrow> calm sv sv'"
  by (simp add: calm_def sess_held_def)

lemma held_push:
  assumes "outbox_push ev s = Some s'"
  shows "held s' = held s + spawn_msgs [ev]"
proof -
  have "s' = s\<lparr>ls_outbox := ls_outbox s @ [ev]\<rparr>"
    using assms unfolding outbox_push_def by (metis option.distinct(1) option.inject)
  then show ?thesis by (simp add: held_def ac_simps)
qed

lemma held_sendLoop: "held (snd (sendLoop_step oc s)) \<subseteq># held s"
  by (cases oc; cases "ls_outbox s") (simp_all add: sendLoop_step_def outbox_pop_def held_def ac_simps)

lemma held_late: "held (late_send i taken s) \<subseteq># held s"
proof (cases "i < length (ls_late s)")
  case True
  have "spawn_msgs (ls_late s) = spawn_msgs (take i (ls_late s) @ ls_late s ! i # drop (Suc i) (ls_late s))"
    by (simp only: id_take_nth_drop [OF True, symmetric])
  then show ?thesis using True by (simp add: late_send_def held_def ac_simps)
qed (simp add: late_send_def)

lemma held_send5:
  assumes "outbox_send5 room ev s = Some s'"
  shows "held s' \<subseteq># held s + spawn_msgs [ev]"
proof -
  have "\<exists>s0. outbox_push ev s0 = Some s' \<and> (s0 = s \<or> (\<exists>oc. s0 = snd (sendLoop_step oc s)))"
  proof (cases "outbox_push ev s")
    case None
    then show ?thesis using assms by (cases room) (auto simp: outbox_send5_def)
  qed (use assms in \<open>auto simp: outbox_send5_def\<close>)
  then obtain s0 where s0: "outbox_push ev s0 = Some s'" "held s0 \<subseteq># held s"
    using held_sendLoop by blast
  show ?thesis using held_push [OF s0(1)] s0(2) by (simp add: subset_mset.add_right_mono)
qed

subsection \<open>How often a process was ordered\<close>

text \<open>The spawn events for a process that the given sessions hold.\<close>

definition told :: "string \<Rightarrow> string set \<Rightarrow> server \<Rightarrow> nat" where
  "told p L sv = (\<Sum>l\<in>L. size (filter_mset (\<lambda>req. sr_process_id req = p) (sess_held sv l)))"

lemma told_calm: "calm sv sv' \<Longrightarrow> told p L sv' \<le> told p L sv"
  unfolding told_def calm_def by (intro sum_mono size_mset_mono multiset_filter_mono) blast

text \<open>A request that is added to one session counts for its process only.\<close>

definition adds_spawn :: "string \<Rightarrow> spawn_request \<Rightarrow> server \<Rightarrow> server \<Rightarrow> bool" where
  "adds_spawn l req sv sv' \<longleftrightarrow>
     (\<forall>k. sess_held sv' k \<subseteq># sess_held sv k + (if k = l then {#req#} else {#}))"

lemma adds_spawns: "adds_spawn l req sv sv' \<Longrightarrow> spawns sv' \<subseteq> insert req (spawns sv)"
proof
  fix r assume a: "adds_spawn l req sv sv'" and "r \<in> spawns sv'"
  then obtain k where "r \<in># sess_held sv' k" by (auto simp: spawns_def)
  then have "r \<in># sess_held sv k + (if k = l then {#req#} else {#})"
    using a mset_subset_eqD unfolding adds_spawn_def by fastforce
  then show "r \<in> insert req (spawns sv)" by (auto simp: spawns_def split: if_splits)
qed

lemma told_adds:
  assumes "adds_spawn l req sv sv'" "finite L"
  shows "told p L sv' \<le> told p L sv + (if p = sr_process_id req then 1 else 0)"
proof -
  let ?n = "\<lambda>M. size (filter_mset (\<lambda>r. sr_process_id r = p) M)"
  have "?n (sess_held sv' k) \<le> ?n (sess_held sv k) +
      (if k = l then (if p = sr_process_id req then 1 else 0) else 0)" for k
  proof -
    have "?n (sess_held sv' k) \<le> ?n (sess_held sv k + (if k = l then {#req#} else {#}))"
      using assms(1) unfolding adds_spawn_def by (intro size_mset_mono multiset_filter_mono) blast
    then show ?thesis by auto
  qed
  then have "told p L sv' \<le> (\<Sum>k\<in>L. ?n (sess_held sv k) +
      (if k = l then (if p = sr_process_id req then 1 else 0) else 0))"
    unfolding told_def by (rule sum_mono)
  also have "\<dots> = told p L sv + (if l \<in> L then (if p = sr_process_id req then 1 else 0) else 0)"
    using assms(2) by (simp add: told_def sum.distrib)
  finally show ?thesis by (auto split: if_splits)
qed

text \<open>What the directory accounts for: the creation of a process and each of its restarts.\<close>

definition due :: "directory \<Rightarrow> string \<Rightarrow> nat" where
  "due d p = (case d p of None \<Rightarrow> 0 | Some i \<Rightarrow> 1 + nat (sint (pi_restart_count i)))"

definition limited :: "directory \<Rightarrow> string \<Rightarrow> bool" where
  "limited d p \<longleftrightarrow> (\<forall>i. d p = Some i \<longrightarrow> 0 \<le> sint (pi_max_restarts i))"

lemma limited_back: "evolves d d' \<Longrightarrow> limited d' p \<Longrightarrow> limited d p"
  by (fastforce simp: limited_def info_evolves_def program_def dest: evolves_info)

lemma due_evolves:
  assumes "evolves d d'" "budgets_ok d" "limited d' p"
  shows "due d p \<le> due d' p"
proof (cases "d p")
  case (Some i)
  then obtain j where j: "d' p = Some j" "info_evolves i j" using evolves_info [OF assms(1)] by blast
  have "within_budget i" "0 \<le> sint (pi_max_restarts i)"
    using assms(2) limited_back [OF assms(1,3)] Some by (auto simp: budgets_ok_def limited_def)
  then have "sint (pi_restart_count i) \<le> sint (pi_restart_count j)" using j(2) by (simp add: info_evolves_def)
  then show ?thesis using Some j(1) by (simp add: due_def nat_mono)
qed (simp add: due_def)

text \<open>A step that adds events for a process only with what the directory accounts for.\<close>

definition counted :: "server \<Rightarrow> server \<Rightarrow> bool" where
  "counted sv sv' \<longleftrightarrow> (budgets_ok (sv_dir sv) \<longrightarrow> (\<forall>p L. finite L \<and> limited (sv_dir sv') p \<longrightarrow>
     told p L sv' + due (sv_dir sv) p \<le> told p L sv + due (sv_dir sv') p))"

lemma counted_calm: "sv_evolves sv sv' \<Longrightarrow> calm sv sv' \<Longrightarrow> counted sv sv'"
  unfolding counted_def sv_evolves_def using told_calm due_evolves by (meson add_mono)

lemma counted_trans:
  assumes "counted a b" "counted b c" "sv_evolves a b" "sv_evolves b c"
  shows "counted a c"
  unfolding counted_def
proof (intro impI allI)
  fix p and L :: "string set"
  assume a: "budgets_ok (sv_dir a)" and p: "finite L \<and> limited (sv_dir c) p"
  have b: "budgets_ok (sv_dir b)" "limited (sv_dir b) p"
    using assms(3,4) a p evolves_budgets limited_back unfolding sv_evolves_def by blast+
  have "told p L b + due (sv_dir a) p \<le> told p L a + due (sv_dir b) p"
    "told p L c + due (sv_dir b) p \<le> told p L b + due (sv_dir c) p"
    using assms(1,2) a b p unfolding counted_def by blast+
  then show "told p L c + due (sv_dir a) p \<le> told p L a + due (sv_dir c) p" by linarith
qed

subsection \<open>Every step orders what it sends\<close>

text \<open>A step that sends only what the directory holds and accounts for, and keeps the programs.\<close>

definition orders :: "server \<Rightarrow> server \<Rightarrow> bool" where
  "orders sv sv' \<longleftrightarrow> sv_evolves sv sv' \<and>
     (\<forall>req\<in>spawns sv'. req \<in> spawns sv \<or> ordered (sv_dir sv') req) \<and> counted sv sv'"

lemma orders_trans [trans]:
  assumes "orders a b" "orders b c"
  shows "orders a c"
proof -
  have "keeps_programs (sv_dir b) (sv_dir c)" using assms(2) keeps_evolves by (auto simp: orders_def)
  then show ?thesis
    using assms counted_trans sv_evolves_trans ordered_mono unfolding orders_def by meson
qed

lemma orders_quiet: "sv_evolves sv sv' \<Longrightarrow> calm sv sv' \<Longrightarrow> orders sv sv'"
  using calm_spawns by (auto simp: orders_def counted_calm)

lemma orders_refl [intro!, simp]: "orders sv sv"
  by (rule orders_quiet) simp_all

lemma orders_sent:
  assumes "sv_evolves sv sv'" "adds_spawn l req sv sv'" "ordered (sv_dir sv') req"
    and "budgets_ok (sv_dir sv) \<Longrightarrow> limited (sv_dir sv') (sr_process_id req) \<Longrightarrow>
      due (sv_dir sv) (sr_process_id req) + 1 \<le> due (sv_dir sv') (sr_process_id req)"
  shows "orders sv sv'"
proof -
  have "told p L sv' + due (sv_dir sv) p \<le> told p L sv + due (sv_dir sv') p"
    if "budgets_ok (sv_dir sv)" "finite L" "limited (sv_dir sv') p" for p and L :: "string set"
    using told_adds [OF assms(2) that(2), of p] assms(4) [OF that(1)] that(3)
      due_evolves [of "sv_dir sv" "sv_dir sv'" p] assms(1) that(1)
    by (cases "p = sr_process_id req") (auto simp: sv_evolves_def)
  then show ?thesis
    using assms(1,3) adds_spawns [OF assms(2)] by (auto simp: orders_def counted_def)
qed

lemma calm_on_session:
  assumes "\<And>s. held (f s) \<subseteq># held s"
  shows "calm sv (on_session l f sv)"
  using assms by (cases "sv_sessions sv l") (simp_all add: on_session_def calm_put)

lemma calm_push_event:
  assumes "\<forall>req. ev \<noteq> Ev_Spawn req"
  shows "calm sv (push_event l ev sv)"
proof (cases "sv_sessions sv l")
  case (Some s)
  then have "held s' \<subseteq># sess_held sv l" if "outbox_push ev s = Some s'" for s'
    using held_push [OF that] spawn_msgs_quiet [OF assms] by simp
  then show ?thesis using Some by (simp add: push_event_def calm_put split: option.split)
qed (simp add: push_event_def)

text \<open>A spawn that is sent adds its request only.\<close>

lemma adds_SendSpawn:
  assumes "SendSpawn env l req sv = (r, sv')"
  shows "adds_spawn l req sv sv'"
  using assms
proof (cases rule: SendSpawn_cases)
  case (sent sess sess')
  then show ?thesis
    using held_send5 [OF sent(2)] by (simp add: adds_spawn_def sess_held_def)
qed (simp_all add: adds_spawn_def)

lemma calm_SendKill: "calm sv (snd (SendKill env l req sv))"
proof (cases "SendKill env l req sv")
  case (Pair r sv')
  then have "calm sv sv'"
  proof (cases rule: SendKill_cases)
    case (sent sess sess')
    have "held sess' \<subseteq># sess_held sv l"
      using held_send5 [OF sent(2)] sent(1) by simp
    then show ?thesis unfolding sent(4) by (rule calm_put)
  qed simp_all
  then show ?thesis using Pair by simp
qed

text \<open>The calls of the tenants.\<close>

lemma orders_Spawn:
  assumes "sv_inv sv" "PT_Get (sv_processes sv) (ge_id env) = None" "ge_id env \<noteq> ''''"
  shows "orders sv (snd (Spawn env req sv))"
proof (cases "Spawn env req sv")
  case (Pair r sv')
  note ev = sv_evolves_Spawn [OF assms, of req, unfolded Pair snd_conv]
  from Pair have "orders sv sv'"
  proof (cases rule: Spawn_cases)
    case (spawned l sv1)
    let ?i = "spawn_info env (l_lord_id l) req"
    have "sv_dir sv1 = (sv_dir sv)(ge_id env \<mapsto> ?i)"
      using assms by (simp add: spawned(5) dir_Create [OF tbl_invD(1) [OF sv_invD(1)]])
    then have d: "sv_dir sv' = (sv_dir sv)(ge_id env \<mapsto> ?i)"
      using SendSpawn_processes [OF spawned(6)] by simp
    then have "ordered (sv_dir sv') (buildSpawnRequest ?i req)"
      by (intro ordered_spawn) (simp_all add: spawn_info_def copyMap_def split: option.split)
    moreover have "sess_held sv1 = sess_held sv" by (simp add: spawned(5) sess_held_def fun_eq_iff)
    then have "adds_spawn (l_lord_id l) (buildSpawnRequest ?i req) sv sv'"
      using adds_SendSpawn [OF spawned(6)] by (simp add: adds_spawn_def)
    moreover have pid: "sr_process_id (buildSpawnRequest ?i req) = ge_id env"
      by (simp add: buildSpawnRequest_def Let_def)
    have "sv_dir sv (ge_id env) = None" using assms(2) by (simp add: dir_def PT_Get_def)
    then have "due (sv_dir sv) (ge_id env) + 1 \<le> due (sv_dir sv') (ge_id env)" by (simp add: d due_def)
    ultimately show ?thesis
      by (intro orders_sent [OF ev, where req = "buildSpawnRequest ?i req", unfolded pid])
  qed (use ev in \<open>auto intro!: orders_quiet calm_same\<close>)
  then show ?thesis using Pair by simp
qed

lemma orders_Kill: "orders sv (snd (Kill env req sv))"
proof -
  have "snd (Kill env req sv) \<in> {sv} \<union> {snd (SendKill env l r sv) | l r. True}"
    unfolding Kill_def Let_def by (auto split: option.split prod.split) (metis snd_conv)+
  then have "calm sv (snd (Kill env req sv))" using calm_SendKill by fastforce
  then show ?thesis by (intro orders_quiet sv_evolves_Kill)
qed

lemma WriteStdin_send_sessions:
  "sv_sessions (snd (WriteStdin_send env req sv)) = sv_sessions sv \<or>
   (\<exists>l s s' r. sv_sessions sv l = Some s \<and>
      outbox_send5 (ge_room env) (Ev_WriteStdin r) s = Some s' \<and>
      sv_sessions (snd (WriteStdin_send env req sv)) = (sv_sessions sv)(l \<mapsto> s'))"
  by (auto simp: WriteStdin_send_def Let_def registerWriteStdinWaiter_def put_waiter_def del_waiter_def
      unregisterWriteStdinWaiter_def put_session_def getSession_def split: option.splits)

lemma orders_WriteStdin_send: "orders sv (snd (WriteStdin_send env req sv))"
proof (rule orders_quiet [OF sv_evolves_WriteStdin_send])
  show "calm sv (snd (WriteStdin_send env req sv))"
    using WriteStdin_send_sessions [of env req sv]
  proof (elim disjE exE conjE)
    fix l s s' r
    assume s: "sv_sessions sv l = Some s" "outbox_send5 (ge_room env) (Ev_WriteStdin r) s = Some s'"
      "sv_sessions (snd (WriteStdin_send env req sv)) = (sv_sessions sv)(l \<mapsto> s')"
    have "held s' \<subseteq># sess_held sv l" using held_send5 [OF s(2)] s(1) by simp
    then show ?thesis by (rule calm_upd [OF s(3)])
  qed (rule calm_same)
qed

lemma orders_frame: "sv_evolves sv sv' \<Longrightarrow> sv_sessions sv' = sv_sessions sv \<Longrightarrow> orders sv sv'"
  by (rule orders_quiet) (simp_all add: calm_same)

lemma orders_WriteStdin_wait:
  "WriteStdin_wait wake p ch sv = Some (r, sv') \<Longrightarrow> orders sv sv'"
  by (rule orders_frame [OF sv_evolves_WriteStdin_wait], assumption)
    (auto simp: WriteStdin_wait_def unregisterWriteStdinWaiter_def del_waiter_def
      split: stdin_wake.splits option.splits)

lemma orders_StreamProcessIO_step:
  "StreamProcessIO_step wake a n sv = Some (cs, nx, sv') \<Longrightarrow> orders sv sv'"
  by (rule orders_frame [OF sv_evolves_StreamProcessIO_step], assumption)
    (auto simp: StreamProcessIO_step_def Let_def set_ioLastSent_def
      split: prod.splits stream_wake.splits if_splits option.splits)

lemma calm_shutdown_loop: "calm sv (snd (shutdown_loop g c ks sv))"
proof (induction g c ks sv rule: shutdown_loop.induct)
  case (2 g c k ks sv)
  have "calm sv (put_session k s' sv)"
    if "sv_sessions sv k = Some s" "outbox_push (Ev_SetDrain g '''') s = Some s'" for s s'
    using held_push [OF that(2)] that(1) by (intro calm_put) simp
  then show ?case using 2 by (auto split: option.split) (blast intro: calm_trans)+
qed simp

lemma orders_Shutdown: "orders sv (snd (Shutdown c c' ks d sv))"
proof (rule orders_quiet [OF sv_evolves_Shutdown])
  have "snd (Shutdown c c' ks d sv) = sv \<or>
      (\<exists>g. snd (Shutdown c c' ks d sv) = snd (shutdown_loop g c ks sv))"
    by (auto simp: Shutdown_def case_prod_beta split: option.split)
  then show "calm sv (snd (Shutdown c c' ks d sv))"
    using calm_shutdown_loop by fastforce
qed

text \<open>The messages of the lords.\<close>

lemma orders_Connect_start: "orders sv (snd (Connect_start env first sv))"
proof (rule orders_quiet [OF sv_evolves_Connect_start])
  have "calm sv (push_event l (Ev_RegisterAck l n) (rebind_hostname env h l
      ((on_lords f (put_session l (newLordSession l) sv))\<lparr>sv_bpf := m\<rparr>)))" for l n h f m
  proof -
    let ?sv = "rebind_hostname env h l ((on_lords f (put_session l (newLordSession l) sv))\<lparr>sv_bpf := m\<rparr>)"
    have "sv_sessions ?sv = (sv_sessions sv)(l \<mapsto> newLordSession l)"
      by (simp add: rebind_hostname_def Let_def)
    then have "calm sv ?sv" by (rule calm_upd) (simp add: held_def newLordSession_def)
    moreover have "calm ?sv (push_event l (Ev_RegisterAck l n) ?sv)" by (rule calm_push_event) simp
    ultimately show ?thesis by (rule calm_trans)
  qed
  then show "calm sv (snd (Connect_start env first sv))"
    by (auto simp: Connect_start_def Let_def split: sum.split lord_cmd.split)
qed

lemma sessions_frame:
  "sv_sessions (on_lords f sv) = sv_sessions sv"
  "sv_sessions (handleIo io sv) = sv_sessions sv"
  "sv_sessions (deliverWriteStdinAck ack sv) = sv_sessions sv"
  "sv_sessions (onLordDisconnect l sv) = sv_sessions sv"
  by (simp_all add: handleIo_def deliverWriteStdinAck_def onLordDisconnect_def split: option.split)

lemma held_forget_pid: "held (forget_pid p pids s) = held s"
  by (induction p pids s rule: forget_pid.induct) (auto simp: held_def)

lemma calm_handleStarted: "calm sv (handleStarted env l started sv)"
proof (cases "PT_Get (sv_processes sv) (ps_process_id started)")
  case (Some a)
  let ?f = "session_set_pid (ps_local_pid started) (ps_process_id started)"
  have "calm sv (on_session l ?f (UpdateState env a st l pid sv))" for st pid
    by (rule calm_trans [OF calm_same calm_on_session]) (simp_all add: held_def session_set_pid_def)
  then show ?thesis
    using Some by (simp add: handleStarted_def Let_def calm_def sess_held_def split: option.split)
qed (simp add: handleStarted_def)

lemma calm_handleProcessExit: "calm sv (handleProcessExit env l px sv)"
proof (cases "PT_Get (sv_processes sv) (px_process_id px)")
  case (Some a)
  have "calm sv (on_session l (forget_pid p pids) sv')"
    if "sv_sessions sv' = sv_sessions sv" for p pids sv'
    using calm_on_session [of "forget_pid p pids" sv' l] calm_same [OF that]
    by (simp add: held_forget_pid calm_trans)
  then show ?thesis using Some by (simp add: handleProcessExit_def Let_def)
qed (simp add: handleProcessExit_def)

lemma orders_recv_cmd: "orders sv (recv_cmd env l cmd sv)"
proof (rule orders_quiet [OF sv_evolves_recv_cmd])
  have push: "calm sv (push_event l ev (on_lords f sv))" if "\<forall>req. ev \<noteq> Ev_Spawn req" for ev f
    by (rule calm_trans [OF calm_same calm_push_event [OF that]]) simp
  have quiet: "calm sv (handleIo io sv)" "calm sv (deliverWriteStdinAck ack sv)" for io ack
    by (simp_all add: calm_same sessions_frame)
  show "calm sv (recv_cmd env l cmd sv)"
    by (cases cmd) (simp_all add: recv_cmd_def push calm_handleStarted calm_handleProcessExit quiet)
qed

lemma orders_Connect_cleanup: "orders sv (Connect_cleanup l sv)"
  by (rule orders_quiet [OF sv_evolves_Connect_cleanup calm_del [of _ _ l]])
    (simp add: Connect_cleanup_def sessions_frame)

lemma orders_send: "orders sv (on_session l (\<lambda>s. snd (sendLoop_step oc s)) sv)"
  by (intro orders_quiet sv_evolves_same calm_on_session held_sendLoop) simp

lemma orders_late: "orders sv (on_session l (late_send i taken) sv)"
  by (intro orders_quiet sv_evolves_same calm_on_session held_late) simp

text \<open>Recovery and migration.\<close>

lemma dir_live:
  assumes "sv_inv sv" "live (sv_processes sv) a"
  shows "sv_dir sv (pi_process_id (sv_info sv a)) = Some (sv_info sv a)"
proof -
  obtain p where p: "PT_Get (sv_processes sv) p = Some a" using assms(2) by (auto simp: live_def)
  then have "pi_process_id (sv_info sv a) = p"
    using pt_inv_byID(2) [OF tbl_invD(1) [OF sv_invD(1) [OF assms(1)]]]
    by (simp add: PT_Get_def sv_info_def)
  then show ?thesis using p by (simp add: dir_Get sv_info_def)
qed

lemma sint_i32_Suc: "0 \<le> sint (c :: i32) \<Longrightarrow> sint c < sint (m :: i32) \<Longrightarrow> sint (c + 1) = sint c + 1"
  using sint_i32_bounds(2) [of m] by (simp add: sint_word_ariths signed_take_bit_int_eq_self)

lemma orders_respawn:
  assumes "sv_inv sv" "live (sv_processes sv) a"
  shows "orders sv (snd (respawnProcessOnLord env a l sv))"
proof -
  obtain r sv' where r: "respawnProcessOnLord env a l sv = (r, sv')" by fastforce
  have ev: "sv_evolves sv sv'" using sv_evolves_respawn [of sv env a l] r by simp
  let ?i = "sv_info sv a"
  have 2: "sv_inv (upd_info a (pi_relaunch l) (UpdateState env a PROCESS_STATE_RESTARTING '''' 0 sv))"
    by (intro sv_inv_upd_info sv_inv_UpdateState assms unlogged_relaunch)
  from r have "orders sv sv'"
  proof (cases rule: respawn_cases)
    case (sent sv2 sv3)
    have i2: "sv_info sv2 a = relaunched (ge_now env) l ?i"
      using alloc_live [OF assms] sent(3) by (simp add: sv_info_ops relaunched_def)
    have "sv_inv sv2" "live (sv_processes sv2) a" using 2 assms(2) sent(3) by simp_all
    note d2 = dir_live [OF this]
    have dir': "sv_dir sv' = sv_dir sv2" using SendSpawn_processes [OF sent(4)] sent(6) by simp
    have o: "ordered (sv_dir sv') (respawn_request (sv_info sv2 a))"
      using d2 dir' by (auto simp: ordered_def)
    have "sess_held sv2 = sess_held sv" "sess_held sv' = sess_held sv3"
      by (simp_all add: sent(3,6) sess_held_def fun_eq_iff)
    then have add: "adds_spawn l (respawn_request (sv_info sv2 a)) sv sv'"
      using adds_SendSpawn [OF sent(4)] by (simp add: adds_spawn_def)
    have pid: "sr_process_id (respawn_request (sv_info sv2 a)) = pi_process_id ?i" by (simp add: i2)
    have here: "sv_dir sv (pi_process_id ?i) = Some ?i" "sv_dir sv' (pi_process_id ?i) = Some (relaunched (ge_now env) l ?i)"
      using dir_live [OF assms] d2 by (simp_all add: dir' i2)
    show ?thesis
    proof (rule orders_sent [OF ev add o], unfold pid)
      assume "budgets_ok (sv_dir sv)" "limited (sv_dir sv') (pi_process_id ?i)"
      then have "within_budget ?i" "0 \<le> sint (pi_max_restarts ?i)"
        using here by (auto simp: budgets_ok_def limited_def)
      then have "0 \<le> sint (pi_restart_count ?i)" "sint (pi_restart_count ?i + 1) = sint (pi_restart_count ?i) + 1"
        using sent(2) sint_i32_Suc [of "pi_restart_count ?i" "pi_max_restarts ?i"]
        by (auto simp: within_budget_def)
      then show "due (sv_dir sv) (pi_process_id ?i) + 1 \<le> due (sv_dir sv') (pi_process_id ?i)"
        by (simp add: due_def here)
    qed
  qed (use ev in \<open>auto intro!: orders_frame\<close>)
  then show ?thesis using r by simp
qed

lemma orders_respawn_pass:
  "sv_inv sv \<Longrightarrow> \<forall>a\<in>set as. live (sv_processes sv) a \<Longrightarrow> orders sv (snd (respawn_pass env l as n sv))"
proof (induction env l as n sv rule: respawn_pass.induct)
  case (2 env l a as n sv)
  obtain r sv1 where r: "respawnProcessOnLord env a l sv = (r, sv1)" by fastforce
  have 1: "orders sv sv1" "sv_inv sv1" "live (sv_processes sv1) b = live (sv_processes sv) b" for b
    using orders_respawn [OF 2(3), of a env l] sv_inv_respawn [OF 2(3), of a env l] 2(4) r by auto
  then show ?case
    using 2(1) [OF r [symmetric]] 2(2) [OF r [symmetric]] 2(4) r
    by (cases r) (auto intro: orders_trans)
qed simp

lemma sessions_finish: "sv_sessions (recovery_finish env as sv) = sv_sessions sv"
  by (induction env as sv rule: recovery_finish.induct) simp_all

lemma orders_recovery_step:
  assumes "sv_inv sv" "\<forall>a\<in>set (rec_addrs r). live (sv_processes sv) a"
    "recovery_step env r sv = (nxt, sv1)"
  shows "orders sv sv1"
proof (cases r)
  case (R_start l)
  then have "sv_sessions sv1 = sv_sessions sv"
    using assms(3) by (auto simp: recovery_start_def Let_def split: option.splits if_splits)
  then show ?thesis by (rule orders_frame [OF sv_evolves_recovery_step [OF assms(3)]])
next
  case (R_attempt l as n)
  then have "sv1 = sv \<or> (\<exists>target. sv1 = snd (respawn_pass env target as 0 sv))"
    using assms(3) by (auto simp: recovery_attempt_def split: prod.splits option.splits) (metis snd_conv)
  then show ?thesis
    using orders_respawn_pass [OF assms(1), of as] assms(2) R_attempt by auto
next
  case (R_finish l as)
  then have "sv_sessions sv1 = sv_sessions sv" using assms(3) by (auto simp: sessions_finish)
  then show ?thesis by (rule orders_frame [OF sv_evolves_recovery_step [OF assms(3)]])
qed

lemma orders_run_recovery:
  assumes "sv_inv sv"
  shows "orders sv (run_recovery env i sv)"
proof (cases "i < length (sv_recoveries sv)")
  case True
  obtain nxt sv1 where st: "recovery_step env (sv_recoveries sv ! i) sv = (nxt, sv1)" by fastforce
  have "\<forall>a\<in>set (rec_addrs (sv_recoveries sv ! i)). live (sv_processes sv) a"
    using sv_invD(4) [OF assms] nth_mem [OF True] by (auto simp: pending_def)
  from orders_recovery_step [OF assms this st] show ?thesis
    using True st by (simp add: run_recovery_def orders_def counted_def told_def spawns_def sess_held_def sv_evolves_def)
qed (simp add: run_recovery_def)

lemma orders_respawn_timer: "orders sv (respawn_timer env a sv)"
  by (rule orders_frame [OF sv_evolves_respawn_timer]) (simp add: respawn_timer_def Let_def)

lemma orders_Migrate:
  assumes "sv_inv sv"
  shows "orders sv (snd (Migrate env req sv))"
proof (cases "PT_Get (sv_processes sv) (mr_process_id req)")
  case (Some a)
  have "orders sv (snd (respawnProcessOnLord env a l sv))" for l
    by (rule orders_respawn [OF assms live_Get [OF Some]])
  then show ?thesis
    using Some by (auto simp: Migrate_def Let_def split: prod.split option.split) (metis snd_conv)+
qed (simp add: Migrate_def)

lemma orders_apply_loop: "sv_inv sv \<Longrightarrow> orders sv (apply_loop envs n ds sv)"
proof (induction envs n ds sv rule: apply_loop.induct)
  case (2 envs n d ds sv)
  have "\<exists>req. snd (applyDecision (envs n) d sv) \<in> {sv, snd (Migrate (envs n) req sv)}"
    unfolding applyDecision_def Let_def by (auto split: prod.split sum.split) (metis snd_conv)+
  then have "orders sv (snd (applyDecision (envs n) d sv)) \<and> sv_inv (snd (applyDecision (envs n) d sv))"
    using orders_Migrate sv_inv_Migrate 2(2) by auto
  then show ?case using 2(1) by (auto intro: orders_trans)
qed simp

lemma server_step_orders:
  assumes "server_step sv sv'" "sv_inv sv"
  shows "orders sv sv'"
  using assms
proof (cases rule: server_step.cases)
  case (sweep env ttl)
  show ?thesis
    unfolding sweep(1)
    by (rule orders_frame, rule sv_evolves_same) (simp_all add: SweepHeartbeats_snd)
qed (use assms(2) in \<open>auto simp: env_ok_def intro: orders_Spawn orders_Kill orders_Migrate
    orders_WriteStdin_send orders_WriteStdin_wait orders_StreamProcessIO_step orders_Shutdown
    orders_Connect_start orders_recv_cmd orders_send orders_late orders_Connect_cleanup orders_run_recovery
    orders_respawn_timer\<close>)

lemma sched_step_orders:
  assumes "sched_step cfg s s'" "sv_inv (sys_server s)"
  shows "orders (sys_server s) (sys_server s')"
  using assms
proof (cases rule: sched_step.cases)
  case (serve sv')
  then show ?thesis using server_step_orders assms(2) by simp
next
  case (tick env env' envs scores sv')
  then have "sv' = apply_loop envs 0 (fst (Decide env' cfg (Sample env cfg (sys_server s) (sys_scores s))))
      (sys_server s)"
    by (auto simp: autoscale_tick_def split: prod.splits)
  then show ?thesis using tick orders_apply_loop [OF assms(2)] by simp
qed

subsection \<open>The machines\<close>

text \<open>What an agent does on its own, its stream aside.\<close>

inductive agent_work :: "agent \<Rightarrow> agent \<Rightarrow> bool" where
  child: "agent_work ag (child_exited env i oc ag)"
| pump: "agent_work ag (fold ag_send (pumpStream p str reads) ag)"
| heartbeat: "agent_work ag (sendHeartbeat env ag)"
| drained: "ag_draining ag \<Longrightarrow> agent_work ag (snd (drain_finish env g ag))"
| sent: "agent_work ag (snd (agent_sendLoop_step err ag))"

lemma agent_work_step: "agent_work ag ag' \<Longrightarrow> agent_step ag ag'"
  by (cases rule: agent_work.cases) (auto intro: agent_step.intros)

text \<open>
  A machine: its agent, the lord id of its stream with the number of events read from it, and the
  environment that the agent was started with and passes on (\<open>os.Environ\<close>).
\<close>

record machine =
  mc_agent :: agent
  mc_stream :: "(string \<times> nat) option"
  mc_environ :: "string list"          \<comment> \<open>the environment of the agent's own process\<close>

text \<open>The loop \<open>recvLoop\<close> of the agent: the first event must be the acknowledgement, or the stream ends.\<close>

definition agent_hears :: "ag_env \<Rightarrow> string \<Rightarrow> nat \<Rightarrow> lord_event \<Rightarrow> machine \<Rightarrow> machine" where
  "agent_hears env l n ev m =
     (if n = 0 then
        (case handle_first env ev (mc_agent m) of (err, ag) \<Rightarrow>
           m\<lparr>mc_agent := ag, mc_stream := (if err = None then Some (l, 1) else None)\<rparr>)
      else m\<lparr>mc_agent := snd (handleEvent env ev (mc_agent m)), mc_stream := Some (l, n + 1)\<rparr>)"

text \<open>The agent starts again: its tables are empty, the machine is as it was.\<close>

definition restarted :: "agent \<Rightarrow> agent" where
  "restarted ag = NewAgent\<lparr>ag_fs := ag_fs ag, ag_signals := ag_signals ag\<rparr>"

record network =
  nw_sched :: system
  nw_wire :: "string \<Rightarrow> lord_event list"      \<comment> \<open>sent on the stream of a lord id\<close>
  nw_machine :: "nat \<Rightarrow> machine"

definition carry :: "server \<Rightarrow> (string \<Rightarrow> lord_event list) \<Rightarrow> string \<Rightarrow> lord_event list" where
  "carry sv wire l = (case sv_sessions sv l of None \<Rightarrow> wire l | Some s \<Rightarrow> ls_sent s)"

definition net_start :: "(nat \<Rightarrow> string list) \<Rightarrow> system \<Rightarrow> network" where
  "net_start environs s = \<lparr>nw_sched = s, nw_wire = (\<lambda>_. []),
     nw_machine = (\<lambda>h. \<lparr>mc_agent = NewAgent, mc_stream = None, mc_environ = environs h\<rparr>)\<rparr>"

text \<open>An order in which the runtime may iterate over the environment of a request.\<close>

definition env_order :: "str_map \<Rightarrow> string list \<Rightarrow> bool" where
  "env_order e ks \<longleftrightarrow> (case e of None \<Rightarrow> True | Some m \<Rightarrow> iter_order m ks)"

text \<open>What the agent may rely on when it handles an event: its own environment, and an iteration that
  enumerates the environment of the request.\<close>

definition agent_env_ok :: "ag_env \<Rightarrow> lord_event \<Rightarrow> machine \<Rightarrow> bool" where
  "agent_env_ok env ev m \<longleftrightarrow> ax_environ env = mc_environ m \<and>
     (case ev of Ev_Spawn req \<Rightarrow> env_order (sr_env req) (ax_envOrder env) | _ \<Rightarrow> True)"

definition on_machine :: "nat \<Rightarrow> (machine \<Rightarrow> machine) \<Rightarrow> network \<Rightarrow> network" where
  "on_machine h f nw = nw\<lparr>nw_machine := (nw_machine nw)(h := f (nw_machine nw h))\<rparr>"

inductive net_step :: "autoscale_config \<Rightarrow> string \<Rightarrow> network \<Rightarrow> network \<Rightarrow> bool" for cfg algo where
  scheduler: "sched_step cfg (nw_sched nw) s \<Longrightarrow>
    net_step cfg algo nw (nw\<lparr>nw_sched := s, nw_wire := carry (sys_server s) (nw_wire nw)\<rparr>)"
| crash: "pt_wal (sv_processes (sys_server (nw_sched nw))) = Some ls \<Longrightarrow>
    system_start clk (F_lines ls) algo = Some s \<Longrightarrow> net_step cfg algo nw (nw\<lparr>nw_sched := s\<rparr>)"
| dial: "sv_sessions (sys_server (nw_sched nw)) l = Some sess \<Longrightarrow>
    net_step cfg algo nw (on_machine h (\<lambda>m. m\<lparr>mc_stream := Some (l, 0)\<rparr>) nw)"
| hear: "mc_stream (nw_machine nw h) = Some (l, n) \<Longrightarrow> n < length (nw_wire nw l) \<Longrightarrow>
    agent_env_ok env (nw_wire nw l ! n) (nw_machine nw h) \<Longrightarrow>
    net_step cfg algo nw (on_machine h (agent_hears env l n (nw_wire nw l ! n)) nw)"
| work: "agent_work (mc_agent (nw_machine nw h)) ag \<Longrightarrow>
    net_step cfg algo nw (on_machine h (\<lambda>m. m\<lparr>mc_agent := ag\<rparr>) nw)"
| break: "net_step cfg algo nw (on_machine h (\<lambda>m. m\<lparr>mc_stream := None\<rparr>) nw)"
| stop: "net_step cfg algo nw
    (on_machine h (\<lambda>m. \<lparr>mc_agent = restarted (mc_agent m), mc_stream = None, mc_environ = environ\<rparr>) nw)"

inductive net_reachable :: "autoscale_config \<Rightarrow> string \<Rightarrow> network \<Rightarrow> bool" for cfg algo where
  first: "system_start clk F_missing algo = Some s \<Longrightarrow> net_reachable cfg algo (net_start environs s)"
| step: "net_reachable cfg algo nw \<Longrightarrow> net_step cfg algo nw nw' \<Longrightarrow> net_reachable cfg algo nw'"

subsection \<open>What runs was ordered\<close>

text \<open>A process on a machine agrees with the entry of the directory: the program, the arguments, the
  directory, and the environment, which is that of the agent followed by one assignment for each
  variable of the order, the path of the state dump included.\<close>

definition runs_ordered :: "string list \<Rightarrow> directory \<Rightarrow> string \<Rightarrow> local_process \<Rightarrow> bool" where
  "runs_ordered environ d p lp \<longleftrightarrow> (\<exists>i. d p = Some i \<and>
     loc_execPath lp = pi_exec_path i \<and> loc_argv lp = pi_argv i \<and> loc_dir lp = pi_working_dir i \<and>
     (\<exists>ks. env_order (launch_env i) ks \<and> loc_env lp = buildEnv environ ks (launch_env i)))"

definition agent_ordered :: "string list \<Rightarrow> directory \<Rightarrow> agent \<Rightarrow> bool" where
  "agent_ordered environ d ag \<longleftrightarrow> (\<forall>p lp. ag_procs ag p = Some lp \<longrightarrow> runs_ordered environ d p lp)"

lemma go_range_empty [simp]: "go_range Map.empty ks = []"
  by (induction ks) simp_all

text \<open>The nil and the empty environment give the same assignments.\<close>

lemma buildEnv_cong:
  assumes "omit_empty e = omit_empty e'" "env_order e ks"
  shows "\<exists>ks'. env_order e' ks' \<and> buildEnv environ ks e = buildEnv environ ks' e'"
proof (cases "e' = e")
  case False
  then have "e \<in> {None, Some Map.empty}" "e' \<in> {None, Some Map.empty}"
    using assms(1) by (auto simp: omit_empty_def split: option.splits if_splits)
  then show ?thesis by (intro exI [of _ "[]"]) (auto simp: env_order_def buildEnv_def)
qed (use assms(2) in blast)

lemma runs_ordered_mono:
  assumes "keeps_programs d d'" "runs_ordered environ d p lp"
  shows "runs_ordered environ d' p lp"
proof -
  obtain i ks where i: "d p = Some i" "loc_execPath lp = pi_exec_path i" "loc_argv lp = pi_argv i"
    "loc_dir lp = pi_working_dir i" "env_order (launch_env i) ks" "loc_env lp = buildEnv environ ks (launch_env i)"
    using assms(2) by (auto simp: runs_ordered_def)
  obtain j where j: "d' p = Some j" "program j = program i"
    using assms(1) i(1) unfolding keeps_programs_def by blast
  obtain ks' where "env_order (launch_env j) ks'" "loc_env lp = buildEnv environ ks' (launch_env j)"
    using buildEnv_cong [OF launch_env_program [OF j(2), symmetric] i(5)] i(6) by metis
  then show ?thesis using i j unfolding runs_ordered_def program_def by (metis prod.inject)
qed

lemma runs_ordered_new:
  assumes "ordered d req" "env_order (sr_env req) (ax_envOrder env)"
  shows "runs_ordered (ax_environ env) d (sr_process_id req) (new_local_process env req pid)"
proof -
  obtain i where i: "d (sr_process_id req) = Some i" "launch req = launch (respawn_request i)"
    using assms(1) by (auto simp: ordered_def)
  then have "omit_empty (sr_env req) = omit_empty (launch_env i)" by (simp add: launch_def)
  from buildEnv_cong [OF this assms(2)] show ?thesis
    using i unfolding runs_ordered_def
    by (intro exI [of _ i]) (auto simp: launch_def new_local_process_def Let_def)
qed

lemma agent_ordered_sub:
  "agent_ordered environ d ag \<Longrightarrow> ag_procs ag' \<subseteq>\<^sub>m ag_procs ag \<Longrightarrow> agent_ordered environ d ag'"
  by (metis (mono_tags, lifting) agent_ordered_def domI map_le_def)

lemma agent_ordered_put:
  "agent_ordered environ d ag \<Longrightarrow> runs_ordered environ d p lp \<Longrightarrow> ag_procs ag' = (ag_procs ag)(p \<mapsto> lp) \<Longrightarrow>
     agent_ordered environ d ag'"
  by (simp add: agent_ordered_def)

lemma agent_ordered_cong: "ag_procs ag' = ag_procs ag \<Longrightarrow> agent_ordered environ d ag' = agent_ordered environ d ag"
  by (simp add: agent_ordered_def)

lemma agent_ordered_WriteStdin:
  assumes "agent_ordered environ d ag"
  shows "agent_ordered environ d (handleWriteStdin env req ag)"
proof (cases "ag_procs ag (ws_process_id req)")
  case (Some lp)
  have "\<exists>lp'. ag_procs (handleWriteStdin env req ag) \<in> {ag_procs ag, (ag_procs ag)(ws_process_id req \<mapsto> lp')} \<and>
      loc_execPath lp' = loc_execPath lp \<and> loc_argv lp' = loc_argv lp \<and> loc_dir lp' = loc_dir lp \<and>
      loc_env lp' = loc_env lp"
    using Some by (auto simp: handleWriteStdin_def Let_def pipe_write_def split: prod.split)
  then obtain lp' where lp': "ag_procs (handleWriteStdin env req ag) = ag_procs ag \<or>
      ag_procs (handleWriteStdin env req ag) = (ag_procs ag)(ws_process_id req \<mapsto> lp')"
    "loc_execPath lp' = loc_execPath lp" "loc_argv lp' = loc_argv lp" "loc_dir lp' = loc_dir lp"
    "loc_env lp' = loc_env lp"
    by blast
  moreover have "runs_ordered environ d (ws_process_id req) lp'"
    using assms Some lp'(2-) by (simp add: agent_ordered_def runs_ordered_def)
  ultimately show ?thesis using assms agent_ordered_put agent_ordered_cong by blast
qed (use assms in \<open>simp add: handleWriteStdin_def agent_ordered_def\<close>)

lemma agent_ordered_hears:
  assumes "agent_ordered environ d ag" "\<forall>req. ev = Ev_Spawn req \<longrightarrow> ordered d req"
    and "ax_environ env = environ" "\<forall>req. ev = Ev_Spawn req \<longrightarrow> env_order (sr_env req) (ax_envOrder env)"
  shows "agent_ordered environ d (snd (handleEvent env ev ag))"
proof (cases ev)
  case (Ev_Spawn req)
  then have "runs_ordered environ d (sr_process_id req) (new_local_process env req pid)" for pid
    using runs_ordered_new assms(2-4) by blast
  then have "agent_ordered environ d (snd (handleSpawn env req ag))"
    using handleSpawn_tables [of env req ag] agent_ordered_put [OF assms(1)] agent_ordered_cong assms(1)
    by blast
  then show ?thesis using Ev_Spawn by (simp add: handleEvent_def)
qed (use assms in \<open>simp_all add: handleEvent_def agent_ordered_WriteStdin
    agent_ordered_cong [OF handleKill_frame(1)] agent_ordered_cong [OF drain_frame(1)]\<close>)

lemma agent_ordered_work:
  assumes "agent_work ag ag'" "agent_ordered environ d ag"
  shows "agent_ordered environ d ag'"
proof -
  have "ag_procs ag' \<subseteq>\<^sub>m ag_procs ag"
    using assms(1)
  proof (cases rule: agent_work.cases)
    case (child env i oc)
    then show ?thesis
      using child_exited_tables(1) [of i ag env oc]
      by (cases "i < length (ag_children ag)") (auto simp: child_exited_def map_le_def)
  qed (simp_all add: fold_ag_send_frame sendHeartbeat_frame drain_frame sendLoop_step_frame)
  then show ?thesis by (rule agent_ordered_sub [OF assms(2)])
qed

subsection \<open>The invariant of the network\<close>

definition net_inv :: "network \<Rightarrow> bool" where
  "net_inv nw \<longleftrightarrow> sv_inv (sys_server (nw_sched nw)) \<and>
     (\<forall>req\<in>spawns (sys_server (nw_sched nw)). ordered (sv_dir (sys_server (nw_sched nw))) req) \<and>
     (\<forall>l req. Ev_Spawn req \<in> set (nw_wire nw l) \<longrightarrow> ordered (sv_dir (sys_server (nw_sched nw))) req) \<and>
     (\<forall>h. agent_ordered (mc_environ (nw_machine nw h)) (sv_dir (sys_server (nw_sched nw)))
        (mc_agent (nw_machine nw h)))"

lemma net_inv_on_machine:
  assumes "net_inv nw"
    "\<And>d. d = sv_dir (sys_server (nw_sched nw)) \<Longrightarrow> 
      agent_ordered (mc_environ (nw_machine nw h)) d (mc_agent (nw_machine nw h)) \<Longrightarrow>
      agent_ordered (mc_environ (f (nw_machine nw h))) d (mc_agent (f (nw_machine nw h)))"
  shows "net_inv (on_machine h f nw)"
  using assms by (auto simp: net_inv_def on_machine_def)

text \<open>The scheduler moves on: what was ordered before is still in its directory.\<close>

lemma net_inv_sched:
  assumes "net_inv nw" "sv_inv (sys_server s)"
    and "keeps_programs (sv_dir (sys_server (nw_sched nw))) (sv_dir (sys_server s))"
    and "\<forall>req\<in>spawns (sys_server s). ordered (sv_dir (sys_server s)) req"
    and "\<And>l req. Ev_Spawn req \<in> set (wire l) \<Longrightarrow>
      Ev_Spawn req \<in> set (nw_wire nw l) \<or> req \<in> spawns (sys_server s)"
  shows "net_inv (nw\<lparr>nw_sched := s, nw_wire := wire\<rparr>)"
  using assms
  by (auto simp: net_inv_def agent_ordered_def intro: ordered_mono runs_ordered_mono) (metis ordered_mono)

lemma net_inv_step:
  assumes "net_step cfg algo nw nw'" "net_inv nw"
  shows "net_inv nw'"
  using assms(1)
proof (cases rule: net_step.cases)
  case (scheduler s)
  have inv: "sv_inv (sys_server (nw_sched nw))" using assms(2) by (simp add: net_inv_def)
  note o = sched_step_orders [OF scheduler(2) inv, unfolded orders_def]
  have k: "keeps_programs (sv_dir (sys_server (nw_sched nw))) (sv_dir (sys_server s))"
    using o keeps_evolves by blast
  have "\<forall>req\<in>spawns (sys_server s). ordered (sv_dir (sys_server s)) req"
    using o k assms(2) ordered_mono unfolding net_inv_def by blast
  moreover have "Ev_Spawn req \<in> set (nw_wire nw l) \<or> req \<in> spawns (sys_server s)"
    if "Ev_Spawn req \<in> set (carry (sys_server s) (nw_wire nw) l)" for l req
    using that by (cases "sv_sessions (sys_server s) l")
      (auto simp: carry_def spawns_def sess_held_def held_def spawn_msgs_mem intro!: exI [of _ l])
  ultimately show ?thesis
    unfolding scheduler(1)
    using k sched_step_props [OF scheduler(2) inv] by (intro net_inv_sched [OF assms(2)]) auto
next
  case (crash ls clk s)
  have inv: "sv_inv (sys_server (nw_sched nw))" using assms(2) by (simp add: net_inv_def)
  note t = sv_invD(1) [OF inv]
  obtain t' where t': "scheduler_startup_wal clk (F_lines ls) = Some (t', F_lines ls)"
    "same_durable (dir t') (sv_dir (sys_server (nw_sched nw)))"
    by (rule startup_recovers [OF tbl_invD(3) [OF t] crash(2)])
  have s: "sys_server s = NewServer t' (NewLordRegistry algo)"
    using crash(3) t'(1) by (simp add: system_start_def) force
  have "keeps_programs (sv_dir (sys_server (nw_sched nw))) (sv_dir (sys_server s))"
    using t'(2) by (intro keeps_durable) (auto simp: same_durable_def s NewServer_def)
  moreover have "sv_inv (sys_server s)"
    using system_start_props(1) [OF crash(3)] tbl_invD(4) [OF t] crash(2)
    by (simp add: log_fresh_def)
  moreover have "spawns (sys_server s) = {}" by (simp add: s spawns_def sess_held_def NewServer_def)
  ultimately have "net_inv (nw\<lparr>nw_sched := s, nw_wire := nw_wire nw\<rparr>)"
    by (intro net_inv_sched [OF assms(2)]) auto
  then show ?thesis unfolding crash(1) by simp
next
  case (hear h l n env)
  have "\<forall>req. nw_wire nw l ! n = Ev_Spawn req \<longrightarrow> ordered (sv_dir (sys_server (nw_sched nw))) req"
    using assms(2) nth_mem [OF hear(3)] unfolding net_inv_def by metis
  then show ?thesis
    unfolding hear(1)
    using hear(4)
    by (intro net_inv_on_machine [OF assms(2)])
      (auto simp: agent_hears_def agent_env_ok_def agent_ordered_cong [OF handle_first_frame(1)]
        case_prod_beta intro!: agent_ordered_hears)
next
  case (work h ag)
  then show ?thesis
    using agent_ordered_work by (auto intro!: net_inv_on_machine [OF assms(2)])
qed (auto intro!: net_inv_on_machine [OF assms(2)] simp: restarted_def NewAgent_def agent_ordered_def)

lemma net_inv_reachable: "net_reachable cfg algo nw \<Longrightarrow> net_inv nw"
proof (induction rule: net_reachable.induct)
  case (first clk s)
  have "reachable cfg algo s" by (rule reachable.first [OF first])
  then have "sv_inv (sys_server s)" by (rule reachable_props [THEN conjunct1])
  moreover have "sv_sessions (sys_server s) = Map.empty"
    using first by (auto simp: system_start_def NewServer_def split: option.splits)
  ultimately show ?case
    by (simp add: net_inv_def net_start_def spawns_def sess_held_def agent_ordered_def NewAgent_def)
qed (rule net_inv_step)

text \<open>The directory of the scheduler holds validated orders only.\<close>

lemma net_valid_dir: "net_reachable cfg algo nw \<Longrightarrow> valid_dir (sv_dir (sys_server (nw_sched nw)))"
proof (induction rule: net_reachable.induct)
  case (first clk s)
  then show ?case using reachable_props [OF reachable.first] by (simp add: net_start_def)
next
  case (step nw nw')
  have inv: "sv_inv (sys_server (nw_sched nw))"
    using net_inv_reachable [OF step.hyps(1)] by (simp add: net_inv_def)
  from step.hyps(2) show ?case
  proof (cases rule: net_step.cases)
    case (scheduler s)
    then show ?thesis
      using sched_step_props [OF scheduler(2) inv] evolves_valid step.IH by (auto simp: sv_evolves_def)
  next
    case (crash ls clk s)
    then show ?thesis
      using system_start_props(3) [OF crash(3)] tbl_invD(4) [OF sv_invD(1) [OF inv]]
      by (simp add: log_fresh_def)
  qed (use step.IH in \<open>simp_all add: on_machine_def\<close>)
qed

lemma ordered_valid:
  assumes "ordered d req" "valid_dir d"
  shows "sr_process_id req \<noteq> ''''" "sr_tenant_id req \<noteq> ''''" "sr_exec_path req \<noteq> ''''"
    "validateResources (sr_resources req) = None" "sr_max_restarts req \<noteq> 0"
    "map_option pi_tenant_id (d (sr_process_id req)) = Some (sr_tenant_id req)"
proof -
  obtain i where i: "d (sr_process_id req) = Some i" "launch req = launch (respawn_request i)"
    using assms(1) by (auto simp: ordered_def)
  then have "sr_process_id req \<noteq> ''''" "valid_order i" using assms(2) by (auto simp: valid_dir_def)
  then show "sr_process_id req \<noteq> ''''" "sr_tenant_id req \<noteq> ''''" "sr_exec_path req \<noteq> ''''"
    "validateResources (sr_resources req) = None" "sr_max_restarts req \<noteq> 0"
    "map_option pi_tenant_id (d (sr_process_id req)) = Some (sr_tenant_id req)"
    using i by (simp_all add: launch_def valid_order_def validateResources_None)
qed

text \<open>The variables of a launch, read as assignments.\<close>

lemma go_range_assigns:
  "set ks \<subseteq> dom m \<Longrightarrow> map (\<lambda>(k, v). k @ ''='' @ v) (go_range m ks) = map (\<lambda>k. k @ ''='' @ the (m k)) ks"
  by (induction ks) auto

lemma launch_env_assigns:
  assumes "env_order (launch_env i) ks"
  shows "let vars = (case pi_env i of None \<Rightarrow> Map.empty | Some m \<Rightarrow> m);
         wanted = (if pi_state_dump_path i = '''' then vars
                   else vars(''ETRONIUM_STATE_DUMP'' \<mapsto> pi_state_dump_path i)) in
     \<exists>ks'. distinct ks' \<and> set ks' = dom wanted \<and>
       buildEnv environ ks (launch_env i) = environ @ map (\<lambda>k. k @ ''='' @ the (wanted k)) ks'"
proof (cases "launch_env i")
  case None
  then have "pi_env i = None" "pi_state_dump_path i = ''''"
    by (auto simp: launch_env_def split: if_splits)
  then show ?thesis using None by (simp add: buildEnv_def)
next
  case (Some m)
  then have "(if pi_state_dump_path i = '''' then (case pi_env i of None \<Rightarrow> Map.empty | Some m \<Rightarrow> m)
      else (case pi_env i of None \<Rightarrow> Map.empty | Some m \<Rightarrow> m)
        (''ETRONIUM_STATE_DUMP'' \<mapsto> pi_state_dump_path i)) = m"
    by (auto simp: launch_env_def split: if_splits)
  moreover have "distinct ks" "set ks = dom m"
    using assms Some by (auto simp: env_order_def iter_order_def)
  moreover have "buildEnv environ ks (launch_env i) = environ @ map (\<lambda>k. k @ ''='' @ the (m k)) ks"
    using go_range_assigns [of ks m] calculation(3) by (simp add: buildEnv_def Some)
  ultimately show ?thesis unfolding Let_def by (intro exI [of _ ks]) simp
qed

text \<open>A life of the scheduler begins with a start: the first one, or one on the log, or a beginning of
  the log, that an earlier life has left.\<close>

definition begins :: "autoscale_config \<Rightarrow> string \<Rightarrow> system \<Rightarrow> bool" where
  "begins cfg algo s0 \<longleftrightarrow> (\<exists>clk. system_start clk F_missing algo = Some s0) \<or>
     (\<exists>s ls clk n. reachable cfg algo s \<and> pt_wal (sv_processes (sys_server s)) = Some ls \<and>
        system_start clk (F_lines (take n ls)) algo = Some s0)"

lemma begins_reachable: "begins cfg algo s0 \<Longrightarrow> reachable cfg algo s0"
  unfolding begins_def by (blast intro: reachable.first reachable.restart)

lemma begins_props:
  assumes "begins cfg algo s0"
  shows "sv_inv (sys_server s0)" "budgets_ok (sv_dir (sys_server s0))" "sv_sessions (sys_server s0) = Map.empty"
    "sv_dir (sys_server s0) q = Some j \<Longrightarrow> pi_restart_count j = 0"
proof -
  show "sv_inv (sys_server s0)" "budgets_ok (sv_dir (sys_server s0))"
    using reachable_props [OF begins_reachable [OF assms]] by blast+
  obtain clk ls where st: "system_start clk (F_lines ls) algo = Some s0" "\<forall>line\<in>set ls. fresh_line line"
    using assms unfolding begins_def
  proof (elim disjE exE conjE)
    fix clk assume "system_start clk F_missing algo = Some s0"
    then show ?thesis using that [of clk "[L_header]"] by (simp add: system_start_missing)
  next
    fix s ls clk n assume s: "reachable cfg algo s" "pt_wal (sv_processes (sys_server s)) = Some ls"
      "system_start clk (F_lines (take n ls)) algo = Some s0"
    have "\<forall>line\<in>set ls. fresh_line line"
      using tbl_invD(4) [OF sv_invD(1), of "sys_server s"] reachable_props [OF s(1)] s(2)
      by (simp add: log_fresh_def)
    then show ?thesis using that [OF s(3)] by (meson in_set_takeD)
  qed
  obtain t f' where t: "scheduler_startup_wal clk (F_lines ls) = Some (t, f')"
    "sys_server s0 = NewServer t (NewLordRegistry algo)"
    by (rule system_start_server [OF st(1)])
  show "sv_sessions (sys_server s0) = Map.empty" by (simp add: t(2) NewServer_def)
  show "sv_dir (sys_server s0) q = Some j \<Longrightarrow> pi_restart_count j = 0"
  proof -
    assume "sv_dir (sys_server s0) q = Some j"
    then have d: "dir t q = Some j" by (simp add: t(2) NewServer_def)
    show "pi_restart_count j = 0"
      by (rule startup_all [OF t(1) st(2) _ _ _ d])
        (simp_all add: fresh_info_def set_state_def set_result_def pi_set_lord_def pi_set_local_pid_def Let_def)
  qed
qed

lemma steps_order:
  assumes "(sched_step cfg)\<^sup>*\<^sup>* s s'" "sv_inv (sys_server s)"
  shows "orders (sys_server s) (sys_server s')"
  using assms(1)
proof induction
  case (step s1 s2)
  then show ?case
    using steps_evolve [OF assms(2) step(1)] sched_step_orders orders_trans by blast
qed simp

text \<open>The spawn events on their way to a lord: in its outbox, on its stream, or in a send that is late.\<close>

definition under_way :: "network \<Rightarrow> string \<Rightarrow> spawn_request set" where
  "under_way nw l = {req. Ev_Spawn req \<in> set (nw_wire nw l) \<or>
     (\<exists>s. sv_sessions (sys_server (nw_sched nw)) l = Some s \<and>
        Ev_Spawn req \<in> set (ls_outbox s) \<union> set (ls_late s))}"

lemma under_way_ordered:
  "net_reachable cfg algo nw \<Longrightarrow> req \<in> under_way nw l \<Longrightarrow> ordered (sv_dir (sys_server (nw_sched nw))) req"
proof -
  assume r: "net_reachable cfg algo nw" and "req \<in> under_way nw l"
  moreover have "req \<in> spawns (sys_server (nw_sched nw))"
    if "sv_sessions (sys_server (nw_sched nw)) l = Some s" "Ev_Spawn req \<in> set (ls_outbox s) \<union> set (ls_late s)" for s
    using that(2) sess_held_Some [OF that(1)] unfolding spawns_def
    by (intro CollectI exI [of _ l]) (auto simp: held_def spawn_msgs_mem)
  ultimately consider "Ev_Spawn req \<in> set (nw_wire nw l)" | "req \<in> spawns (sys_server (nw_sched nw))"
    unfolding under_way_def by blast
  then show "ordered (sv_dir (sys_server (nw_sched nw))) req"
    using net_inv_reachable [OF r] unfolding net_inv_def by cases blast+
qed

subsection \<open>Properties\<close>

text \<open>C5: every spawn event on its way to a lord, queued or on the stream, is well formed: it names a
  process of the directory, of the same tenant, and carries an executable, resources in the ranges that
  \<open>validateResources\<close> promises, and a limit on restarts that has been filled in; also when it restarts or moves a
  process, and after the scheduler has crashed and read its log.\<close>

theorem spawn_events_well_formed:
  assumes "net_reachable cfg algo nw" "req \<in> under_way nw l"
  shows "sr_process_id req \<noteq> '''' \<and> sr_tenant_id req \<noteq> '''' \<and> sr_exec_path req \<noteq> '''' \<and>
    validateResources (sr_resources req) = None \<and> sr_max_restarts req \<noteq> 0 \<and>
    map_option pi_tenant_id (sv_dir (sys_server (nw_sched nw)) (sr_process_id req)) = Some (sr_tenant_id req)"
  using ordered_valid [OF under_way_ordered [OF assms] net_valid_dir [OF assms(1)]] by blast

text \<open>C4: every process that runs on a machine is in the directory of the scheduler, and runs the
  executable with the arguments and the directory that its tenant asked for there, in the environment
  of the agent followed by the variables that the tenant asked for, each once, and the path of
  its state dump; whatever the lords report, however messages interleave, and even when streams
  break, agents start anew, or the scheduler crashes and starts again on its log.\<close>

theorem running_was_ordered:
  assumes "net_reachable cfg algo nw" "ag_procs (mc_agent (nw_machine nw h)) p = Some lp"
  shows "\<exists>i. sv_dir (sys_server (nw_sched nw)) p = Some i \<and>
    loc_execPath lp = pi_exec_path i \<and> loc_argv lp = pi_argv i \<and> loc_dir lp = pi_working_dir i \<and>
    (let vars = (case pi_env i of None \<Rightarrow> Map.empty | Some m \<Rightarrow> m);
         wanted = (if pi_state_dump_path i = '''' then vars
                   else vars(''ETRONIUM_STATE_DUMP'' \<mapsto> pi_state_dump_path i)) in
     \<exists>ks. distinct ks \<and> set ks = dom wanted \<and>
       loc_env lp = mc_environ (nw_machine nw h) @ map (\<lambda>k. k @ ''='' @ the (wanted k)) ks)"
proof -
  have "runs_ordered (mc_environ (nw_machine nw h)) (sv_dir (sys_server (nw_sched nw))) p lp"
    using net_inv_reachable [OF assms(1)] assms(2) by (simp add: net_inv_def agent_ordered_def)
  then obtain i ks where i: "sv_dir (sys_server (nw_sched nw)) p = Some i" "loc_execPath lp = pi_exec_path i"
    "loc_argv lp = pi_argv i" "loc_dir lp = pi_working_dir i" "env_order (launch_env i) ks"
    "loc_env lp = buildEnv (mc_environ (nw_machine nw h)) ks (launch_env i)"
    by (auto simp: runs_ordered_def)
  show ?thesis
    using i(1-4) launch_env_assigns [OF i(5)] i(6) by (intro exI [of _ i]) simp
qed

text \<open>C8: while the scheduler runs, that is from one start to any later moment before the next crash, no
  process is restarted more often than its limit allows: the spawn events for it that the connected
  lords were sent or have queued are at most the restarts it counts (and one more when it was created in
  this life), and those are within the limit. But every start begins to count from zero, because a
  restart is not written to the log: after a crash a process may use up its limit again.\<close>

theorem restarts_within_limit:
  assumes "begins cfg algo s0" "(sched_step cfg)\<^sup>*\<^sup>* s0 s" "sv_dir (sys_server s) p = Some i"
    and "0 \<le> sint (pi_max_restarts i)" "finite L"
  shows "0 \<le> sint (pi_restart_count i) \<and> sint (pi_restart_count i) \<le> sint (pi_max_restarts i) \<and>
    int (told p L (sys_server s)) \<le>
      sint (pi_restart_count i) + (if sv_dir (sys_server s0) p = None then 1 else 0) \<and>
    (\<forall>q j. sv_dir (sys_server s0) q = Some j \<longrightarrow> pi_restart_count j = 0)"
proof -
  note start = begins_props [OF assms(1)]
  have "orders (sys_server s0) (sys_server s)"
    by (rule steps_order [OF assms(2) start(1)])
  then have o: "evolves (sv_dir (sys_server s0)) (sv_dir (sys_server s))"
    "counted (sys_server s0) (sys_server s)"
    by (simp_all add: orders_def sv_evolves_def)
  have b: "within_budget i"
    using evolves_budgets [OF o(1) start(2)] assms(3) by (auto simp: budgets_ok_def)
  have "told p L (sys_server s0) = 0" by (simp add: told_def sess_held_def start(3))
  moreover have "limited (sv_dir (sys_server s)) p" using assms(3,4) by (simp add: limited_def)
  ultimately have "told p L (sys_server s) + due (sv_dir (sys_server s0)) p \<le> due (sv_dir (sys_server s)) p"
    using o(2) start(2) assms(5) unfolding counted_def by (metis add_0)
  moreover have "due (sv_dir (sys_server s0)) p = (if sv_dir (sys_server s0) p = None then 0 else 1)"
    using start(4) by (auto simp: due_def split: option.split)
  ultimately show ?thesis
    using b assms(3,4) start(4) by (auto simp: due_def within_budget_def split: if_splits)
qed

subsection \<open>The property on a run\<close>

lemma handle_first_ack: "fst (handle_first env (Ev_RegisterAck l n) ag) = None"
  by (auto simp: handle_first_def Let_def split: sum.split prod.split)

text \<open>A round of the send loop puts the oldest event on the wire.\<close>

lemma net_send:
  assumes "net_reachable cfg algo nw" "sv_sessions (sys_server (nw_sched nw)) l = Some s"
    "ls_outbox s = ev # evs"
  obtains nw' s' where "net_reachable cfg algo nw'" "nw_machine nw' = nw_machine nw"
    "sv_dir (sys_server (nw_sched nw')) = sv_dir (sys_server (nw_sched nw))"
    "sv_sessions (sys_server (nw_sched nw')) l = Some s'" "ls_outbox s' = evs"
    "ls_sent s' = ls_sent s @ [ev]" "nw_wire nw' l = ls_sent s @ [ev]"
proof -
  let ?f = "\<lambda>s. snd (sendLoop_step Sent s)"
  let ?s' = "s\<lparr>ls_outbox := evs, ls_sent := ls_sent s @ [ev]\<rparr>"
  let ?s = "(nw_sched nw)\<lparr>sys_server := on_session l ?f (sys_server (nw_sched nw))\<rparr>"
  let ?nw = "nw\<lparr>nw_sched := ?s, nw_wire := carry (sys_server ?s) (nw_wire nw)\<rparr>"
  have sess: "sv_sessions (sys_server ?s) l = Some ?s'"
    using assms(2,3) by (simp add: on_session_def sendLoop_step_def outbox_pop_def)
  have "net_step cfg algo nw ?nw"
    by (intro net_step.scheduler sched_step.serve server_step.send [OF assms(2)])
  then have "net_reachable cfg algo ?nw" by (rule net_reachable.step [OF assms(1)])
  then show ?thesis using sess by (intro that [of ?nw ?s']) (simp_all add: carry_def)
qed

text \<open>A spawn that is queued behind the acknowledgement can run on any fresh machine.\<close>

lemma net_delivers:
  assumes "net_reachable cfg algo nw" "sv_sessions (sys_server (nw_sched nw)) l = Some s"
    "ls_outbox s = [Ev_RegisterAck l k, Ev_Spawn req]" "ls_sent s = []"
    "mc_agent (nw_machine nw h) = NewAgent" "sr_process_id req \<noteq> ''''" "ax_start env = Started_as pid"
    "ax_environ env = mc_environ (nw_machine nw h)" "env_order (sr_env req) (ax_envOrder env)"
  obtains nw' where "net_reachable cfg algo nw'"
    "sv_dir (sys_server (nw_sched nw')) = sv_dir (sys_server (nw_sched nw))"
    "ag_procs (mc_agent (nw_machine nw' h)) = [sr_process_id req \<mapsto> new_local_process env req pid]"
    "mc_environ (nw_machine nw' h) = mc_environ (nw_machine nw h)"
proof -
  obtain n1 s1 where 1: "net_reachable cfg algo n1" "nw_machine n1 = nw_machine nw"
    "sv_dir (sys_server (nw_sched n1)) = sv_dir (sys_server (nw_sched nw))"
    "sv_sessions (sys_server (nw_sched n1)) l = Some s1" "ls_outbox s1 = [Ev_Spawn req]"
    "ls_sent s1 = [Ev_RegisterAck l k]"
    by (rule net_send [OF assms(1-3)]) (use assms(4) in auto)
  obtain n2 s2 where 2: "net_reachable cfg algo n2" "nw_machine n2 = nw_machine nw"
    "sv_dir (sys_server (nw_sched n2)) = sv_dir (sys_server (nw_sched nw))"
    "sv_sessions (sys_server (nw_sched n2)) l = Some s2"
    "nw_wire n2 l = [Ev_RegisterAck l k, Ev_Spawn req]"
    by (rule net_send [OF 1(1,4,5)]) (use 1(2,3,6) in auto)
  let ?n3 = "on_machine h (\<lambda>m. m\<lparr>mc_stream := Some (l, 0)\<rparr>) n2"
  let ?n4 = "on_machine h (agent_hears env l 0 (Ev_RegisterAck l k)) ?n3"
  let ?n5 = "on_machine h (agent_hears env l 1 (Ev_Spawn req)) ?n4"
  have 3: "net_reachable cfg algo ?n3" by (rule net_reachable.step [OF 2(1) net_step.dial [OF 2(4)]])
  have "net_step cfg algo ?n3 (on_machine h (agent_hears env l 0 (nw_wire ?n3 l ! 0)) ?n3)"
    by (rule net_step.hear) (simp_all add: on_machine_def 2(5) 1(2) 2(2) agent_env_ok_def assms(8))
  then have 4: "net_reachable cfg algo ?n4"
    using net_reachable.step [OF 3] by (simp add: on_machine_def 2(5))
  have st: "mc_stream (nw_machine ?n4 h) = Some (l, 1)"
    using handle_first_ack by (simp add: on_machine_def agent_hears_def case_prod_beta)
  have "net_step cfg algo ?n4 (on_machine h (agent_hears env l 1 (nw_wire ?n4 l ! 1)) ?n4)"
    by (rule net_step.hear [OF st])
      (simp_all add: on_machine_def 2(5) 1(2) 2(2) agent_env_ok_def assms(8,9) agent_hears_def case_prod_beta)
  then have 5: "net_reachable cfg algo ?n5"
    using net_reachable.step [OF 4] by (simp add: on_machine_def 2(5))
  let ?ag = "snd (handle_first env (Ev_RegisterAck l k) NewAgent)"
  have "mc_agent (nw_machine ?n5 h) = snd (handleSpawn env req ?ag)"
    by (simp add: on_machine_def agent_hears_def handleEvent_def case_prod_beta 2(2) assms(5))
  moreover have "ag_procs (snd (handleSpawn env req ?ag)) =
      [sr_process_id req \<mapsto> new_local_process env req pid]"
    using assms(6,7) by (simp add: handleSpawn_def handle_first_frame NewAgent_def Let_def)
  ultimately show ?thesis
    using 2(3) by (intro that [OF 5])
      (simp_all add: on_machine_def agent_hears_def case_prod_beta 1(2) 2(2))
qed

lemma run1_session:
  "sv_sessions (sys_server run1) ''L'' = Some ((newLordSession ''L'')\<lparr>ls_outbox := [Ev_RegisterAck ''L'' 10]\<rparr>)"
  using Connect_start_nameless(3) [of run_register "run_env ''L'' []" "sys_server run0"]
  by (simp add: run1_def run_register_def run_env_simps)

lemma run2_session_events:
  "\<exists>s req. sv_sessions (sys_server run2) ''L'' = Some s \<and>
     ls_outbox s = [Ev_RegisterAck ''L'' 10, Ev_Spawn req] \<and> ls_sent s = [] \<and>
     sr_process_id req = ''p9'' \<and> sr_env req = Some [''ETRONIUM_STATE_DUMP'' \<mapsto> ''/s/a.json'']"
proof -
  obtain sv' where sp: "Spawn (run_env ''p9'' [''L'']) demo_spawn (sys_server run1) =
      (Inr (spawn_info (run_env ''p9'' [''L'']) ''L'' demo_spawn), sv')"
    using run2_Spawn by blast
  show ?thesis
    using sp
  proof (cases rule: Spawn_cases)
    case (spawned l sv1)
    have inv: "pt_inv (sv_processes (sys_server run1))" by (simp add: run1_tables run_inv)
    have l: "l_lord_id l = ''L''"
      using arg_cong [OF spawned(7), of "\<lambda>x. pi_lord_id (projr x)"]
      by (simp add: spawned(5) info_at_Create [OF inv])
    let ?req = "buildSpawnRequest (spawn_info (run_env ''p9'' [''L'']) ''L'' demo_spawn) demo_spawn"
    have "sv_sessions sv1 ''L'' = Some ((newLordSession ''L'')\<lparr>ls_outbox := [Ev_RegisterAck ''L'' 10]\<rparr>)"
      by (simp add: spawned(5) run1_session)
    then have "sv_sessions sv' ''L'' =
        Some ((newLordSession ''L'')\<lparr>ls_outbox := [Ev_RegisterAck ''L'' 10, Ev_Spawn ?req]\<rparr>)"
      using spawned(6) unfolding l
      by (auto simp: SendSpawn_def getSession_def outbox_send5_room outbox_cap_def)
    moreover have "sys_server run2 = sv'" by (simp add: run2_def sp)
    moreover have "sr_process_id ?req = ''p9''"
      by (simp add: buildSpawnRequest_def Let_def run_env_simps)
    moreover have "sr_env ?req = Some [''ETRONIUM_STATE_DUMP'' \<mapsto> ''/s/a.json'']"
      by (simp add: buildSpawnRequest_def Let_def spawn_info_def demo_spawn_def zero_spawn_request_def copyMap_def)
    ultimately show ?thesis by (simp add: newLordSession_def)
  qed simp_all
qed

text \<open>Machines whose agents have one variable in their environment.\<close>

definition demo_environs :: "nat \<Rightarrow> string list" where
  "demo_environs h = [''HOME=/'']"

abbreviation net0 :: network where
  "net0 \<equiv> net_start demo_environs run0"

lemma run2_net: "\<exists>nw. net_reachable cfg ''trivial'' nw \<and> nw_sched nw = run2 \<and> nw_machine nw = nw_machine net0"
proof -
  note 0 = net_reachable.first [OF run0_start, of cfg demo_environs]
  have 1: "net_step cfg ''trivial'' net0
      (net0\<lparr>nw_sched := run1, nw_wire := carry (sys_server run1) (nw_wire net0)\<rparr>)"
    by (rule net_step.scheduler) (simp add: net_start_def run1_step)
  let ?n1 = "net0\<lparr>nw_sched := run1, nw_wire := carry (sys_server run1) (nw_wire net0)\<rparr>"
  have 2: "net_step cfg ''trivial'' ?n1 (?n1\<lparr>nw_sched := run2, nw_wire := carry (sys_server run2) (nw_wire ?n1)\<rparr>)"
    by (rule net_step.scheduler) (simp add: run2_step)
  show ?thesis
    by (rule exI, rule conjI, rule net_reachable.step [OF net_reachable.step [OF 0 1] 2]) simp
qed

theorem spawn_events_well_formed_witness:
  "\<exists>nw req. net_reachable demo_cfg ''trivial'' nw \<and> req \<in> under_way nw ''L'' \<and>
     sr_process_id req = ''p9'' \<and> sr_exec_path req \<noteq> '''' \<and> sr_max_restarts req \<noteq> 0"
proof -
  obtain nw where nw: "net_reachable demo_cfg ''trivial'' nw" "nw_sched nw = run2"
    using run2_net by blast
  obtain s req where s: "sv_sessions (sys_server run2) ''L'' = Some s"
    "ls_outbox s = [Ev_RegisterAck ''L'' 10, Ev_Spawn req]" "sr_process_id req = ''p9''"
    using run2_session_events by blast
  then have "req \<in> under_way nw ''L''" by (simp add: under_way_def nw(2))
  with spawn_events_well_formed [OF nw(1) this] show ?thesis using nw(1) s(3) by blast
qed

theorem running_was_ordered_witness:
  "\<exists>nw lp. net_reachable demo_cfg ''trivial'' nw \<and> ag_procs (mc_agent (nw_machine nw 3)) ''p9'' = Some lp \<and>
     loc_execPath lp = ''/bin/ls'' \<and> loc_env lp = [''HOME=/'', ''ETRONIUM_STATE_DUMP=/s/a.json'']"
proof -
  let ?ax = "demo_ax\<lparr>ax_envOrder := [''ETRONIUM_STATE_DUMP'']\<rparr>"
  obtain n2 where 2: "net_reachable demo_cfg ''trivial'' n2" "nw_sched n2 = run2"
    "nw_machine n2 = nw_machine net0"
    using run2_net by blast
  obtain s req where s: "sv_sessions (sys_server (nw_sched n2)) ''L'' = Some s"
    "ls_outbox s = [Ev_RegisterAck ''L'' 10, Ev_Spawn req]" "ls_sent s = []" "sr_process_id req = ''p9''"
    "sr_env req = Some [''ETRONIUM_STATE_DUMP'' \<mapsto> ''/s/a.json'']"
    using run2_session_events 2(2) by auto
  have m: "mc_agent (nw_machine n2 3) = NewAgent" "sr_process_id req \<noteq> ''''" "ax_start ?ax = Started_as 7"
    "ax_environ ?ax = mc_environ (nw_machine n2 3)" "env_order (sr_env req) (ax_envOrder ?ax)"
    "mc_environ (nw_machine n2 3) = [''HOME=/'']"
    by (simp_all add: 2(3) net_start_def s(4,5) demo_ax_def demo_environs_def env_order_def iter_order_def)
  obtain nw where nw: "net_reachable demo_cfg ''trivial'' nw"
    "sv_dir (sys_server (nw_sched nw)) = sv_dir (sys_server run2)"
    "ag_procs (mc_agent (nw_machine nw 3)) ''p9'' = Some (new_local_process ?ax req 7)"
    "mc_environ (nw_machine nw 3) = [''HOME=/'']"
    by (rule net_delivers [OF 2(1) s(1-3) m(1-5)]) (use s(4) 2(2) m(6) in auto)
  let ?i = "spawn_info (run_env ''p9'' [''L'']) ''L'' demo_spawn"
  have i: "sv_dir (sys_server (nw_sched nw)) ''p9'' = Some ?i" by (simp add: nw(2) run2_dir)
  have j: "pi_exec_path ?i = ''/bin/ls''" "pi_env ?i = None" "pi_state_dump_path ?i = ''/s/a.json''"
    by (simp_all add: spawn_info_def demo_spawn_def zero_spawn_request_def copyMap_def)
  have one: "ks = [k]" if "distinct ks" "set ks = {k}" for ks and k :: string
    using that by (cases ks) (auto simp: subset_singleton_iff)
  have w: "loc_execPath (new_local_process ?ax req 7) = ''/bin/ls'' \<and>
      (\<exists>ks. distinct ks \<and> set ks = {''ETRONIUM_STATE_DUMP''} \<and>
        loc_env (new_local_process ?ax req 7) = [''HOME=/''] @ map (\<lambda>k. k @ ''=/s/a.json'') ks)"
  proof -
    from running_was_ordered [OF nw(1,3)] obtain i' ks where *: "?i = i'"
      "loc_execPath (new_local_process ?ax req 7) = pi_exec_path i'" "distinct ks"
      "set ks = dom (if pi_state_dump_path i' = '''' then case pi_env i' of None \<Rightarrow> Map.empty | Some m \<Rightarrow> m
         else (case pi_env i' of None \<Rightarrow> Map.empty | Some m \<Rightarrow> m)(''ETRONIUM_STATE_DUMP'' \<mapsto> pi_state_dump_path i'))"
      "loc_env (new_local_process ?ax req 7) = [''HOME=/''] @ map (\<lambda>k. k @ ''='' @ the
         ((if pi_state_dump_path i' = '''' then case pi_env i' of None \<Rightarrow> Map.empty | Some m \<Rightarrow> m
         else (case pi_env i' of None \<Rightarrow> Map.empty | Some m \<Rightarrow> m)(''ETRONIUM_STATE_DUMP'' \<mapsto> pi_state_dump_path i')) k)) ks"
      unfolding i nw(4) Let_def option.inject by (elim exE conjE)
    have d: "pi_exec_path i' = ''/bin/ls''" "pi_env i' = None" "pi_state_dump_path i' = ''/s/a.json''"
      using j unfolding *(1) by simp_all
    have ks: "ks = [''ETRONIUM_STATE_DUMP'']" by (rule one [OF *(3)]) (use *(4) d in simp)
    show ?thesis using *(2,5) by (intro conjI exI [of _ ks]) (simp_all add: d ks)
  qed
  then obtain ks where "distinct ks" "set ks = {''ETRONIUM_STATE_DUMP''}"
    "loc_env (new_local_process ?ax req 7) = [''HOME=/''] @ map (\<lambda>k. k @ ''=/s/a.json'') ks"
    by blast
  with one have "loc_env (new_local_process ?ax req 7) = [''HOME=/'', ''ETRONIUM_STATE_DUMP=/s/a.json'']"
    by fastforce
  with w nw(1,3) show ?thesis by blast
qed

theorem restarts_within_limit_witness:
  "\<exists>i. sv_dir (sys_server run2) ''p9'' = Some i \<and> sint (pi_restart_count i) \<le> sint (pi_max_restarts i) \<and>
     told ''p9'' {''L''} (sys_server run2) \<le> 1"
proof -
  let ?i = "spawn_info (run_env ''p9'' [''L'']) ''L'' demo_spawn"
  have b: "begins demo_cfg ''trivial'' run0" using run0_start by (auto simp: begins_def)
  have st: "(sched_step demo_cfg)\<^sup>*\<^sup>* run0 run2"
    using run1_step run2_step by (meson converse_rtranclp_into_rtranclp rtranclp.rtrancl_refl)
  have i: "sv_dir (sys_server run2) ''p9'' = Some ?i" by (simp add: run2_dir)
  have c: "0 \<le> sint (pi_max_restarts ?i)" "pi_restart_count ?i = 0"
    by (simp_all add: spawn_info_def demo_spawn_def zero_spawn_request_def zero_process_info_def)
  from restarts_within_limit [OF b st i c(1), of "{''L''}"] show ?thesis
    using i c(2) by (auto split: if_splits)
qed

end
