(* ===== verification/Lord_Run.thy ===== *)
theory Lord_Run
  imports Lord_Agent
begin

section \<open>The connections of an agent (Run, runOnce, sendLoop and recvLoop of agent.go)\<close>

text \<open>
  \<open>Run\<close> calls \<open>runOnce\<close> for one stream after the other, with a growing pause between them.
  Each stream has a goroutine that sends, one that receives, and, once the registration has been
  sent, one for the heartbeats. All of them watch \<open>shutdownCtx\<close>, and the receiver waits for its heartbeat
  goroutine (\<open>hbDone\<close>) before it hands on its result. The state keeps the context, which only
  \<open>shutdownCancel\<close> would end, and the goroutines of all streams, because they outlive them.
  Every goroutine takes from or adds to the one outbox of the agent. When \<open>Run\<close> returns the
  program ends, and with it every goroutine.
\<close>

subsection \<open>State\<close>

datatype sender = Sending | Sender_ended go_error

text \<open>
  A receiver that fails after the registration has its result and waits for \<open>hbDone\<close>; while it drains
  the processes, with a grace period and a deadline, it reads nothing.
\<close>

datatype receiver = Registering | Awaiting_ack | Receiving | Draining i32 time
  | Receiver_waiting "go_error option" | Receiver_ended "go_error option"

record connection =
  cx_sender :: sender
  cx_receiver :: receiver
  cx_beating :: bool                \<comment> \<open>the heartbeat goroutine runs; \<open>hbDone\<close> is closed when it ends\<close>
  cx_wire :: "lord_cmd list"        \<comment> \<open>what was sent on the stream\<close>
  cx_broken :: bool                 \<comment> \<open>the stream is over, and \<open>Send\<close> says so\<close>
  cx_closed :: bool

datatype run_phase = Dialling | Serving nat | Pausing | Returned

record lord_run =
  rn_phase :: run_phase
  rn_attempt :: nat
  rn_backoff :: duration
  rn_shutdown :: bool               \<comment> \<open>\<open>shutdownCtx\<close> is cancelled\<close>
  rn_exiting :: bool                \<comment> \<open>a drain is over, and \<open>os.Exit\<close> is under way\<close>
  rn_agent :: agent
  rn_conns :: "connection list"     \<comment> \<open>the streams so far, in order\<close>

definition run_start :: lord_run where
  "run_start = \<lparr>rn_phase = Dialling, rn_attempt = 0, rn_backoff = initialBackoff, rn_shutdown = False,
     rn_exiting = False, rn_agent = NewAgent, rn_conns = []\<rparr>"

definition canceled :: go_error where
  "canceled = Errorf ''context canceled''"

definition on_conn :: "nat \<Rightarrow> (connection \<Rightarrow> connection) \<Rightarrow> lord_run \<Rightarrow> lord_run" where
  "on_conn i f r = r\<lparr>rn_conns := (rn_conns r)[i := f (rn_conns r ! i)]\<rparr>"

definition set_receiver :: "nat \<Rightarrow> receiver \<Rightarrow> lord_run \<Rightarrow> lord_run" where
  "set_receiver i x = on_conn i (\<lambda>c. c\<lparr>cx_receiver := x\<rparr>)"

subsection \<open>Operations\<close>

text \<open>\<open>runOnce\<close> up to its select: the stream is open and both goroutines run.\<close>

definition run_dialled :: "lord_run \<Rightarrow> lord_run" where
  "run_dialled r = r\<lparr>rn_phase := Serving (length (rn_conns r)),
     rn_conns := rn_conns r @ [\<lparr>cx_sender = Sending, cx_receiver = Registering, cx_beating = False,
       cx_wire = [], cx_broken = False, cx_closed = False\<rparr>]\<rparr>"

text \<open>\<open>runOnce\<close> has returned: the attempt is counted and \<open>Run\<close> pauses.\<close>

definition run_lost :: "lord_run \<Rightarrow> lord_run" where
  "run_lost r = r\<lparr>rn_phase := Pausing, rn_attempt := rn_attempt r + 1\<rparr>"

text \<open>The select of \<open>runOnce\<close>: it returns what the sender or the receiver of its stream ended with,
  and closes the connection.\<close>

definition loop_over :: "connection \<Rightarrow> bool" where
  "loop_over c \<longleftrightarrow>
     (case cx_sender c of Sender_ended err \<Rightarrow> True | _ \<Rightarrow> False) \<or>
     (case cx_receiver c of Receiver_ended err \<Rightarrow> True | _ \<Rightarrow> False)"

definition run_close :: "nat \<Rightarrow> lord_run \<Rightarrow> lord_run" where
  "run_close i r = run_lost (on_conn i (\<lambda>c. c\<lparr>cx_closed := True\<rparr>) r)"

definition run_resume :: "lord_run \<Rightarrow> lord_run" where
  "run_resume r = r\<lparr>rn_phase := Dialling, rn_backoff := next_backoff (rn_backoff r)\<rparr>"

text \<open>A round of \<open>sendLoop\<close> on the i-th stream; a message that is not sent is gone.\<close>

definition run_send :: "nat \<Rightarrow> string option \<Rightarrow> lord_run \<Rightarrow> lord_run" where
  "run_send i sendErr r =
     (case agent_sendLoop_step sendErr (rn_agent r) of ((sent, err), ag) \<Rightarrow>
        on_conn i (\<lambda>c. c\<lparr>cx_wire := cx_wire c @ (case sent of None \<Rightarrow> [] | Some cmd \<Rightarrow> [cmd]),
            cx_sender := (case err of None \<Rightarrow> cx_sender c | Some e \<Rightarrow> Sender_ended e)\<rparr>)
          (r\<lparr>rn_agent := ag\<rparr>))"

text \<open>The start of \<open>recvLoop\<close>: the registration is sent, and the heartbeat goroutine starts.\<close>

definition run_register :: "nat \<Rightarrow> register_request \<Rightarrow> string option \<Rightarrow> lord_run \<Rightarrow> lord_run" where
  "run_register i hw sendErr r =
     (case sendErr of
        Some err \<Rightarrow> set_receiver i (Receiver_ended (Some (Errorf (''send register: '' @ err)))) r
      | None \<Rightarrow> on_conn i (\<lambda>c. c\<lparr>cx_wire := cx_wire c @ [Cmd_Register hw], cx_beating := True,
            cx_receiver := Awaiting_ack\<rparr>) r)"

text \<open>What the receiver reads: nothing but an acknowledgement at first; an error ends the loop, and the end of
  the stream (None) ends it without one. The first drain makes it wait.\<close>

definition run_receive :: "nat \<Rightarrow> ag_env \<Rightarrow> string option + lord_event \<Rightarrow> lord_run \<Rightarrow> lord_run" where
  "run_receive i env got r =
     (case got of
        Inl err \<Rightarrow> set_receiver i (Receiver_waiting
          (if cx_receiver (rn_conns r ! i) = Awaiting_ack
           then Some (Errorf (''recv register ack: '' @ (case err of None \<Rightarrow> ''EOF'' | Some e \<Rightarrow> e)))
           else map_option Errorf err)) r
      | Inr ev \<Rightarrow>
          if cx_receiver (rn_conns r ! i) = Awaiting_ack then
            (case handle_first env ev (rn_agent r) of
               (None, ag) \<Rightarrow> set_receiver i Receiving (r\<lparr>rn_agent := ag\<rparr>)
             | (Some err, ag) \<Rightarrow> set_receiver i (Receiver_waiting (Some err)) (r\<lparr>rn_agent := ag\<rparr>))
          else
            (case ev of
               Ev_SetDrain grace reason \<Rightarrow>
                 (case drain_start env grace (rn_agent r) of
                    (None, ag) \<Rightarrow> r\<lparr>rn_agent := ag\<rparr>
                  | (Some deadline, ag) \<Rightarrow> set_receiver i (Draining grace deadline) (r\<lparr>rn_agent := ag\<rparr>))
             | _ \<Rightarrow> r\<lparr>rn_agent := snd (handleEvent env ev (rn_agent r))\<rparr>))"

text \<open>The end of the drain: it starts the goroutine that ends the program, and the loop goes on.\<close>

definition run_drained :: "nat \<Rightarrow> ag_env \<Rightarrow> i32 \<Rightarrow> lord_run \<Rightarrow> lord_run" where
  "run_drained i env grace r = set_receiver i Receiving
     (r\<lparr>rn_agent := snd (drain_finish env grace (rn_agent r)), rn_exiting := True\<rparr>)"

text \<open>\<open>Run\<close> returns, or the program exits. It does not call \<open>shutdownCancel\<close>.\<close>

definition run_return :: "lord_run \<Rightarrow> lord_run" where
  "run_return r = r\<lparr>rn_phase := Returned\<rparr>"

subsection \<open>Steps\<close>

text \<open>
  \<open>stream_over\<close> is the network: from then on \<open>Send\<close> fails, while \<open>Recv\<close> may first return what has
  arrived. The cases with \<open>rn_shutdown\<close> are those of the selects on \<open>shutdownCtx\<close>.
\<close>

inductive run_move :: "lord_run \<Rightarrow> lord_run \<Rightarrow> bool" where
  dial_failed: "rn_phase r = Dialling \<Longrightarrow> run_move r (run_lost r)"
| dialled: "rn_phase r = Dialling \<Longrightarrow> \<not> rn_shutdown r \<Longrightarrow> run_move r (run_dialled r)"
| stream_over: "i < length (rn_conns r) \<Longrightarrow> run_move r (on_conn i (\<lambda>c. c\<lparr>cx_broken := True\<rparr>) r)"
| send: "i < length (rn_conns r) \<Longrightarrow> cx_sender (rn_conns r ! i) = Sending \<Longrightarrow>
    ag_outbox (rn_agent r) \<noteq> [] \<Longrightarrow> cx_broken (rn_conns r ! i) \<or> cx_closed (rn_conns r ! i) \<longrightarrow> sendErr \<noteq> None \<Longrightarrow>
    run_move r (run_send i sendErr r)"
| send_cancelled: "i < length (rn_conns r) \<Longrightarrow> cx_sender (rn_conns r ! i) = Sending \<Longrightarrow> rn_shutdown r \<Longrightarrow>
    run_move r (on_conn i (\<lambda>c. c\<lparr>cx_sender := Sender_ended canceled\<rparr>) r)"
| register: "i < length (rn_conns r) \<Longrightarrow> cx_receiver (rn_conns r ! i) = Registering \<Longrightarrow>
    cx_broken (rn_conns r ! i) \<or> cx_closed (rn_conns r ! i) \<longrightarrow> sendErr \<noteq> None \<Longrightarrow>
    run_move r (run_register i hw sendErr r)"
| receive: "i < length (rn_conns r) \<Longrightarrow> cx_receiver (rn_conns r ! i) \<in> {Awaiting_ack, Receiving} \<Longrightarrow>
    run_move r (run_receive i env got r)"
| receive_cancelled: "i < length (rn_conns r) \<Longrightarrow> cx_receiver (rn_conns r ! i) = Receiving \<Longrightarrow> rn_shutdown r \<Longrightarrow>
    run_move r (set_receiver i (Receiver_waiting (Some canceled)) r)"
| drained: "i < length (rn_conns r) \<Longrightarrow> cx_receiver (rn_conns r ! i) = Draining grace deadline \<Longrightarrow>
    \<not> drain_waits env deadline (rn_agent r) \<Longrightarrow> run_move r (run_drained i env grace r)"
| hb_done: "i < length (rn_conns r) \<Longrightarrow> cx_receiver (rn_conns r ! i) = Receiver_waiting err \<Longrightarrow>
    \<not> cx_beating (rn_conns r ! i) \<Longrightarrow> run_move r (set_receiver i (Receiver_ended err) r)"
| beat: "i < length (rn_conns r) \<Longrightarrow> cx_beating (rn_conns r ! i) \<Longrightarrow>
    length (ag_outbox (rn_agent r)) < outbox_size \<Longrightarrow>
    run_move r (r\<lparr>rn_agent := sendHeartbeat env (rn_agent r)\<rparr>)"
| beat_cancelled: "i < length (rn_conns r) \<Longrightarrow> cx_beating (rn_conns r ! i) \<Longrightarrow> rn_shutdown r \<Longrightarrow>
    run_move r (on_conn i (\<lambda>c. c\<lparr>cx_beating := False\<rparr>) r)"
| child: "run_move r (r\<lparr>rn_agent := child_exited env k oc (rn_agent r)\<rparr>)"
| pump: "run_move r (r\<lparr>rn_agent := fold ag_send (pumpStream p str reads) (rn_agent r)\<rparr>)"
| lost: "rn_phase r = Serving i \<Longrightarrow> loop_over (rn_conns r ! i) \<Longrightarrow> run_move r (run_close i r)"
| resume: "rn_phase r = Pausing \<Longrightarrow> run_move r (run_resume r)"
| pause_cancelled: "rn_phase r = Pausing \<Longrightarrow> rn_shutdown r \<Longrightarrow> run_move r (run_return r)"
| cancel: "run_move r (run_return r)"
| exit: "rn_exiting r \<Longrightarrow> run_move r (run_return r)"

text \<open>Nothing goes on once the program has ended.\<close>

definition run_step :: "lord_run \<Rightarrow> lord_run \<Rightarrow> bool" where
  "run_step r r' \<longleftrightarrow> rn_phase r \<noteq> Returned \<and> run_move r r'"

inductive run_reachable :: "lord_run \<Rightarrow> bool" where
  start: "run_reachable run_start"
| step: "run_reachable r \<Longrightarrow> run_step r r' \<Longrightarrow> run_reachable r'"

subsection \<open>The goroutines over time\<close>

lemma on_conn_frame [frame_simps, simp]:
  "rn_phase (on_conn i f r) = rn_phase r" "rn_attempt (on_conn i f r) = rn_attempt r"
  "rn_backoff (on_conn i f r) = rn_backoff r" "rn_agent (on_conn i f r) = rn_agent r"
  "rn_shutdown (on_conn i f r) = rn_shutdown r" "length (rn_conns (on_conn i f r)) = length (rn_conns r)"
  by (simp_all add: on_conn_def)

lemma on_conn_nth:
  "k < length (rn_conns r) \<Longrightarrow>
     rn_conns (on_conn i f r) ! k = (if k = i then f (rn_conns r ! k) else rn_conns r ! k)"
  by (simp add: on_conn_def nth_list_update)

lemma set_receiver_simps [frame_simps, simp]:
  "rn_phase (set_receiver i x r) = rn_phase r" "rn_attempt (set_receiver i x r) = rn_attempt r"
  "rn_backoff (set_receiver i x r) = rn_backoff r" "rn_agent (set_receiver i x r) = rn_agent r"
  "rn_shutdown (set_receiver i x r) = rn_shutdown r"
  "length (rn_conns (set_receiver i x r)) = length (rn_conns r)"
  by (simp_all add: set_receiver_def)

lemma run_send_simps:
  "rn_phase (run_send i e r) = rn_phase r" "rn_attempt (run_send i e r) = rn_attempt r"
  "rn_backoff (run_send i e r) = rn_backoff r" "rn_shutdown (run_send i e r) = rn_shutdown r"
  "length (rn_conns (run_send i e r)) = length (rn_conns r)"
  "rn_agent (run_send i e r) = snd (agent_sendLoop_step e (rn_agent r))"
  by (simp_all add: run_send_def case_prod_beta)

lemma run_register_simps:
  "rn_phase (run_register i hw e r) = rn_phase r" "rn_attempt (run_register i hw e r) = rn_attempt r"
  "rn_backoff (run_register i hw e r) = rn_backoff r" "rn_shutdown (run_register i hw e r) = rn_shutdown r"
  "length (rn_conns (run_register i hw e r)) = length (rn_conns r)"
  by (simp_all add: run_register_def split: option.split)

lemma run_receive_simps:
  "rn_phase (run_receive i env got r) = rn_phase r" "rn_attempt (run_receive i env got r) = rn_attempt r"
  "rn_backoff (run_receive i env got r) = rn_backoff r"
  "rn_shutdown (run_receive i env got r) = rn_shutdown r"
  "length (rn_conns (run_receive i env got r)) = length (rn_conns r)"
  by (auto simp: run_receive_def split: sum.split prod.split option.split lord_event.split)

lemmas run_simps = run_send_simps run_register_simps run_receive_simps run_lost_def run_dialled_def
  run_resume_def run_close_def run_drained_def run_return_def

text \<open>The receiver after it has sent the registration, until it hands on its result.\<close>

definition registered :: "connection \<Rightarrow> bool" where
  "registered c \<longleftrightarrow> (case cx_receiver c of Registering \<Rightarrow> False | Receiver_ended err \<Rightarrow> False | _ \<Rightarrow> True)"

definition cx_ok :: "connection \<Rightarrow> bool" where
  "cx_ok c \<longleftrightarrow> cx_beating c = registered c"

text \<open>How a connection develops while nobody cancels: a registered one stays so, a broken one broken,
  and its wire as it is; an ended sender stays ended.\<close>

definition cx_evolves :: "connection \<Rightarrow> connection \<Rightarrow> bool" where
  "cx_evolves c c' \<longleftrightarrow> cx_ok c' \<and> (registered c \<longrightarrow> registered c') \<and> (cx_broken c \<longrightarrow> cx_broken c') \<and>
     (registered c \<and> cx_broken c \<longrightarrow> cx_wire c' = cx_wire c) \<and> (cx_sender c' = Sending \<longrightarrow> cx_sender c = Sending)"

lemmas cx_defs = cx_evolves_def cx_ok_def registered_def

lemma cx_evolves_refl: "cx_ok c \<Longrightarrow> cx_evolves c c"
  by (simp add: cx_evolves_def)

lemma on_conn_evolves:
  assumes "k < length (rn_conns r)" "cx_ok (rn_conns r ! k)"
    and "k = i \<Longrightarrow> cx_evolves (rn_conns r ! k) (f (rn_conns r ! k))"
  shows "cx_evolves (rn_conns r ! k) (rn_conns (on_conn i f r) ! k)"
  using assms by (simp add: on_conn_nth cx_evolves_refl)

lemma set_receiver_evolves:
  assumes "k < length (rn_conns r)" "cx_ok (rn_conns r ! k)"
    and "k = i \<Longrightarrow> registered (rn_conns r ! k) = registered ((rn_conns r ! k)\<lparr>cx_receiver := x\<rparr>)"
  shows "cx_evolves (rn_conns r ! k) (rn_conns (set_receiver i x r) ! k)"
  unfolding set_receiver_def using assms
  by (intro on_conn_evolves) (simp_all add: cx_defs)

lemma run_receive_evolves:
  assumes "k < length (rn_conns r)" "cx_ok (rn_conns r ! k)"
    and "cx_receiver (rn_conns r ! i) \<in> {Awaiting_ack, Receiving}"
  shows "cx_evolves (rn_conns r ! k) (rn_conns (run_receive i env got r) ! k)"
proof -
  have o: "cx_evolves (rn_conns r ! k) (rn_conns (set_receiver i x (r\<lparr>rn_agent := ag\<rparr>)) ! k)"
    if "x = Receiving \<or> (\<exists>g t. x = Draining g t) \<or> (\<exists>e. x = Receiver_waiting e)" for x ag
    by (rule set_receiver_evolves [of k "r\<lparr>rn_agent := ag\<rparr>", simplified])
      (use assms that in \<open>auto simp: registered_def\<close>)
  have w: "cx_evolves (rn_conns r ! k) (rn_conns (set_receiver i (Receiver_waiting e) r) ! k)" for e
    using o [of "Receiver_waiting e" "rn_agent r"] by simp
  show ?thesis
    using assms(2)
    by (auto simp: run_receive_def o w cx_evolves_refl split: sum.split prod.split option.split lord_event.split)
qed

lemma run_step_conns:
  assumes "run_step r r'" "\<not> rn_shutdown r" "k < length (rn_conns r)" "cx_ok (rn_conns r ! k)"
  shows "k < length (rn_conns r') \<and> cx_evolves (rn_conns r ! k) (rn_conns r' ! k)"
proof -
  have "run_move r r'" using assms(1) by (simp add: run_step_def)
  then show ?thesis
  proof (cases rule: run_move.cases)
    case (send i sendErr)
    have "cx_evolves (rn_conns r ! k) (rn_conns (run_send i sendErr r) ! k)"
      unfolding run_send_def case_prod_beta
      by (rule on_conn_evolves [of k "r\<lparr>rn_agent := ag\<rparr>" for ag, simplified])
        (use assms(3,4) send in \<open>auto simp: cx_defs agent_sendLoop_step_def split: list.split option.split\<close>)
    then show ?thesis using send assms(3) by (simp add: run_send_simps)
  next
    case (register i sendErr hw)
    have "cx_evolves (rn_conns r ! k) (rn_conns (run_register i hw sendErr r) ! k)"
      using register(3) assms(3,4)
      by (cases sendErr; cases "k = i") (simp_all add: run_register_def set_receiver_def on_conn_nth cx_defs)
    then show ?thesis using register assms(3) by (simp add: run_register_simps)
  next
    case (receive i env got)
    then show ?thesis using assms(3) run_receive_evolves [OF assms(3,4)] by (simp add: run_receive_simps)
  next
    case (drained i grace deadline env)
    have "cx_evolves (rn_conns r ! k) (rn_conns (run_drained i env grace r) ! k)"
      unfolding run_drained_def
      by (rule set_receiver_evolves [of k "r\<lparr>rn_agent := ag, rn_exiting := True\<rparr>" for ag, simplified])
        (use assms(3,4) drained in \<open>auto simp: registered_def\<close>)
    then show ?thesis using drained assms(3) by (simp add: run_drained_def)
  next
    case (hb_done i err)
    have "cx_evolves (rn_conns r ! k) (rn_conns (set_receiver i (Receiver_ended err) r) ! k)"
      by (rule set_receiver_evolves) (use assms(3,4) hb_done in \<open>auto simp: cx_ok_def registered_def\<close>)
    then show ?thesis using hb_done assms(3) by simp
  next
    case (stream_over i)
    have "cx_evolves (rn_conns r ! k) (rn_conns (on_conn i (\<lambda>c. c\<lparr>cx_broken := True\<rparr>) r) ! k)"
      using assms(3,4) by (intro on_conn_evolves) (simp_all add: cx_defs)
    then show ?thesis using stream_over assms(3) by simp
  next
    case (lost i)
    have "cx_evolves (rn_conns r ! k) (rn_conns (on_conn i (\<lambda>c. c\<lparr>cx_closed := True\<rparr>) r) ! k)"
      using assms(3,4) by (intro on_conn_evolves) (simp_all add: cx_defs)
    then show ?thesis using lost assms(3) by (simp add: run_close_def run_lost_def)
  qed (use assms(2-4) in \<open>simp_all add: run_lost_def run_dialled_def run_resume_def run_return_def nth_append
      cx_evolves_refl\<close>)
qed

lemma run_step_new:
  assumes "run_step r r'" "k < length (rn_conns r')" "\<not> k < length (rn_conns r)"
  shows "cx_ok (rn_conns r' ! k)"
proof -
  have "run_move r r'" using assms(1) by (simp add: run_step_def)
  then show ?thesis
    using assms(2,3)
    by (cases rule: run_move.cases) (auto simp: run_simps nth_append cx_ok_def registered_def less_Suc_eq)
qed

text \<open>Nothing of the program cancels \<open>shutdownCtx\<close>.\<close>

lemma run_step_shutdown: "run_step r r' \<Longrightarrow> rn_shutdown r' = rn_shutdown r"
  unfolding run_step_def by (elim conjE run_move.cases) (simp_all add: run_simps)

lemma run_reachable_ok:
  "run_reachable r \<Longrightarrow> \<not> rn_shutdown r \<and> (\<forall>k<length (rn_conns r). cx_ok (rn_conns r ! k))"
proof (induction rule: run_reachable.induct)
  case (step r r')
  then show ?case
    using run_step_conns [OF step(2)] run_step_new [OF step(2)] run_step_shutdown [OF step(2)]
    by (metis cx_evolves_def)
qed (simp add: run_start_def)

lemma run_reachable_steps: "run_step\<^sup>*\<^sup>* r r' \<Longrightarrow> run_reachable r \<Longrightarrow> run_reachable r'"
  by (induction rule: rtranclp_induct) (auto intro: run_reachable.step)

lemma run_reachable_conns:
  assumes "run_reachable r" "run_step r r'" "k < length (rn_conns r)"
  shows "k < length (rn_conns r') \<and> cx_evolves (rn_conns r ! k) (rn_conns r' ! k)"
  using run_step_conns [OF assms(2)] run_reachable_ok [OF assms(1)] assms(3) by blast

subsection \<open>Properties\<close>

text \<open>C26: the heartbeat goroutine of every stream that was registered runs until the program ends, and
  the receiver of the stream never hands its result to \<open>runOnce\<close>: whatever happens to the
  stream, and however many streams follow, each of them goes on sending heartbeats whenever the outbox has
  room, because nothing ever cancels the context they wait for.\<close>

theorem heartbeats_accumulate:
  assumes "run_reachable r" "run_step\<^sup>*\<^sup>* r r'" "i < length (rn_conns r)" "registered (rn_conns r ! i)"
  shows "i < length (rn_conns r') \<and> cx_beating (rn_conns r' ! i) \<and> \<not> rn_shutdown r' \<and>
    (\<forall>err. cx_receiver (rn_conns r' ! i) \<noteq> Receiver_ended err) \<and>
    (\<forall>env. rn_phase r' \<noteq> Returned \<and> length (ag_outbox (rn_agent r')) < outbox_size \<longrightarrow>
      run_step r' (r'\<lparr>rn_agent := sendHeartbeat env (rn_agent r')\<rparr>))"
proof -
  have *: "run_reachable r' \<and> i < length (rn_conns r') \<and> registered (rn_conns r' ! i)"
    using assms(2)
  proof (induction rule: rtranclp_induct)
    case (step r1 r2)
    then show ?case
      using run_reachable_conns [OF _ step(2), of i] run_reachable.step [OF _ step(2)]
      by (auto simp: cx_evolves_def)
  qed (use assms in simp)
  then have "cx_beating (rn_conns r' ! i)" "\<not> rn_shutdown r'"
    using run_reachable_ok [of r'] by (auto simp: cx_ok_def)
  with * show ?thesis
    by (auto simp: run_step_def registered_def intro: run_move.beat)
qed

text \<open>The pause grows with the number of lost streams and attempts, and nothing resets it: a stream
  that was up for a month counts like one that never came up.\<close>

definition backoff_ok :: "lord_run \<Rightarrow> bool" where
  "backoff_ok r \<longleftrightarrow>
     (case rn_phase r of
        Pausing \<Rightarrow> 0 < rn_attempt r \<and> rn_backoff r = backoff_after (rn_attempt r - 1)
      | Returned \<Rightarrow> True
      | _ \<Rightarrow> rn_backoff r = backoff_after (rn_attempt r))"

lemma backoff_ok_step:
  assumes "run_step r r'" "backoff_ok r"
  shows "backoff_ok r'"
proof -
  have "run_move r r'" using assms(1) by (simp add: run_step_def)
  then show ?thesis
  proof (cases rule: run_move.cases)
    case resume
    then show ?thesis
      using assms(2) by (cases "rn_attempt r") (simp_all add: backoff_ok_def run_resume_def)
  qed (use assms(2) in \<open>auto simp: backoff_ok_def run_simps split: run_phase.splits\<close>)
qed

theorem pause_exact:
  assumes "run_reachable r" "rn_phase r = Pausing"
  shows "rn_backoff r =
    (if rn_attempt r \<le> 6 then 500 * 2 ^ (rn_attempt r - 1) * Millisecond else 30 * Second)"
proof -
  have "backoff_ok r"
    using assms(1)
  proof induction
    case start
    then show ?case by (simp add: backoff_ok_def run_start_def)
  qed (rule backoff_ok_step)
  then have "0 < rn_attempt r" "rn_backoff r = backoff_after (rn_attempt r - 1)"
    using assms(2) by (simp_all add: backoff_ok_def)
  then show ?thesis unfolding backoff_after_exact by auto
qed

text \<open>A registered stream that is over, with its sender still in its loop.\<close>

definition on_dead_stream :: "nat \<Rightarrow> lord_run \<Rightarrow> bool" where
  "on_dead_stream i r \<longleftrightarrow> rn_phase r = Serving i \<and> i < length (rn_conns r) \<and> registered (rn_conns r ! i) \<and>
     cx_broken (rn_conns r ! i) \<and> cx_sender (rn_conns r ! i) = Sending"

lemma sender_elsewhere: "j \<noteq> i \<Longrightarrow> cx_sender (rn_conns (run_send j e r) ! i) = cx_sender (rn_conns r ! i)"
  by (simp add: run_send_def case_prod_beta on_conn_def)

lemma sender_set_receiver: "cx_sender (rn_conns (set_receiver j x r) ! i) = cx_sender (rn_conns r ! i)"
  by (cases "j < length (rn_conns r)"; cases "j = i")
    (simp_all add: set_receiver_def on_conn_def list_update_beyond not_less)

text \<open>Only a failed send gets the agent off a dead stream.\<close>

lemma dead_stream_step:
  assumes "run_reachable r" "on_dead_stream i r" "run_step r r'"
  shows "(\<exists>e. ag_outbox (rn_agent r) \<noteq> [] \<and> r' = run_send i (Some e) r) \<or>
    cx_sender (rn_conns r' ! i) = Sending \<and> (rn_phase r' = Serving i \<or> rn_phase r' = Returned)"
proof -
  have mv: "run_move r r'" using assms(3) by (simp add: run_step_def)
  have sd: "\<not> rn_shutdown r" using run_reachable_ok [OF assms(1)] by simp
  have d: "rn_phase r = Serving i" "i < length (rn_conns r)" "\<not> loop_over (rn_conns r ! i)"
    "cx_broken (rn_conns r ! i)" "cx_sender (rn_conns r ! i) = Sending" "registered (rn_conns r ! i)"
    using assms(2) by (auto simp: on_dead_stream_def loop_over_def registered_def split: receiver.splits)
  show ?thesis
    using mv
  proof (cases rule: run_move.cases)
    case (send j sendErr)
    then show ?thesis
      using d by (cases "j = i") (auto simp: run_send_simps sender_elsewhere)
  next
    case (register j sendErr hw)
    then have "j \<noteq> i" using d(6) by (auto simp: registered_def)
    then show ?thesis
      using d(1,2,5) register(1) by (auto simp: run_register_def set_receiver_def on_conn_nth split: option.split)
  next
    case (receive j env got)
    have "cx_sender (rn_conns (run_receive j env got r) ! i) = Sending"
      using d(5)
      by (auto simp: run_receive_def sender_set_receiver split: sum.split prod.split option.split lord_event.split)
    then show ?thesis using d(1) receive(1) by (simp add: run_receive_simps)
  qed (use d sd in \<open>auto simp: run_drained_def run_return_def sender_set_receiver on_conn_nth\<close>)
qed

lemma run_send_fails:
  assumes "i < length (rn_conns r)" "ag_outbox (rn_agent r) \<noteq> []"
  shows "ag_outbox (rn_agent (run_send i (Some e) r)) = tl (ag_outbox (rn_agent r))"
    and "map cx_wire (rn_conns (run_send i (Some e) r)) = map cx_wire (rn_conns r)"
    and "cx_sender (rn_conns (run_send i (Some e) r) ! i) = Sender_ended (Errorf e)"
    and "ag_procs (rn_agent (run_send i (Some e) r)) = ag_procs (rn_agent r)"
proof -
  obtain cmd cmds where c: "ag_outbox (rn_agent r) = cmd # cmds" using assms(2) by (cases "ag_outbox (rn_agent r)") auto
  show "map cx_wire (rn_conns (run_send i (Some e) r)) = map cx_wire (rn_conns r)"
    using assms(1) by (simp add: run_send_def agent_sendLoop_step_def c on_conn_def map_update
      list_update_same_conv)
qed (use assms in \<open>auto simp: run_send_def agent_sendLoop_step_def on_conn_def split: list.split\<close>)

text \<open>C27: a stream that is over is noticed by sending only. Whatever happens, nothing is sent on it any
  more; the agent stays with it until its sender takes a message, which is what it can
  do as soon as there is one (a heartbeat at the latest); that message is lost, and it is
  the one next in the outbox. Then the agent can close the stream and dial again after the pause, with its
  processes as they are.\<close>

theorem lost_stream_redials:
  assumes "run_reachable r" "on_dead_stream i r" "run_step\<^sup>*\<^sup>* r r'" "rn_phase r' \<noteq> Returned"
  shows "cx_wire (rn_conns r' ! i) = cx_wire (rn_conns r ! i) \<and>
    (if cx_sender (rn_conns r' ! i) = Sending then
       rn_phase r' = Serving i \<and>
       (\<forall>r''. run_step r' r'' \<and> cx_sender (rn_conns r'' ! i) \<noteq> Sending \<longrightarrow>
          ag_outbox (rn_agent r') \<noteq> [] \<and> ag_outbox (rn_agent r'') = tl (ag_outbox (rn_agent r')) \<and>
          map cx_wire (rn_conns r'') = map cx_wire (rn_conns r') \<and>
          ag_procs (rn_agent r'') = ag_procs (rn_agent r') \<and> rn_phase r'' = Serving i) \<and>
       (if ag_outbox (rn_agent r') = [] then \<forall>env. run_step r' (r'\<lparr>rn_agent := sendHeartbeat env (rn_agent r')\<rparr>)
        else \<exists>r''. run_step r' r'' \<and> cx_sender (rn_conns r'' ! i) \<noteq> Sending)
     else rn_phase r' = Serving i \<longrightarrow>
       (\<exists>r''. run_step\<^sup>*\<^sup>* r' r'' \<and> rn_phase r'' = Dialling \<and> rn_attempt r'' = rn_attempt r' + 1 \<and>
         rn_backoff r'' = next_backoff (rn_backoff r') \<and> rn_agent r'' = rn_agent r'))"
proof -
  have inv: "run_reachable r' \<and> i < length (rn_conns r') \<and> registered (rn_conns r' ! i) \<and>
      cx_broken (rn_conns r' ! i) \<and> cx_wire (rn_conns r' ! i) = cx_wire (rn_conns r ! i) \<and>
      (cx_sender (rn_conns r' ! i) = Sending \<longrightarrow> rn_phase r' = Serving i \<or> rn_phase r' = Returned)"
    using assms(3)
  proof (induction rule: rtranclp_induct)
    case base
    then show ?case using assms(1,2) by (simp add: on_dead_stream_def)
  next
    case (step r1 r2)
    then have ev: "i < length (rn_conns r2)" "cx_evolves (rn_conns r1 ! i) (rn_conns r2 ! i)"
      using run_reachable_conns [of r1 r2 i] by auto
    have "rn_phase r2 = Serving i \<or> rn_phase r2 = Returned" if s: "cx_sender (rn_conns r2 ! i) = Sending"
    proof -
      have "on_dead_stream i r1"
        using step ev(2) s by (auto simp: on_dead_stream_def cx_evolves_def run_step_def)
      then show ?thesis
        using dead_stream_step [of r1 i r2] step s run_send_fails(3) [of i r1]
        by (auto simp: on_dead_stream_def)
    qed
    then show ?case using step ev run_reachable.step [of r1 r2] by (auto simp: cx_evolves_def)
  qed
  show ?thesis
  proof (cases "cx_sender (rn_conns r' ! i) = Sending")
    case True
    then have dead: "on_dead_stream i r'" using inv assms(4) by (simp add: on_dead_stream_def)
    have lost: "ag_outbox (rn_agent r') \<noteq> [] \<and> ag_outbox (rn_agent r'') = tl (ag_outbox (rn_agent r')) \<and>
        map cx_wire (rn_conns r'') = map cx_wire (rn_conns r') \<and>
        ag_procs (rn_agent r'') = ag_procs (rn_agent r') \<and> rn_phase r'' = Serving i"
      if "run_step r' r''" "cx_sender (rn_conns r'' ! i) \<noteq> Sending" for r''
      using dead_stream_step [OF _ dead that(1)] that(2) inv run_send_fails [of i r'] dead
      by (auto simp: run_send_simps on_dead_stream_def)
    have beat: "run_step r' (r'\<lparr>rn_agent := sendHeartbeat env (rn_agent r')\<rparr>)" if "ag_outbox (rn_agent r') = []" for env
      using run_reachable_ok [of r'] inv assms(4) that
      by (auto simp: run_step_def cx_ok_def outbox_size_def intro: run_move.beat)
    have fail: "run_step r' (run_send i (Some ''EOF'') r')" if "ag_outbox (rn_agent r') \<noteq> []"
      using inv assms(4) that True by (auto simp: run_step_def intro: run_move.send)
    show ?thesis
      using True inv dead lost beat fail run_send_fails(3) [of i r' "''EOF''"]
      by (auto simp: on_dead_stream_def)
  next
    case False
    have "run_step\<^sup>*\<^sup>* r' (run_resume (run_close i r'))" if p: "rn_phase r' = Serving i"
    proof -
      have "loop_over (rn_conns r' ! i)" using False by (cases "cx_sender (rn_conns r' ! i)") (auto simp: loop_over_def)
      then have "run_step r' (run_close i r')" using p by (auto simp: run_step_def intro: run_move.lost)
      moreover have "run_step (run_close i r') (run_resume (run_close i r'))"
        by (simp add: run_step_def run_close_def run_lost_def run_move.resume)
      ultimately show ?thesis by (meson converse_rtranclp_into_rtranclp rtranclp.rtrancl_refl)
    qed
    then show ?thesis
      using inv False by (auto simp: run_resume_def run_close_def run_lost_def intro: exI [of _ "run_resume (run_close i r')"])
  qed
qed

subsection \<open>A run\<close>

text \<open>A registered stream breaks after a heartbeat, and the agent dials again.\<close>

definition demo_hw :: register_request where
  "demo_hw = \<lparr>rr_hostname = ''h'', rr_os = ''linux'', rr_arch = ''amd64'', rr_cpu_cores_physical = 1,
     rr_mem_total_bytes_physical = 1, rr_advertised_cpu_shares = 1, rr_advertised_mem_bytes = 1\<rparr>"

definition demo_hb :: heartbeat_request where
  "demo_hb = \<lparr>hb_lord_id = '''', hb_cpu_used_pct = 0, hb_mem_used_bytes = 0, hb_active_processes = 0\<rparr>"

definition beat_once :: "lord_run \<Rightarrow> lord_run" where
  "beat_once r = r\<lparr>rn_agent := sendHeartbeat demo_ax (rn_agent r)\<rparr>"

definition registered_run :: lord_run where
  "registered_run = run_register 0 demo_hw None (run_dialled run_start)"

definition dead_run :: lord_run where
  "dead_run = on_conn 0 (\<lambda>c. c\<lparr>cx_broken := True\<rparr>) registered_run"

definition broken_run :: lord_run where
  "broken_run = run_close 0 (run_send 0 (Some ''EOF'') (beat_once dead_run))"

definition second_run :: lord_run where
  "second_run = run_dialled (run_resume broken_run)"

definition overtaken_run :: lord_run where
  "overtaken_run = run_send 1 None (beat_once second_run)"

lemma demo_beat:
  assumes "ag_procs ag = Map.empty" "ag_cg ag = None" "ag_lordID ag = ''''"
  shows "sendHeartbeat demo_ax ag = ag_send (Cmd_Heartbeat demo_hb) ag"
  using assms by (simp add: sendHeartbeat_def getCurrentUsage_def demo_ax_def demo_hb_def Let_def)

lemmas run_defs = run_dialled_def run_start_def run_register_def on_conn_def run_send_def run_close_def
  run_lost_def run_resume_def agent_sendLoop_step_def registered_run_def broken_run_def dead_run_def second_run_def
  overtaken_run_def beat_once_def NewAgent_def demo_beat outbox_size_def registered_def

lemma registered_run_reachable: "run_reachable registered_run"
proof -
  have "run_step run_start (run_dialled run_start)"
    by (auto simp: run_step_def run_start_def intro: run_move.dialled)
  then have "run_reachable (run_dialled run_start)"
    by (rule run_reachable.step [OF run_reachable.start])
  moreover have "run_step (run_dialled run_start) registered_run"
    unfolding run_step_def registered_run_def
    by (rule conjI, simp add: run_defs, rule run_move.register) (simp_all add: run_defs)
  ultimately show ?thesis by (rule run_reachable.step)
qed

lemma dead_run_step: "run_step registered_run dead_run"
  unfolding run_step_def dead_run_def
  by (rule conjI, simp add: run_defs, rule run_move.stream_over) (simp add: run_defs)

lemma dead_run_reachable: "run_reachable dead_run"
  by (rule run_reachable.step [OF registered_run_reachable dead_run_step])

lemma broken_run_steps: "run_step\<^sup>*\<^sup>* dead_run broken_run"
proof -
  have "run_step dead_run (beat_once dead_run)"
    unfolding run_step_def beat_once_def
    by (rule conjI, simp add: run_defs, rule run_move.beat [of 0]) (simp_all add: run_defs)
  moreover have "run_step (beat_once dead_run) (run_send 0 (Some ''EOF'') (beat_once dead_run))"
    unfolding run_step_def
    by (rule conjI, simp add: run_defs, rule run_move.send) (simp_all add: run_defs)
  moreover have "run_step (run_send 0 (Some ''EOF'') (beat_once dead_run)) broken_run"
    unfolding run_step_def broken_run_def
    by (rule conjI, simp add: run_defs, rule run_move.lost) (simp_all add: run_defs loop_over_def)
  ultimately show ?thesis by (meson converse_rtranclp_into_rtranclp rtranclp.rtrancl_refl)
qed

lemma second_run_steps: "run_step\<^sup>*\<^sup>* broken_run second_run"
proof -
  have "run_step broken_run (run_resume broken_run)"
    by (simp add: run_step_def broken_run_def run_close_def run_lost_def run_move.resume)
  moreover have "run_step (run_resume broken_run) second_run"
    unfolding run_step_def second_run_def
    by (rule conjI, simp add: run_defs, rule run_move.dialled) (simp_all add: run_defs)
  ultimately show ?thesis by (meson converse_rtranclp_into_rtranclp rtranclp.rtrancl_refl)
qed

text \<open>The registration is sent beside the send loop, which may come first: then the scheduler refuses the
  stream, and the message is lost.\<close>

theorem registration_overtaken:
  "run_reachable overtaken_run \<and> rn_phase overtaken_run = Serving 1 \<and>
   cx_wire (rn_conns overtaken_run ! 1) = [Cmd_Heartbeat demo_hb] \<and>
   Connect_start env (Inr (Cmd_Heartbeat demo_hb)) sv =
     (Inl (Status InvalidArgument ''first message must be Register''), sv)"
proof -
  have 2: "run_reachable second_run"
    by (intro run_reachable_steps [OF second_run_steps] run_reachable_steps [OF broken_run_steps]
        dead_run_reachable)
  have "run_step second_run (beat_once second_run)"
    unfolding run_step_def beat_once_def
    by (rule conjI, simp add: run_defs, rule run_move.beat [of 0]) (simp_all add: run_defs)
  moreover have "run_step (beat_once second_run) overtaken_run"
    unfolding run_step_def overtaken_run_def
    by (rule conjI, simp add: run_defs, rule run_move.send) (simp_all add: run_defs)
  ultimately have "run_reachable overtaken_run"
    using 2 run_reachable.step by blast
  moreover have "rn_phase overtaken_run = Serving 1"
    "cx_wire (rn_conns overtaken_run ! 1) = [Cmd_Heartbeat demo_hb]"
    by (simp_all add: run_defs)
  ultimately show ?thesis by (simp add: Connect_start_def)
qed

theorem heartbeats_accumulate_witness:
  "rn_phase second_run = Serving 1 \<and> cx_beating (rn_conns second_run ! 0) \<and>
   (\<exists>r'. run_step second_run r' \<and> rn_agent r' = sendHeartbeat demo_ax (rn_agent second_run))"
proof -
  have r: "0 < length (rn_conns dead_run)" "registered (rn_conns dead_run ! 0)"
    "rn_phase second_run = Serving 1" "length (ag_outbox (rn_agent second_run)) < outbox_size"
    by (simp_all add: run_defs)
  from heartbeats_accumulate [OF dead_run_reachable
      rtranclp_trans [OF broken_run_steps second_run_steps] r(1,2)] r(3,4)
  show ?thesis by (auto intro!: exI [of _ "second_run\<lparr>rn_agent := sendHeartbeat demo_ax (rn_agent second_run)\<rparr>"])
qed

theorem pause_exact_witness: "rn_backoff broken_run = 500 * Millisecond"
proof -
  have p: "rn_phase broken_run = Pausing" "rn_attempt broken_run = 1" by (simp_all add: run_defs)
  from pause_exact [OF run_reachable_steps [OF broken_run_steps dead_run_reachable] p(1)]
  show ?thesis by (simp add: p(2))
qed

theorem lost_stream_redials_witness:
  "(\<forall>env. run_step dead_run (dead_run\<lparr>rn_agent := sendHeartbeat env (rn_agent dead_run)\<rparr>)) \<and>
   cx_wire (rn_conns dead_run ! 0) = [Cmd_Register demo_hw]"
proof -
  have d: "on_dead_stream 0 dead_run" "rn_phase dead_run \<noteq> Returned"
    "cx_sender (rn_conns dead_run ! 0) = Sending" "ag_outbox (rn_agent dead_run) = []"
    "cx_wire (rn_conns dead_run ! 0) = [Cmd_Register demo_hw]"
    by (simp_all add: on_dead_stream_def run_defs)
  from lost_stream_redials [OF dead_run_reachable d(1) rtranclp.rtrancl_refl d(2)] d(3-5)
  show ?thesis by auto
qed

end
