(* ===== verification/Cli.thy ===== *)
theory Cli
  imports Tenant_Api "HOL-Library.Signed_Division"
begin

section \<open>The command line of the tenants (cmd/etronium)\<close>

text \<open>
  Every command is the function that the command line package calls once it has parsed the flags and
  counted the arguments: it dials, makes one call of the tenant API and prints. The call is the
  handler of the server itself; a transport that fails in between is not modelled. What is printed
  is a list of pieces of output; a JSON document stays a value, as in the log. \<open>run\<close> and \<open>kill\<close>
  change the server, \<open>wait\<close> blocks, and \<open>attach\<close> and \<open>shell\<close> relay streams.
\<close>

subsection \<open>Settings and printing\<close>

record cli_env =
  ce_getenv :: "string \<Rightarrow> string"               \<comment> \<open>empty when not set\<close>
  ce_dial :: "string \<Rightarrow> string option"          \<comment> \<open>the error of dialling an address\<close>

record cli_cfg =
  cl_schedulerAddr :: string
  cl_tenantID :: string
  cl_outputJSON :: bool

definition envOr :: "cli_env \<Rightarrow> string \<Rightarrow> string \<Rightarrow> string" where
  "envOr ce key dflt = (let v = ce_getenv ce key in if v \<noteq> '''' then v else dflt)"

definition cli_defaults :: "cli_env \<Rightarrow> cli_cfg" where
  "cli_defaults ce = \<lparr>cl_schedulerAddr = envOr ce ''ETRONIUM_SCHEDULER'' ''localhost:51061'',
     cl_tenantID = envOr ce ''ETRONIUM_TENANT'' ''anonymous'', cl_outputJSON = False\<rparr>"

datatype json_doc = Json_process process_info | Json_processes "process_info list"
  | Json_lords "lord list" | Json_status string string "lord list" nat

datatype cli_out = Line string | ErrLine string | Json json_doc
  | Raw_out "byte list" | Raw_err "byte list"

type_synonym cli_result = "go_error option \<times> cli_out list"

text \<open>The verbs \<open>%-ns\<close>, \<open>%d\<close> and \<open>%v\<close>.\<close>

definition pad_right :: "nat \<Rightarrow> string \<Rightarrow> string" where
  "pad_right n s = s @ replicate (n - length s) CHR '' ''"

definition show_word :: "'a::len word \<Rightarrow> string" where
  "show_word w = show_int (sint w)"

fun join_space :: "string list \<Rightarrow> string" where
  "join_space [] = ''''"
| "join_space [s] = s"
| "join_space (s # ss) = s @ CHR '' '' # join_space ss"

definition show_strings :: "string list \<Rightarrow> string" where
  "show_strings ss = ''['' @ join_space ss @ '']''"

definition boolStr :: "bool \<Rightarrow> string \<Rightarrow> string \<Rightarrow> string" where
  "boolStr b t f = (if b then t else f)"

definition printProcessInfo :: "cli_cfg \<Rightarrow> process_info \<Rightarrow> cli_out list" where
  "printProcessInfo cfg p =
     (if cl_outputJSON cfg then [Json (Json_process p)]
      else
        [Line (''process_id: '' @ pi_process_id p),
         Line (''lord_id:    '' @ pi_lord_id p),
         Line (''local_pid:  '' @ show_word (pi_local_pid p)),
         Line (''state:      '' @ ProcessState_String (pi_state p)),
         Line (''exec:       '' @ pi_exec_path p @ '' '' @ show_strings (pi_argv p))] @
        (if pi_exit_code p \<noteq> 0 \<or> pi_exit_signal p \<noteq> 0
         then [Line (''exit_code:  '' @ show_word (pi_exit_code p) @
                 ''  exit_signal: '' @ show_word (pi_exit_signal p))]
         else []) @
        (if 0 < sint (pi_mem_peak_bytes p)
         then [Line (''mem_peak:   '' @ show_word (pi_mem_peak_bytes p) @ '' bytes'')] else []))"

text \<open>Dialling, then the rest of the command.\<close>

definition dial_then :: "cli_env \<Rightarrow> cli_cfg \<Rightarrow> cli_result \<Rightarrow> cli_result" where
  "dial_then ce cfg k =
     (case ce_dial ce (cl_schedulerAddr cfg) of
        Some err \<Rightarrow> (Some (Errorf (''dial scheduler '' @ cl_schedulerAddr cfg @ '': '' @ err)), [])
      | None \<Rightarrow> k)"

text \<open>\<open>main\<close>: the exit code of the program.\<close>

definition cli_exit_code :: "cli_result \<Rightarrow> int" where
  "cli_exit_code r = (case fst r of Some _ \<Rightarrow> 1 | None \<Rightarrow> 0)"

subsection \<open>Starting a process\<close>

record run_flags =
  rf_cpuShares :: i32
  rf_memMB :: i32
  rf_preferLord :: string
  rf_maxRestarts :: i32
  rf_stateDump :: string

definition run_defaults :: run_flags where
  "run_defaults = \<lparr>rf_cpuShares = 0, rf_memMB = 0, rf_preferLord = '''', rf_maxRestarts = 10,
     rf_stateDump = ''''\<rparr>"

definition run_request :: "cli_cfg \<Rightarrow> run_flags \<Rightarrow> string \<Rightarrow> string list \<Rightarrow> spawn_request" where
  "run_request cfg flags execPath argv =
     (let req = zero_spawn_request
        \<lparr>sr_tenant_id := cl_tenantID cfg, sr_exec_path := execPath, sr_argv := argv,
         sr_prefer_lord_id := rf_preferLord flags, sr_max_restarts := rf_maxRestarts flags,
         sr_state_dump_path_hint := rf_stateDump flags\<rparr> in
      if 0 < sint (rf_cpuShares flags) \<or> 0 < sint (rf_memMB flags)
      then req\<lparr>sr_resources := Some
        \<lparr>rs_cpu_shares = rf_cpuShares flags, rs_cpu_quota_pct = 0,
         rs_mem_limit_bytes = scast (rf_memMB flags) * 1024 * 1024, rs_io_weight = 0,
         rs_pids_limit = 0\<rparr>\<rparr>
      else req)"

definition cli_run ::
  "cli_env \<Rightarrow> cli_cfg \<Rightarrow> go_env \<Rightarrow> run_flags \<Rightarrow> string \<Rightarrow> string list \<Rightarrow> server \<Rightarrow> cli_result \<times> server" where
  "cli_run ce cfg env flags execPath argv sv =
     (case ce_dial ce (cl_schedulerAddr cfg) of
        Some err \<Rightarrow> ((Some (Errorf (''dial scheduler '' @ cl_schedulerAddr cfg @ '': '' @ err)), []), sv)
      | None \<Rightarrow>
          (case Spawn env (run_request cfg flags execPath argv) sv of
             (Inl err, sv') \<Rightarrow> ((Some err, []), sv')
           | (Inr info, sv') \<Rightarrow> ((None, printProcessInfo cfg info), sv')))"

subsection \<open>Looking at processes and lords\<close>

definition cli_ps :: "cli_env \<Rightarrow> cli_cfg \<Rightarrow> go_env \<Rightarrow> bool \<Rightarrow> server \<Rightarrow> cli_result" where
  "cli_ps ce cfg env onlyRunning sv = dial_then ce cfg
     (case ListProcesses env sv \<lparr>lp_tenant_id = cl_tenantID cfg, lp_only_running = onlyRunning,
         lp_limit = 0\<rparr> of
        Inl err \<Rightarrow> (Some err, [])
      | Inr ps \<Rightarrow> (None,
          if cl_outputJSON cfg then [Json (Json_processes ps)]
          else Line (pad_right 26 ''PROCESS_ID'' @ ''  '' @ pad_right 15 ''LORD'' @ ''  '' @
                 pad_right 12 ''STATE'' @ ''  EXEC'') #
               map (\<lambda>p. Line (pad_right 26 (pi_process_id p) @ ''  '' @ pad_right 15 (pi_lord_id p) @
                 ''  '' @ pad_right 12 (ProcessState_String (pi_state p)) @ ''  '' @ pi_exec_path p)) ps))"

definition cli_get :: "cli_env \<Rightarrow> cli_cfg \<Rightarrow> string \<Rightarrow> server \<Rightarrow> cli_result" where
  "cli_get ce cfg processID sv = dial_then ce cfg
     (case GetProcess sv processID of
        Inl err \<Rightarrow> (Some err, [])
      | Inr info \<Rightarrow> (None, printProcessInfo cfg info))"

definition mebibytes :: "i64 \<Rightarrow> int" where
  "mebibytes w = sint w sdiv (1024 * 1024)"

text \<open>The flag for healthy lords only is declared and never bound: it stays false.\<close>

definition cli_lords :: "cli_env \<Rightarrow> cli_cfg \<Rightarrow> go_env \<Rightarrow> server \<Rightarrow> cli_result" where
  "cli_lords ce cfg env sv = dial_then ce cfg
     (let lords = ListLords env sv False in
      (None,
        if cl_outputJSON cfg then [Json (Json_lords lords)]
        else Line (pad_right 26 ''LORD_ID'' @ ''  '' @ pad_right 20 ''HOSTNAME'' @ ''  '' @
               pad_right 6 ''CORES'' @ ''  MEM (MB)'') #
             map (\<lambda>l. Line (pad_right 26 (l_lord_id l) @ ''  '' @ pad_right 20 (l_hostname l) @ ''  '' @
               pad_right 6 (show_word (l_cpu_cores_physical l)) @ ''  '' @
               show_int (mebibytes (l_mem_total_bytes_physical l)))) lords))"

fun countHealthy :: "lord list \<Rightarrow> nat" where
  "countHealthy [] = 0"
| "countHealthy (l # ls) = (if l_healthy l then 1 else 0) + countHealthy ls"

fun status_lines :: "nat \<Rightarrow> lord list \<Rightarrow> cli_out list" where
  "status_lines i [] = []"
| "status_lines i (l # ls) =
     Line (''  ['' @ show_nat i @ ''] '' @ pad_right 20 (l_hostname l) @ '' advertised_cpu='' @
       show_word (l_advertised_cpu_shares l) @ '' host='' @ l_os l) # status_lines (i + 1) ls"

definition cli_status :: "cli_env \<Rightarrow> cli_cfg \<Rightarrow> go_env \<Rightarrow> server \<Rightarrow> cli_result" where
  "cli_status ce cfg env sv = dial_then ce cfg
     (let lords = ListLords env sv False; h = countHealthy lords in
      (None,
        if cl_outputJSON cfg
        then [Json (Json_status (cl_schedulerAddr cfg) (cl_tenantID cfg) lords h)]
        else Line (''scheduler: '' @ cl_schedulerAddr cfg) #
             Line (''lords:     '' @ show_nat (length lords) @ '' ('' @ show_nat h @ '' healthy)'') #
             status_lines 0 lords))"

text \<open>\<open>format-fleet\<close> on the decoded input.\<close>

definition cli_formatFleet :: "string + lord list \<Rightarrow> int \<times> cli_out list" where
  "cli_formatFleet decoded =
     (case decoded of
        Inl err \<Rightarrow> (1, [ErrLine (''decode: '' @ err)])
      | Inr lords \<Rightarrow> (0,
          Line (pad_right 20 ''HOSTNAME'' @ '' '' @ pad_right 12 ''CPU-SHARES'' @ '' '' @
            pad_right 10 ''STATUS'' @ '' LORD-ID'') #
          map (\<lambda>l. Line (pad_right 20 (l_hostname l) @ '' '' @
            pad_right 12 (show_word (l_advertised_cpu_shares l)) @ '' '' @
            pad_right 10 (boolStr (l_healthy l) ''healthy'' ''down'') @ '' '' @ l_lord_id l)) lords))"

subsection \<open>Signals and waiting\<close>

definition cli_kill ::
  "cli_env \<Rightarrow> cli_cfg \<Rightarrow> go_env \<Rightarrow> i32 \<Rightarrow> bool \<Rightarrow> string \<Rightarrow> server \<Rightarrow> cli_result \<times> server" where
  "cli_kill ce cfg env signal force processID sv =
     (case ce_dial ce (cl_schedulerAddr cfg) of
        Some err \<Rightarrow> ((Some (Errorf (''dial scheduler '' @ cl_schedulerAddr cfg @ '': '' @ err)), []), sv)
      | None \<Rightarrow>
          (case Kill env \<lparr>kr_process_id = processID, kr_signal_number = signal, kr_force = force\<rparr> sv of
             (Inl err, sv') \<Rightarrow> ((Some err, []), sv')
           | (Inr resp, sv') \<Rightarrow>
               ((None, [Line (''acknowledged='' @ boolStr (kp_acknowledged resp) ''true'' ''false'' @
                  '' state='' @ ProcessState_String (kp_current_state resp))]), sv')))"

text \<open>
  \<open>wait\<close> after \<open>elapsed\<close>: what it may have returned by then. The context of the client ends 30
  seconds after the timeout that is asked for, computed in 32 bits.
\<close>

definition wait_deadline :: "i32 \<Rightarrow> duration" where
  "wait_deadline timeoutSec = sint (timeoutSec + 30) * Second"

definition cli_wait_ready ::
  "cli_env \<Rightarrow> cli_cfg \<Rightarrow> i32 \<Rightarrow> string \<Rightarrow> server \<Rightarrow> duration \<Rightarrow> cli_result list" where
  "cli_wait_ready ce cfg timeoutSec processID sv elapsed =
     (case ce_dial ce (cl_schedulerAddr cfg) of
        Some err \<Rightarrow> [(Some (Errorf (''dial scheduler '' @ cl_schedulerAddr cfg @ '': '' @ err)), [])]
      | None \<Rightarrow>
          map (\<lambda>r. case r of Inl err \<Rightarrow> (Some err, []) | Inr info \<Rightarrow> (None, printProcessInfo cfg info))
            (Wait_ready sv \<lparr>wr_process_id = processID, wr_timeout_sec = timeoutSec\<rparr>
               (if wait_deadline timeoutSec \<le> elapsed
                then Some (Status DeadlineExceeded ''context deadline exceeded'') else None)
               elapsed))"

subsection \<open>Streams\<close>

text \<open>What the stream of the output returns: a chunk (nil ends the relay), the end, or an error.\<close>

datatype stream_recv = Recv_chunk "io_chunk option" | Recv_eof | Recv_err go_error

text \<open>The loop of \<open>attach\<close> and \<open>shell\<close>; the second component is None while it waits for more.\<close>

fun relay_loop :: "stream_recv list \<Rightarrow> cli_out list \<times> go_error option option" where
  "relay_loop [] = ([], None)"
| "relay_loop (Recv_eof # rs) = ([], Some None)"
| "relay_loop (Recv_err err # rs) = ([], Some (Some err))"
| "relay_loop (Recv_chunk None # rs) = ([], Some None)"
| "relay_loop (Recv_chunk (Some c) # rs) =
     (let (outs, fin) = relay_loop rs in
      ((if io_stream c = STREAM_STDERR then Raw_err (io_data c) else Raw_out (io_data c)) # outs, fin))"

text \<open>\<open>attach\<close> without \<open>--follow\<close>: the server sends its chunks and ends the stream.\<close>

definition cli_attach_dump :: "cli_env \<Rightarrow> cli_cfg \<Rightarrow> string \<Rightarrow> server \<Rightarrow> cli_result" where
  "cli_attach_dump ce cfg processID sv = dial_then ce cfg
     (case StreamProcessIO_dump sv processID of
        Inl err \<Rightarrow> (Some err, [])
      | Inr chunks \<Rightarrow>
          (case relay_loop (map (\<lambda>c. Recv_chunk (Some c)) chunks @ [Recv_eof]) of
             (outs, fin) \<Rightarrow> (case fin of Some (Some err) \<Rightarrow> Some err | _ \<Rightarrow> None, outs)))"

definition shell_request :: "cli_cfg \<Rightarrow> string \<Rightarrow> string \<Rightarrow> spawn_request" where
  "shell_request cfg shellPath preferLord = zero_spawn_request
     \<lparr>sr_tenant_id := cl_tenantID cfg, sr_exec_path := shellPath, sr_argv := [''-i''],
      sr_prefer_lord_id := preferLord, sr_max_restarts := 0\<rparr>"

definition shell_start ::
  "cli_env \<Rightarrow> cli_cfg \<Rightarrow> go_env \<Rightarrow> string \<Rightarrow> string \<Rightarrow> server \<Rightarrow>
     (go_error + process_info \<times> cli_out list) \<times> server" where
  "shell_start ce cfg env shellPath preferLord sv =
     (case ce_dial ce (cl_schedulerAddr cfg) of
        Some err \<Rightarrow> (Inl (Errorf (''dial scheduler '' @ cl_schedulerAddr cfg @ '': '' @ err)), sv)
      | None \<Rightarrow>
          (case Spawn env (shell_request cfg shellPath preferLord) sv of
             (Inl err, sv') \<Rightarrow> (Inl (Errorf (''spawn shell: '' @ error_text err)), sv')
           | (Inr info, sv') \<Rightarrow>
               (Inr (info, [ErrLine (''[etronium shell] connected to lord='' @ pi_lord_id info @
                  '' process_id='' @ pi_process_id info @ '' pid='' @ show_word (pi_local_pid info))]), sv')))"

text \<open>
  The goroutine that reads the terminal: the requests it makes for the reads it gets (bytes, and
  whether the read also returned an error); \<open>fails\<close> is the number of the first call that fails.
\<close>

definition stdin_request :: "string \<Rightarrow> byte list \<Rightarrow> bool \<Rightarrow> write_stdin_request" where
  "stdin_request processID data eof =
     \<lparr>ws_lord_id = '''', ws_process_id = processID, ws_data = data, ws_eof = eof\<rparr>"

fun shell_input ::
  "string \<Rightarrow> nat option \<Rightarrow> (byte list \<times> bool) list \<Rightarrow> write_stdin_request list" where
  "shell_input processID fails [] = []"
| "shell_input processID fails ((data, err) # reads) =
     (if 0 < length data then
        stdin_request processID data False #
        (if fails = Some 0 then []
         else if err then [stdin_request processID [] True]
         else shell_input processID (map_option (\<lambda>n. n - 1) fails) reads)
      else if err then [stdin_request processID [] True]
      else shell_input processID fails reads)"

text \<open>After the stream has ended: the final message and the exit code of the program.\<close>

definition shell_end :: "go_error + process_info \<Rightarrow> cli_out list \<times> int" where
  "shell_end finalInfo =
     (case finalInfo of
        Inl _ \<Rightarrow> ([], 0)
      | Inr p \<Rightarrow>
          (if pi_exit_code p \<noteq> 0 \<or> pi_exit_signal p \<noteq> 0
           then [ErrLine (''[etronium shell] exit_code='' @ show_word (pi_exit_code p) @ '' signal='' @
                   show_word (pi_exit_signal p))]
           else [],
           sint (pi_exit_code p)))"


subsection \<open>Properties\<close>

lemma sint_of_int_i64: "- (2 ^ 63) \<le> x \<Longrightarrow> x < 2 ^ 63 \<Longrightarrow> sint (word_of_int x :: i64) = x"
  by (simp add: sint_sbintrunc' signed_take_bit_int_eq_self)

lemma sint_of_int_i32: "- (2 ^ 31) \<le> x \<Longrightarrow> x < 2 ^ 31 \<Longrightarrow> sint (word_of_int x :: i32) = x"
  by (simp add: sint_sbintrunc' signed_take_bit_int_eq_self)

text \<open>The conversion of the memory flag to bytes cannot overflow.\<close>

lemma mem_limit_exact: "sint (scast (m :: i32) * 1024 * 1024 :: i64) = sint m * 1048576"
proof -
  have "scast m * 1024 * 1024 = (scast m :: i64) * 1048576" by simp
  also have "\<dots> = word_of_int (sint m) * word_of_int 1048576" by (simp only: scast_eq word_of_int_numeral)
  also have "\<dots> = word_of_int (sint m * 1048576)" by (simp only: of_int_mult)
  finally have e: "scast m * 1024 * 1024 = (word_of_int (sint m * 1048576) :: i64)" .
  have "- (2 ^ 31) * 1048576 \<le> sint m * 1048576" "sint m * 1048576 < 2 ^ 31 * 1048576"
    using sint_i32_bounds [of m] by (simp_all only: mult_right_mono mult_strict_right_mono zero_less_numeral zero_le_numeral)
  then show ?thesis unfolding e by (intro sint_of_int_i64) simp_all
qed

text \<open>C13: \<open>run\<close> does what its flags say: when it reports a process, exactly one was created, and every field
  of it and of its spawn event is given by the flags: the tenant, program and arguments, the
  limits (none when both are not positive), the restart limit (10 when the flag is 0), and the path for the
  state, which the event also puts into the environment. It is placed where the registry places the lord
  that \<open>--prefer-lord\<close> names: on this lord itself, when it is healthy, not draining and has capacity.\<close>

theorem run_creates_requested:
  assumes "sv_inv sv" "iter_order (lr_byID (sv_lords sv)) (ge_lords env)"
    and "cli_run ce cfg env flags execPath argv sv = ((None, outs), sv')"
  shows "\<exists>l res info. outs = printProcessInfo cfg info \<and>
    placeable (sv_lords sv) l \<and> Lords_Pick (sv_lords sv) (ge_lords env) (rf_preferLord flags) = Some l \<and>
    (\<forall>e. rf_preferLord flags \<noteq> '''' \<and> lr_byID (sv_lords sv) (rf_preferLord flags) = Some e \<and>
       le_healthy e \<and> \<not> le_drain_requested e \<and> hasCapacity (le_info e) \<longrightarrow> l = le_info e) \<and>
    (if 0 < sint (rf_cpuShares flags) \<or> 0 < sint (rf_memMB flags)
     then \<exists>m. sint m = sint (rf_memMB flags) * 1048576 \<and>
       res = Some \<lparr>rs_cpu_shares = rf_cpuShares flags, rs_cpu_quota_pct = 0, rs_mem_limit_bytes = m,
         rs_io_weight = 0, rs_pids_limit = 0\<rparr>
     else res = None) \<and>
    info = zero_process_info
      \<lparr>pi_ref := \<lparr>ref_process_id = ge_id env, ref_lord_id = l_lord_id l, ref_local_pid = 0\<rparr>,
       pi_tenant_id := cl_tenantID cfg, pi_exec_path := execPath, pi_argv := argv, pi_resources := res,
       pi_state := PROCESS_STATE_READY, pi_state_changed_at := Some (ge_now env),
       pi_state_dump_path := rf_stateDump flags,
       pi_max_restarts := (if rf_maxRestarts flags = 0 then 10 else rf_maxRestarts flags)\<rparr> \<and>
    dir (sv_processes sv') = (dir (sv_processes sv))(ge_id env \<mapsto> info) \<and>
    (\<exists>s evs. sv_sessions sv' (l_lord_id l) = Some s \<and> ls_outbox s = evs @ [Ev_Spawn (zero_spawn_request
      \<lparr>sr_process_id := ge_id env, sr_tenant_id := cl_tenantID cfg, sr_exec_path := execPath, sr_argv := argv,
       sr_env := (if rf_stateDump flags = '''' then None else Some [''ETRONIUM_STATE_DUMP'' \<mapsto> rf_stateDump flags]),
       sr_resources := res, sr_max_restarts := (if rf_maxRestarts flags = 0 then 10 else rf_maxRestarts flags),
       sr_state_dump_path_hint := rf_stateDump flags\<rparr>)])"
proof -
  let ?req = "run_request cfg flags execPath argv"
  let ?res = "sr_resources ?req"
  obtain info where sp: "Spawn env ?req sv = (Inr info, sv')" and outs: "outs = printProcessInfo cfg info"
    using assms(3) by (auto simp: cli_run_def split: option.splits prod.splits sum.splits)
  have req: "?req = zero_spawn_request\<lparr>sr_tenant_id := cl_tenantID cfg, sr_exec_path := execPath, sr_argv := argv,
      sr_resources := ?res, sr_prefer_lord_id := rf_preferLord flags, sr_max_restarts := rf_maxRestarts flags,
      sr_state_dump_path_hint := rf_stateDump flags\<rparr>"
    by (simp add: run_request_def zero_spawn_request_def Let_def)
  have res: "if 0 < sint (rf_cpuShares flags) \<or> 0 < sint (rf_memMB flags)
     then \<exists>m. sint m = sint (rf_memMB flags) * 1048576 \<and>
       ?res = Some \<lparr>rs_cpu_shares = rf_cpuShares flags, rs_cpu_quota_pct = 0, rs_mem_limit_bytes = m,
         rs_io_weight = 0, rs_pids_limit = 0\<rparr>
     else ?res = None"
    using mem_limit_exact [of "rf_memMB flags"] by (simp add: run_request_def zero_spawn_request_def Let_def)
  from sp show ?thesis
  proof (cases rule: Spawn_cases)
    case (spawned l sv1)
    note pt = tbl_invD(1) [OF sv_invD(1) [OF assms(1)]]
    have info: "info = spawn_info env (l_lord_id l) ?req"
      using spawned(5,7) by (simp add: info_at_Create [OF pt])
    have "sv_processes sv' = sv_processes sv1"
      using spawned(6) by (metis SendSpawn_frame(1) snd_conv)
    then have d: "dir (sv_processes sv') = (dir (sv_processes sv))(ge_id env \<mapsto> info)"
      by (simp add: spawned(5) dir_Create [OF pt] info)
    have pick: "Lords_Pick (sv_lords sv) (ge_lords env) (rf_preferLord flags) = Some l"
      using spawned(4) by (subst (asm) req) (simp add: zero_spawn_request_def)
    then have pref: "\<forall>e. rf_preferLord flags \<noteq> '''' \<and> lr_byID (sv_lords sv) (rf_preferLord flags) = Some e \<and>
       le_healthy e \<and> \<not> le_drain_requested e \<and> hasCapacity (le_info e) \<longrightarrow> l = le_info e"
      by (auto simp: Lords_Pick_def)
    have p: "placeable (sv_lords sv) l"
      using Lords_Pick_sound [OF sv_invD(2) [OF assms(1)] assms(2) spawned(4)] .
    have q: "\<exists>s evs. sv_sessions sv' (l_lord_id l) = Some s \<and>
        ls_outbox s = evs @ [Ev_Spawn (buildSpawnRequest info ?req)]"
      using SendSpawn_sessions [OF spawned(6)] info by auto
    have i: "info = zero_process_info
      \<lparr>pi_ref := \<lparr>ref_process_id = ge_id env, ref_lord_id = l_lord_id l, ref_local_pid = 0\<rparr>,
       pi_tenant_id := cl_tenantID cfg, pi_exec_path := execPath, pi_argv := argv, pi_resources := ?res,
       pi_state := PROCESS_STATE_READY, pi_state_changed_at := Some (ge_now env),
       pi_state_dump_path := rf_stateDump flags,
       pi_max_restarts := (if rf_maxRestarts flags = 0 then 10 else rf_maxRestarts flags)\<rparr>"
      unfolding info by (subst (1) req) (simp add: spawn_info_def zero_spawn_request_def zero_process_info_def copyMap_def)
    have b: "buildSpawnRequest info ?req = zero_spawn_request
      \<lparr>sr_process_id := ge_id env, sr_tenant_id := cl_tenantID cfg, sr_exec_path := execPath, sr_argv := argv,
       sr_env := (if rf_stateDump flags = '''' then None else Some [''ETRONIUM_STATE_DUMP'' \<mapsto> rf_stateDump flags]),
       sr_resources := ?res, sr_max_restarts := (if rf_maxRestarts flags = 0 then 10 else rf_maxRestarts flags),
       sr_state_dump_path_hint := rf_stateDump flags\<rparr>"
      unfolding i by (subst (1 2) req)
        (simp add: buildSpawnRequest_def zero_spawn_request_def copyMap_def Let_def)
    show ?thesis
      using outs p pick pref res i d q [unfolded b] by blast
  qed simp_all
qed

text \<open>C14: what is typed into a shell reaches the requests unchanged: if no call fails, the data of the
  requests is what was read up to the end of the input, in order, all for the process of the shell,
  and the last request, and only it, closes the input.\<close>

theorem shell_input_complete:
  assumes "reads = map (\<lambda>d. (d, False)) ds @ [(d, True)]"
  shows "let reqs = shell_input p None reads in
    concat (map ws_data reqs) = concat ds @ d \<and> (\<forall>r\<in>set reqs. ws_process_id r = p) \<and>
    (\<exists>rs r. reqs = rs @ [r] \<and> ws_eof r \<and> (\<forall>r\<in>set rs. \<not> ws_eof r))"
proof -
  have "concat (map ws_data (shell_input p None (map (\<lambda>d. (d, False)) ds @ [(d, True)]))) = concat ds @ d \<and>
    (\<forall>r\<in>set (shell_input p None (map (\<lambda>d. (d, False)) ds @ [(d, True)])). ws_process_id r = p) \<and>
    (\<exists>rs r. shell_input p None (map (\<lambda>d. (d, False)) ds @ [(d, True)]) = rs @ [r] \<and> ws_eof r \<and>
       (\<forall>r\<in>set rs. \<not> ws_eof r))"
  proof (induction ds)
    case Nil
    then show ?case
    proof (cases "d = []")
      case True
      then show ?thesis
        by (intro conjI exI [of _ "[]"] exI [of _ "stdin_request p [] True"])
          (simp_all add: stdin_request_def)
    next
      case False
      then show ?thesis
        by (intro conjI exI [of _ "[stdin_request p d False]"] exI [of _ "stdin_request p [] True"])
          (simp_all add: stdin_request_def)
    qed
  next
    case (Cons e ds)
    then obtain rs r where rs: "shell_input p None (map (\<lambda>d. (d, False)) ds @ [(d, True)]) = rs @ [r]"
      "ws_eof r" "\<forall>r\<in>set rs. \<not> ws_eof r" by blast
    have step: "shell_input p None (map (\<lambda>d. (d, False)) (e # ds) @ [(d, True)]) =
        (if e = [] then [] else [stdin_request p e False]) @ (rs @ [r])"
      by (simp add: rs(1))
    have ih: "concat (map ws_data (rs @ [r])) = concat ds @ d" "\<forall>q\<in>set (rs @ [r]). ws_process_id q = p"
      using Cons rs(1) by simp_all
    show ?case
      unfolding step
      by (intro conjI exI [of _ "(if e = [] then [] else [stdin_request p e False]) @ rs"] exI [of _ r])
        (use ih rs(2,3) in \<open>simp_all add: stdin_request_def\<close>)
  qed
  then show ?thesis by (simp add: assms Let_def)
qed

text \<open>\<open>attach\<close> prints the bytes the server has kept, on the standard output, and nothing else.\<close>

lemma attach_prints_buffer:
  assumes "ce_dial ce (cl_schedulerAddr cfg) = None" "PT_Get (sv_processes sv) p = Some a"
  shows "cli_attach_dump ce cfg p sv = (None,
    (let data = rb_Bytes (pe_ioBuf (entry_at (sv_processes sv) a)) in
     if data = [] then [] else [Raw_out data]))"
  using assms by (simp add: cli_attach_dump_def dial_then_def StreamProcessIO_dump_def stdout_chunk_def Let_def)

text \<open>A wait with a timeout ends in time: from the timeout on it can return, with the state of the
  process, and before the end of the client's context, 30 seconds later, it never fails.\<close>

theorem cli_wait_in_time:
  assumes "ce_dial ce (cl_schedulerAddr cfg) = None" "PT_Get (sv_processes sv) p = Some a"
    and "0 < sint t" "sint t < 2 ^ 31 - 30"
  shows "(sint t * Second \<le> elapsed \<longrightarrow>
      (None, printProcessInfo cfg (sv_info sv a)) \<in> set (cli_wait_ready ce cfg t p sv elapsed)) \<and>
    (elapsed < (sint t + 30) * Second \<longrightarrow>
      (\<forall>r\<in>set (cli_wait_ready ce cfg t p sv elapsed). r = (None, printProcessInfo cfg (sv_info sv a))))"
proof -
  have "sint (t + 30) = sint t + 30"
  proof -
    have "t + 30 = word_of_int (sint t + 30)" by simp
    then show ?thesis using assms(3,4) by (simp only:) (rule sint_of_int_i32, simp_all)
  qed
  then have dl: "wait_deadline t = (sint t + 30) * Second" by (simp add: wait_deadline_def)
  show ?thesis
    using assms by (auto simp: cli_wait_ready_def Wait_ready_def Let_def dl)
qed

text \<open>The help of the flag says that 0 waits for ever. It does not: while the process runs there is
  no answer for 30 seconds, and then only an error.\<close>

theorem cli_wait_zero_fails:
  assumes "ce_dial ce (cl_schedulerAddr cfg) = None" "PT_Get (sv_processes sv) p = Some a"
    and "\<not> pe_exited (entry_at (sv_processes sv) a)"
  shows "cli_wait_ready ce cfg 0 p sv elapsed =
    (if 30 * Second \<le> elapsed then [(Some (Status DeadlineExceeded ''context deadline exceeded''), [])]
     else [])"
  using assms by (simp add: cli_wait_ready_def Wait_ready_def Let_def wait_deadline_def)

text \<open>A shell asks for no restarts, and gets ten: the scheduler takes 0 for the default.\<close>

theorem shell_is_restarted:
  assumes "sv_inv sv" "shell_start ce cfg env shellPath preferLord sv = (Inr (info, outs), sv')"
  shows "sr_max_restarts (shell_request cfg shellPath preferLord) = 0 \<and> pi_max_restarts info = 10"
proof -
  let ?req = "shell_request cfg shellPath preferLord"
  have m: "sr_max_restarts ?req = 0" by (simp add: shell_request_def zero_spawn_request_def)
  have "Spawn env ?req sv = (Inr info, sv')"
    using assms(2) by (auto simp: shell_start_def split: option.splits prod.splits sum.splits)
  then have "pi_max_restarts info = 10"
  proof (cases rule: Spawn_cases)
    case (spawned l sv1)
    have "info = spawn_info env (l_lord_id l) ?req"
      using spawned(5,7) by (simp add: info_at_Create [OF tbl_invD(1) [OF sv_invD(1) [OF assms(1)]]])
    then show ?thesis by (simp add: spawn_info_def m)
  qed simp_all
  then show ?thesis using m by simp
qed


subsection \<open>The commands on concrete inputs\<close>

definition demo_ce :: cli_env where
  "demo_ce = \<lparr>ce_getenv = (\<lambda>k. if k = ''ETRONIUM_TENANT'' then ''t1'' else ''''), ce_dial = (\<lambda>a. None)\<rparr>"

lemma demo_cfg: "cli_defaults demo_ce = \<lparr>cl_schedulerAddr = ''localhost:51061'', cl_tenantID = ''t1'',
    cl_outputJSON = False\<rparr>"
  by (simp add: cli_defaults_def envOr_def demo_ce_def)

lemma demo_dial: "ce_dial demo_ce a = None"
  by (simp add: demo_ce_def)

definition demo_flags :: run_flags where
  "demo_flags = run_defaults\<lparr>rf_memMB := 100, rf_preferLord := ''a'', rf_stateDump := ''/s/a.json''\<rparr>"

lemma demo_run_request: "run_request (cli_defaults demo_ce) demo_flags ''/bin/ls'' [''-l''] =
    zero_spawn_request\<lparr>sr_tenant_id := ''t1'', sr_exec_path := ''/bin/ls'', sr_argv := [''-l''],
      sr_prefer_lord_id := ''a'', sr_max_restarts := 10,
      sr_resources := Some \<lparr>rs_cpu_shares = 0, rs_cpu_quota_pct = 0, rs_mem_limit_bytes = 104857600,
        rs_io_weight = 0, rs_pids_limit = 0\<rparr>,
      sr_state_dump_path_hint := ''/s/a.json''\<rparr>"
  by (simp add: run_request_def demo_flags_def run_defaults_def demo_cfg Let_def zero_spawn_request_def)

lemma demo_run: "\<exists>outs sv'. cli_run demo_ce (cli_defaults demo_ce) demo_env demo_flags ''/bin/ls'' [''-l'']
    demo_server = ((None, outs), sv')"
proof -
  have l: "l_lord_id (demo_lord ''a'' 80) = ''a''" by (simp add: demo_lord_def)
  have s: "sv_sessions demo_server ''a'' = Some (newLordSession ''a'')"
    by (simp add: demo_server_def)
  have "\<exists>info sv'. Spawn demo_env (run_request (cli_defaults demo_ce) demo_flags ''/bin/ls'' [''-l''])
      demo_server = (Inr info, sv')"
    unfolding demo_run_request using l s
    by (simp add: Spawn_def demo_server_tables demo_pick zero_spawn_request_def
        validateResources_def getSession_def Let_def case_prod_beta SendSpawn_def on_processes_def
        outbox_send5_room newLordSession_def outbox_cap_def)
  then show ?thesis by (auto simp: cli_run_def demo_dial)
qed

theorem run_creates_requested_witness:
  "\<exists>outs sv' info. cli_run demo_ce (cli_defaults demo_ce) demo_env demo_flags ''/bin/ls'' [''-l'']
     demo_server = ((None, outs), sv') \<and> dir (sv_processes sv') ''p9'' = Some info \<and>
     pi_tenant_id info = ''t1'' \<and> pi_argv info = [''-l''] \<and> pi_max_restarts info = 10 \<and>
     pi_lord_id info = ''a'' \<and> pi_state_dump_path info = ''/s/a.json''"
proof -
  obtain outs sv' where r: "cli_run demo_ce (cli_defaults demo_ce) demo_env demo_flags ''/bin/ls'' [''-l'']
     demo_server = ((None, outs), sv')" using demo_run by blast
  have o1: "iter_order (lr_byID (sv_lords demo_server)) (ge_lords demo_env)"
    using demo_registry_order by (simp add: demo_server_tables demo_env_def)
  have f: "rf_maxRestarts demo_flags = 10" "ge_id demo_env = ''p9''" "rf_preferLord demo_flags = ''a''"
    "rf_stateDump demo_flags = ''/s/a.json''" "l_lord_id (demo_lord ''a'' 80) = ''a''"
    by (simp_all add: demo_flags_def run_defaults_def demo_env_def demo_lord_def)
  obtain l info where i: "Lords_Pick (sv_lords demo_server) (ge_lords demo_env) (rf_preferLord demo_flags) = Some l"
    "pi_ref info = \<lparr>ref_process_id = ge_id demo_env, ref_lord_id = l_lord_id l, ref_local_pid = 0\<rparr>"
    "pi_tenant_id info = cl_tenantID (cli_defaults demo_ce)" "pi_argv info = [''-l'']" "pi_max_restarts info = 10"
    "pi_state_dump_path info = rf_stateDump demo_flags"
    "dir (sv_processes sv') = (dir (sv_processes demo_server))(''p9'' \<mapsto> info)"
  proof -
    from run_creates_requested [OF demo_server_inv o1 r] obtain l res info where
      "Lords_Pick (sv_lords demo_server) (ge_lords demo_env) (rf_preferLord demo_flags) = Some l"
      "info = zero_process_info
      \<lparr>pi_ref := \<lparr>ref_process_id = ge_id demo_env, ref_lord_id = l_lord_id l, ref_local_pid = 0\<rparr>,
       pi_tenant_id := cl_tenantID (cli_defaults demo_ce), pi_exec_path := ''/bin/ls'', pi_argv := [''-l''],
       pi_resources := res, pi_state := PROCESS_STATE_READY, pi_state_changed_at := Some (ge_now demo_env),
       pi_state_dump_path := rf_stateDump demo_flags,
       pi_max_restarts := (if rf_maxRestarts demo_flags = 0 then 10 else rf_maxRestarts demo_flags)\<rparr>"
      "dir (sv_processes sv') = (dir (sv_processes demo_server))(ge_id demo_env \<mapsto> info)"
      by (elim exE conjE)
    then show thesis by (intro that [of l info]) (simp_all add: f(1,2))
  qed
  then have "l = demo_lord ''a'' 80" by (simp add: f(3) demo_server_tables demo_pick)
  then show ?thesis using r i f by (simp add: demo_cfg)
qed

theorem shell_input_complete_witness:
  "concat (map ws_data (shell_input ''p1'' None [([108], False), ([115, 10], False), ([], True)])) = [108, 115, 10]"
  using shell_input_complete [of "[([108], False), ([115, 10], False), ([], True)]" "[[108], [115, 10]]" "[]" "''p1''"]
  by (simp add: Let_def)

theorem cli_wait_in_time_witness:
  "(None, printProcessInfo (cli_defaults demo_ce) (info_at demo_table 0)) \<in>
     set (cli_wait_ready demo_ce (cli_defaults demo_ce) 5 ''p1'' demo_server (6 * Second))"
  using cli_wait_in_time [of demo_ce "cli_defaults demo_ce" demo_server "''p1''" 0 5 "6 * Second"]
  by (simp add: demo_dial demo_server_tables demo_table_Get sv_info_def Second_def)

end
