(* ===== verification/Go_Parse.thy ===== *)
theory Go_Parse
  imports Go_Text Float64
begin

section \<open>Reading settings from text (packages strconv, fmt and time)\<close>

text \<open>
  The parsers that the settings go through: integers, the verb d of \<open>Sscanf\<close>, floating point numbers
  and durations. None is an error; the program uses no more of it. A string is a list of bytes.
\<close>

subsection \<open>Integers\<close>

definition is_digit :: "char \<Rightarrow> bool" where
  "is_digit c \<longleftrightarrow> digit_val c \<noteq> None"

fun strip_sign :: "string \<Rightarrow> bool \<times> string" where
  "strip_sign [] = (False, [])"
| "strip_sign (c # cs) =
     (if c = CHR ''-'' then (True, cs) else if c = CHR ''+'' then (False, cs) else (False, c # cs))"

text \<open>\<open>ParseInt(s, 10, bits)\<close> and \<open>Atoi\<close>.\<close>

definition ParseInt :: "nat \<Rightarrow> string \<Rightarrow> int option" where
  "ParseInt bits s =
     (case strip_sign s of (neg, t) \<Rightarrow>
      case ParseUint t of (un, bad) \<Rightarrow>
        if bad then None
        else if \<not> neg \<and> 2 ^ (bits - 1) \<le> un then None
        else if neg \<and> 2 ^ (bits - 1) < un then None
        else Some (if neg then - int un else int un))"

definition Atoi :: "string \<Rightarrow> int option" where
  "Atoi s = ParseInt 64 s"

text \<open>\<open>Sscanf(s, "%d", &n)\<close>: leading space is skipped (a line end is an error), what follows the
  digits is ignored.\<close>

fun scan_space :: "string \<Rightarrow> string option" where
  "scan_space [] = Some []"
| "scan_space (c # cs) =
     (if c = CHR 0x0D \<and> take 1 cs = [CHR 0x0A] then scan_space cs
      else if c = CHR 0x0A then None
      else if is_space c then scan_space cs
      else Some (c # cs))"

definition Sscanf_d :: "string \<Rightarrow> int option" where
  "Sscanf_d s =
     (case scan_space s of
        None \<Rightarrow> None
      | Some t \<Rightarrow>
          (case strip_sign t of (neg, u) \<Rightarrow>
             let ds = takeWhile is_digit u in
             if ds = [] then None else ParseInt 64 ((if neg then ''-'' else []) @ ds)))"

subsection \<open>Durations\<close>

text \<open>\<open>leadingInt\<close> and \<open>leadingFraction\<close>.\<close>

fun leading_int :: "nat \<Rightarrow> string \<Rightarrow> (nat \<times> string) option" where
  "leading_int x [] = Some (x, [])"
| "leading_int x (c # cs) =
     (case digit_val c of
        None \<Rightarrow> Some (x, c # cs)
      | Some d \<Rightarrow>
          if 2 ^ 63 div 10 < x then None
          else if 2 ^ 63 < x * 10 + d then None
          else leading_int (x * 10 + d) cs)"

fun leading_fraction :: "nat \<Rightarrow> f64 \<Rightarrow> bool \<Rightarrow> string \<Rightarrow> nat \<times> f64 \<times> string" where
  "leading_fraction x scale ovf [] = (x, scale, [])"
| "leading_fraction x scale ovf (c # cs) =
     (case digit_val c of
        None \<Rightarrow> (x, scale, c # cs)
      | Some d \<Rightarrow>
          if ovf \<or> (2 ^ 63 - 1) div 10 < x \<or> 2 ^ 63 < x * 10 + d
          then leading_fraction x scale True cs
          else leading_fraction (x * 10 + d) (scale * f64_of_int 10) False cs)"

definition duration_unit :: "string \<Rightarrow> nat option" where
  "duration_unit u =
     (if u = ''ns'' then Some 1
      else if u = ''us'' \<or> u = [CHR 0xC2, CHR 0xB5, CHR ''s''] \<or> u = [CHR 0xCE, CHR 0xBC, CHR ''s'']
      then Some (10 ^ 3)
      else if u = ''ms'' then Some (10 ^ 6)
      else if u = ''s'' then Some (10 ^ 9)
      else if u = ''m'' then Some (60 * 10 ^ 9)
      else if u = ''h'' then Some (3600 * 10 ^ 9)
      else None)"

definition unit_char :: "char \<Rightarrow> bool" where
  "unit_char c \<longleftrightarrow> c \<noteq> CHR ''.'' \<and> \<not> is_digit c"

text \<open>One number with its unit, in nanoseconds, and the rest.\<close>

definition duration_item :: "string \<Rightarrow> (nat \<times> string) option" where
  "duration_item s =
     (if s = [] \<or> \<not> (hd s = CHR ''.'' \<or> is_digit (hd s)) then None
      else case leading_int 0 s of
        None \<Rightarrow> None
      | Some (v, s1) \<Rightarrow>
          let pre = length s1 \<noteq> length s;
              (f, scale, post, s2) =
                (if s1 \<noteq> [] \<and> hd s1 = CHR ''.''
                 then (case leading_fraction 0 1 False (tl s1) of
                         (f, scale, s2) \<Rightarrow> (f, scale, length s2 \<noteq> length (tl s1), s2))
                 else (0, 1, False, s1));
              u = takeWhile unit_char s2; rest = dropWhile unit_char s2 in
          if \<not> pre \<and> \<not> post then None
          else if u = [] then None
          else case duration_unit u of
            None \<Rightarrow> None
          | Some unit \<Rightarrow>
              if 2 ^ 63 div unit < v then None
              else let v1 = v * unit;
                       v2 = (if 0 < f
                             then v1 + unat (f64_to_u64 (f64_of_int (int f) * (f64_of_int (int unit) / scale)))
                             else v1)
                   in if 0 < f \<and> 2 ^ 63 < v2 then None else Some (v2, rest))"

lemma leading_int_rest: "leading_int x s = Some (v, t) \<Longrightarrow> length t \<le> length s"
  by (induction x s rule: leading_int.induct) (auto split: option.splits if_splits)

lemma leading_fraction_rest: "leading_fraction x scale ovf s = (f, sc, t) \<Longrightarrow> length t \<le> length s"
  by (induction x scale ovf s rule: leading_fraction.induct) (auto split: option.splits if_splits)

lemma dropWhile_shorter: "takeWhile P xs \<noteq> [] \<Longrightarrow> length (dropWhile P xs) < length xs"
  by (cases xs) (auto simp: le_imp_less_Suc length_dropWhile_le split: if_splits)

lemma duration_item_rest:
  assumes "duration_item s = Some (v, rest)"
  shows "length rest < length s"
proof -
  obtain w s1 where s1: "leading_int 0 s = Some (w, s1)"
    using assms by (auto simp: duration_item_def split: if_splits option.splits)
  define s2 where "s2 = (if s1 \<noteq> [] \<and> hd s1 = CHR ''.''
    then snd (snd (leading_fraction 0 1 False (tl s1))) else s1)"
  have "takeWhile unit_char s2 \<noteq> []" "rest = dropWhile unit_char s2"
    using assms unfolding s2_def
    by (auto simp: duration_item_def s1 Let_def case_prod_beta split: if_splits option.splits)
  then have "length rest < length s2" using dropWhile_shorter by blast
  also have "length s2 \<le> length s1"
  proof (cases "s1 \<noteq> [] \<and> hd s1 = CHR ''.''")
    case True
    then show ?thesis
      using leading_fraction_rest [of 0 1 False "tl s1"]
      by (cases "leading_fraction 0 1 False (tl s1)") (fastforce simp: s2_def)
  qed (auto simp: s2_def)
  also have "length s1 \<le> length s" using leading_int_rest [OF s1] .
  finally show ?thesis .
qed

text \<open>The sum is a 64-bit number and can wrap around.\<close>

function duration_loop :: "nat \<Rightarrow> string \<Rightarrow> nat option" where
  "duration_loop d s =
     (if s = [] then Some d
      else case duration_item s of
        None \<Rightarrow> None
      | Some (v, rest) \<Rightarrow>
          let d' = (d + v) mod 2 ^ 64 in if 2 ^ 63 < d' then None else duration_loop d' rest)"
  by pat_completeness auto
termination
proof (relation "measure (\<lambda>(d, s). length s)")
  fix d :: nat and s x v rest d'
  assume "duration_item s = Some x" "(v, rest) = x"
  then show "((d', rest), (d, s)) \<in> measure (\<lambda>(d, s). length s)"
    using duration_item_rest [of s v rest] by simp
qed simp

declare duration_loop.simps [simp del]

definition ParseDuration :: "string \<Rightarrow> duration option" where
  "ParseDuration s =
     (case strip_sign s of (neg, t) \<Rightarrow>
        if t = ''0'' then Some 0
        else if t = [] then None
        else case duration_loop 0 t of
          None \<Rightarrow> None
        | Some d \<Rightarrow> if neg then Some (- int d) else if 2 ^ 63 - 1 < d then None else Some (int d))"

subsection \<open>Floating point numbers\<close>

definition lower_char :: "char \<Rightarrow> char" where
  "lower_char c = (if CHR ''A'' \<le> c \<and> c \<le> CHR ''Z'' then char_of (of_char c + 32 :: nat) else c)"

definition hex_val :: "char \<Rightarrow> nat option" where
  "hex_val c =
     (case digit_val c of
        Some d \<Rightarrow> Some d
      | None \<Rightarrow> if CHR ''a'' \<le> lower_char c \<and> lower_char c \<le> CHR ''f''
                then Some (of_char (lower_char c) - 87) else None)"

text \<open>The digits: their value, how many follow the point, whether there are any, underscores seen.\<close>

fun mantissa_loop ::
  "bool \<Rightarrow> bool \<Rightarrow> nat \<Rightarrow> nat \<Rightarrow> bool \<Rightarrow> bool \<Rightarrow> string \<Rightarrow> (nat \<times> nat \<times> bool \<times> bool) \<times> string" where
  "mantissa_loop hex dot m k any us [] = ((m, k, any, us), [])"
| "mantissa_loop hex dot m k any us (c # cs) =
     (if c = CHR ''_'' then mantissa_loop hex dot m k any True cs
      else if c = CHR ''.'' then
        (if dot then ((m, k, any, us), c # cs) else mantissa_loop hex True m k any us cs)
      else case (if hex then hex_val c else digit_val c) of
        Some d \<Rightarrow> mantissa_loop hex dot (m * (if hex then 16 else 10) + d) (if dot then k + 1 else k) True us cs
      | None \<Rightarrow> ((m, k, any, us), c # cs))"

text \<open>The exponent up to the end of the string; it stops growing at 10000.\<close>

fun exponent_loop :: "nat \<Rightarrow> bool \<Rightarrow> string \<Rightarrow> (nat \<times> bool) option" where
  "exponent_loop e us [] = Some (e, us)"
| "exponent_loop e us (c # cs) =
     (if c = CHR ''_'' then exponent_loop e True cs
      else case digit_val c of
        Some d \<Rightarrow> exponent_loop (if e < 10000 then e * 10 + d else e) us cs
      | None \<Rightarrow> None)"

definition parse_exponent :: "bool \<Rightarrow> string \<Rightarrow> (int \<times> bool) option" where
  "parse_exponent hex s =
     (case s of
        [] \<Rightarrow> if hex then None else Some (0, False)
      | c # cs \<Rightarrow>
          if lower_char c = (if hex then CHR ''p'' else CHR ''e'') then
            (case strip_sign cs of (neg, ds) \<Rightarrow>
               if ds = [] \<or> \<not> is_digit (hd ds) then None
               else map_option (\<lambda>(e, us). (if neg then - int e else int e, us)) (exponent_loop 0 False ds))
          else None)"

text \<open>\<open>underscoreOK\<close>: the last character seen is a digit or prefix, an underscore, or neither.\<close>

datatype saw = Saw_begin | Saw_digit | Saw_underscore | Saw_other

fun underscore_loop :: "bool \<Rightarrow> saw \<Rightarrow> string \<Rightarrow> bool" where
  "underscore_loop hex saw [] = (saw \<noteq> Saw_underscore)"
| "underscore_loop hex saw (c # cs) =
     (if is_digit c \<or> (hex \<and> hex_val c \<noteq> None) then underscore_loop hex Saw_digit cs
      else if c = CHR ''_'' then saw = Saw_digit \<and> underscore_loop hex Saw_underscore cs
      else saw \<noteq> Saw_underscore \<and> underscore_loop hex Saw_other cs)"

definition underscoreOK :: "string \<Rightarrow> bool" where
  "underscoreOK s =
     (let t = snd (strip_sign s) in
      if 2 \<le> length t \<and> hd t = CHR ''0'' \<and> lower_char (t ! 1) \<in> {CHR ''b'', CHR ''o'', CHR ''x''}
      then underscore_loop (lower_char (t ! 1) = CHR ''x'') Saw_digit (drop 2 t)
      else underscore_loop False Saw_begin t)"

definition float_value :: "bool \<Rightarrow> bool \<Rightarrow> nat \<Rightarrow> nat \<Rightarrow> int \<Rightarrow> f64" where
  "float_value neg hex m k e =
     (let x = of_nat m / of_nat (if hex then 16 else 10) ^ k * (if hex then 2 else 10) powi e in
      f64_round (if neg then - x else x))"

definition ParseFloat :: "string \<Rightarrow> f64 option" where
  "ParseFloat s =
     (case strip_sign s of (neg, t) \<Rightarrow>
        if map lower_char s = ''nan'' then Some NaN
        else if map lower_char t = ''inf'' \<or> map lower_char t = ''infinity''
        then Some (if neg then NInf else PInf)
        else
          let hex = (3 \<le> length t \<and> hd t = CHR ''0'' \<and> lower_char (t ! 1) = CHR ''x'');
              ((m, k, any, us1), rest) =
                mantissa_loop hex False 0 0 False False (if hex then drop 2 t else t) in
          if \<not> any then None
          else case parse_exponent hex rest of
            None \<Rightarrow> None
          | Some (e, us2) \<Rightarrow>
              if (us1 \<or> us2) \<and> \<not> underscoreOK s then None
              else (let x = float_value neg hex m k e in
                    if x = PInf \<or> x = NInf then None else Some x))"

subsection \<open>What the parsers accept\<close>

lemma digit_val_shown: "c \<in> set (show_nat n) \<Longrightarrow> \<exists>d<10. digit_val c = Some d"
  using show_nat_digits digit_val_char by blast

lemma strip_sign_show: "strip_sign (show_nat n @ t) = (False, show_nat n @ t)"
proof -
  have "digit_val (CHR ''-'') = None" "digit_val (CHR ''+'') = None"
    by (simp_all add: digit_val_def less_eq_char_def)
  moreover obtain c cs where c: "show_nat n = c # cs"
    using show_nat_nonempty [of n] by (cases "show_nat n") auto
  moreover have "digit_val c \<noteq> None"
    using digit_val_shown [of c n] unfolding c by auto
  ultimately have "c \<noteq> CHR ''-''" "c \<noteq> CHR ''+''" by metis+
  then show ?thesis unfolding c by simp
qed

lemma ParseInt_show: "n < 2 ^ (bits - 1) \<Longrightarrow> bits \<le> 64 \<Longrightarrow> ParseInt bits (show_nat n) = Some (int n)"
proof -
  assume n: "n < 2 ^ (bits - 1)" and b: "bits \<le> 64"
  have "(2 :: nat) ^ (bits - 1) \<le> 2 ^ 63" using b by (intro power_increasing) auto
  then have "n \<le> maxUint64" using n by (simp add: maxUint64_def)
  then show ?thesis
    using n strip_sign_show [of n "[]"] by (simp add: ParseInt_def ParseUint_show_nat)
qed

text \<open>A whole number of seconds is read back exactly.\<close>

lemma leading_int_append:
  "\<forall>c\<in>set xs. is_digit c \<Longrightarrow> leading_int x (xs @ ys) =
     (case leading_int x xs of None \<Rightarrow> None | Some (v, t) \<Rightarrow> leading_int v ys)"
  by (induction x xs rule: leading_int.induct) (auto simp: is_digit_def split: option.splits)

lemma leading_int_show: "n \<le> 2 ^ 63 \<Longrightarrow> leading_int 0 (show_nat n) = Some (n, [])"
proof (induction n rule: show_nat.induct)
  case (1 n)
  show ?case
  proof (cases "n < 10")
    case True
    then have "show_nat n = [char_of (48 + n)]" by (subst show_nat.simps) simp
    then show ?thesis using True by (simp add: digit_val_char)
  next
    case False
    have s: "show_nat n = show_nat (n div 10) @ [char_of (48 + n mod 10)]"
      using False by (subst show_nat.simps) simp
    have "n div 10 \<le> 2 ^ 63" using 1(2) by linarith
    then have IH: "leading_int 0 (show_nat (n div 10)) = Some (n div 10, [])"
      using 1(1) [OF False] by simp
    have d: "\<forall>c\<in>set (show_nat (n div 10)). is_digit c"
      using digit_val_shown by (fastforce simp: is_digit_def)
    have "n div 10 \<le> 2 ^ 63 div 10" using div_le_mono [OF 1(2), of 10] by simp
    moreover have "n div 10 * 10 + n mod 10 = n" by simp
    ultimately show ?thesis
      using 1(2) unfolding s leading_int_append [OF d] IH by (simp add: digit_val_char)
  qed
qed

lemma ParseDuration_seconds:
  assumes "int n * Second < 2 ^ 63"
  shows "ParseDuration (show_nat n @ ''s'') = Some (int n * Second)"
proof -
  have n: "n * 10 ^ 9 < 2 ^ 63"
    using assms by (simp add: Second_def)
  have d: "\<forall>c\<in>set (show_nat n). is_digit c"
    using digit_val_shown by (fastforce simp: is_digit_def)
  have sd: "digit_val (CHR ''s'') = None" "\<not> is_digit (CHR ''s'')"
    by (simp_all add: is_digit_def digit_val_def less_eq_char_def)
  have li: "leading_int 0 (show_nat n @ ''s'') = Some (n, ''s'')"
    unfolding leading_int_append [OF d] using n by (simp add: leading_int_show sd)
  have hd: "is_digit (hd (show_nat n @ ''s''))"
    using d show_nat_nonempty [of n] by (cases "show_nat n") auto
  have item: "duration_item (show_nat n @ ''s'') = Some (n * 10 ^ 9, [])"
    using hd n show_nat_nonempty [of n]
    by (simp add: duration_item_def li Let_def unit_char_def sd duration_unit_def)
  have ne: "show_nat n @ ''s'' \<noteq> ''0''" "show_nat n @ ''s'' \<noteq> []" by auto
  have "duration_loop 0 (show_nat n @ ''s'') = Some (n * 10 ^ 9)"
    using n by (subst duration_loop.simps) (simp add: item duration_loop.simps [of _ "[]"])
  then show ?thesis
    using n by (simp add: ParseDuration_def strip_sign_show ne Second_def)
qed


end
