(* ===== verification/Config.thy ===== *)
theory Config
  imports System Go_Parse
begin

section \<open>Settings and start-up (config.go of both programs, cmd/scheduler, cmd/lord)\<close>

text \<open>
  The settings come from environment variables (the empty string when unset) and flags. A setting of
  the autoscaler that does not parse is ignored; one of the two configurations that does not parse
  is an error, of which the model keeps the kind and the variable. A ticker whose period is not
  positive panics, as in the package \<open>time\<close>.
\<close>

subsection \<open>The scheduler\<close>

datatype config_error = Bad_value string | Bad_listen string | Addr_required

definition getEnv :: "(string \<Rightarrow> string) \<Rightarrow> string \<Rightarrow> string \<Rightarrow> string" where
  "getEnv env key dflt = (let v = env key in if v \<noteq> '''' then v else dflt)"

record sched_config =
  cf_ListenAddr :: string
  cf_SharedToken :: string
  cf_HeartbeatTTL :: duration
  cf_PlacementAlgo :: string
  cf_LogLevel :: string
  cf_BpftoolBin :: string

definition sched_LoadConfig :: "(string \<Rightarrow> string) \<Rightarrow> config_error + sched_config" where
  "sched_LoadConfig env =
     (let c = \<lparr>cf_ListenAddr = getEnv env ''SCHEDULER_LISTEN'' '':51061'',
                cf_SharedToken = getEnv env ''ETRONIUM_SHARED_TOKEN'' '''',
                cf_HeartbeatTTL = 30 * Second,
                cf_PlacementAlgo = getEnv env ''SCHEDULER_PLACEMENT'' ''trivial'',
                cf_LogLevel = getEnv env ''SCHEDULER_LOG_LEVEL'' ''info'',
                cf_BpftoolBin = getEnv env ''BPFTOOL_BIN'' ''bpftool''\<rparr>;
          ttl = (let v = env ''SCHEDULER_HEARTBEAT_TTL'' in
                 if v \<noteq> '''' then
                   (case ParseDuration v of
                      None \<Rightarrow> Inl (Bad_value ''SCHEDULER_HEARTBEAT_TTL'')
                    | Some d \<Rightarrow> Inr (c\<lparr>cf_HeartbeatTTL := d\<rparr>))
                 else Inr c) in
      case ttl of
        Inl err \<Rightarrow> Inl err
      | Inr c \<Rightarrow>
          if Atoi (tl (cf_ListenAddr c)) = None \<and> hd (cf_ListenAddr c) \<noteq> CHR '':''
          then Inl (Bad_listen (cf_ListenAddr c)) else Inr c)"

subsection \<open>The autoscaler\<close>

definition parseFloat :: "(string \<Rightarrow> string) \<Rightarrow> string \<Rightarrow> f64 \<Rightarrow> f64" where
  "parseFloat env key dflt =
     (let v = env key in
      if v \<noteq> '''' then (case ParseFloat v of Some f \<Rightarrow> f | None \<Rightarrow> dflt) else dflt)"

definition parseDur :: "(string \<Rightarrow> string) \<Rightarrow> string \<Rightarrow> duration \<Rightarrow> duration" where
  "parseDur env key dflt =
     (let v = env key in
      if v \<noteq> '''' then (case ParseDuration v of Some d \<Rightarrow> d | None \<Rightarrow> dflt) else dflt)"

definition parseInt :: "(string \<Rightarrow> string) \<Rightarrow> string \<Rightarrow> int \<Rightarrow> int" where
  "parseInt env key dflt =
     (let v = env key in
      if v \<noteq> '''' then (case Atoi v of Some i \<Rightarrow> i | None \<Rightarrow> dflt) else dflt)"

definition DefaultAutoscaleConfig :: "(string \<Rightarrow> string) \<Rightarrow> autoscale_config" where
  "DefaultAutoscaleConfig env =
     \<lparr>ac_Enabled = (getEnv env ''ETRONIUM_AUTOSCALE'' ''true'' \<noteq> ''false''),
      ac_Interval = parseDur env ''ETRONIUM_AUTOSCALE_INTERVAL'' (30 * Second),
      ac_Cooldown = parseDur env ''ETRONIUM_AUTOSCALE_COOLDOWN'' (60 * Second),
      ac_MaxPerMin = parseInt env ''ETRONIUM_AUTOSCALE_MAX_PER_MIN'' 5,
      ac_Score =
        \<lparr>sw_CPU = parseFloat env ''ETRONIUM_SCORE_CPU'' (f64_round (6 / 10)),
         sw_Mem = parseFloat env ''ETRONIUM_SCORE_MEM'' (f64_round (2 / 10)),
         sw_TaskCount = parseFloat env ''ETRONIUM_SCORE_TASK'' (f64_round (1 / 10)),
         sw_Reject = parseFloat env ''ETRONIUM_SCORE_REJECT'' (f64_round (1 / 10)),
         sw_Hysteresis = parseFloat env ''ETRONIUM_SCORE_HYST'' (f64_round (5 / 100))\<rparr>,
      ac_Thresh =
        \<lparr>th_OverloadCPU = parseFloat env ''ETRONIUM_THRESH_OVERLOAD_CPU'' (f64_round (80 / 100)),
         th_RebalanceDelta = parseFloat env ''ETRONIUM_THRESH_REBALANCE'' (f64_round (30 / 100)),
         th_BlacklistReject = parseFloat env ''ETRONIUM_THRESH_BLACKLIST'' (f64_round (5 / 100)),
         th_BlacklistDuration = parseDur env ''ETRONIUM_BLACKLIST_DURATION'' (60 * Second),
         th_DeadGrace = parseDur env ''ETRONIUM_DEAD_GRACE'' (60 * Second)\<rparr>\<rparr>"

subsection \<open>Start of the scheduler\<close>

definition NewTicker :: "duration \<Rightarrow> duration option" where
  "NewTicker d = (if 0 < d then Some d else None)"

text \<open>\<open>heartbeatSweeper\<close> and the loop of the autoscaler: the periods, None for a panic.\<close>

definition heartbeatSweeper :: "sched_config \<Rightarrow> duration option" where
  "heartbeatSweeper cfg = NewTicker (cf_HeartbeatTTL cfg sdiv 3)"

definition autoscale_ticker :: "autoscale_config \<Rightarrow> duration option option" where
  "autoscale_ticker cfg = (if ac_Enabled cfg then Some (NewTicker (ac_Interval cfg)) else None)"

text \<open>
  \<open>main\<close> up to the serving of requests: it exits, it panics, or it runs with a configuration. The
  flag \<open>addr\<close> is the value of \<open>--addr\<close>; its default is \<open>:51061\<close>. \<open>listen\<close> is the result of
  \<open>net.Listen\<close> for an address. The tickers are made in goroutines, which race with a failing \<open>Listen\<close>; of
  the two ends that the program can then have this is the panic.
\<close>

datatype sched_start = Exit_1 | Panics | Runs sched_config autoscale_config system

definition main_config :: "string \<Rightarrow> sched_config \<Rightarrow> sched_config" where
  "main_config addr cfg = (if addr \<noteq> '':50061'' then cfg\<lparr>cf_ListenAddr := addr\<rparr> else cfg)"

definition sched_main ::
  "(string \<Rightarrow> string) \<Rightarrow> string \<Rightarrow> (string \<Rightarrow> string option) \<Rightarrow> (nat \<Rightarrow> time) \<Rightarrow> (string \<Rightarrow> wal_file) \<Rightarrow>
     sched_start" where
  "sched_main env addr listen clk disk =
     (case sched_LoadConfig env of
        Inl _ \<Rightarrow> Exit_1
      | Inr cfg0 \<Rightarrow>
          let cfg = main_config addr cfg0;
              walPath = getEnv env ''SCHEDULER_WAL_PATH'' ''/tmp/etronium/scheduler.wal'';
              ac = DefaultAutoscaleConfig env in
          (case system_start clk (disk walPath) (cf_PlacementAlgo cfg) of
             None \<Rightarrow> Panics
           | Some sys \<Rightarrow>
               if heartbeatSweeper cfg = None \<or> autoscale_ticker ac = Some None then Panics
               else if listen (cf_ListenAddr cfg) \<noteq> None then Exit_1
               else Runs cfg ac sys))"

subsection \<open>The lord\<close>

record lord_config =
  lc_SchedulerAddr :: string
  lc_Hostname :: string
  lc_HeartbeatSec :: int
  lc_LogLevel :: string
  lc_AdvertisedCpuShares :: i32
  lc_AdvertisedMemBytes :: i64

text \<open>\<open>LoadConfig\<close>; no program calls it.\<close>

definition lord_LoadConfig :: "(string \<Rightarrow> string) \<Rightarrow> string \<Rightarrow> config_error + lord_config" where
  "lord_LoadConfig env hostname =
     (let c = \<lparr>lc_SchedulerAddr = getEnv env ''SCHEDULER_ADDR'' ''localhost:50061'',
                lc_Hostname = getEnv env ''LORD_HOSTNAME'' hostname, lc_HeartbeatSec = 10,
                lc_LogLevel = getEnv env ''LORD_LOG_LEVEL'' ''info'',
                lc_AdvertisedCpuShares = 0, lc_AdvertisedMemBytes = 0\<rparr>;
          v1 = env ''LORD_HEARTBEAT_SEC''; v2 = env ''LORD_ADVERTISE_CPU_SHARES'';
          v3 = env ''LORD_ADVERTISE_MEM_BYTES'' in
      if v1 \<noteq> '''' \<and> Sscanf_d v1 = None then Inl (Bad_value ''LORD_HEARTBEAT_SEC'')
      else let c1 = (if v1 \<noteq> '''' then c\<lparr>lc_HeartbeatSec := the (Sscanf_d v1)\<rparr> else c) in
      if v2 \<noteq> '''' \<and> ParseInt 32 v2 = None then Inl (Bad_value ''LORD_ADVERTISE_CPU_SHARES'')
      else let c2 = (if v2 \<noteq> '''' then c1\<lparr>lc_AdvertisedCpuShares := word_of_int (the (ParseInt 32 v2))\<rparr>
                     else c1) in
      if v3 \<noteq> '''' \<and> ParseInt 64 v3 = None then Inl (Bad_value ''LORD_ADVERTISE_MEM_BYTES'')
      else let c3 = (if v3 \<noteq> '''' then c2\<lparr>lc_AdvertisedMemBytes := word_of_int (the (ParseInt 64 v3))\<rparr>
                     else c2) in
      if lc_SchedulerAddr c3 = '''' then Inl Addr_required else Inr c3)"

text \<open>The flags of \<open>cmd/lord\<close>; their defaults, and the configuration made from them.\<close>

record lord_flags =
  lf_scheduler :: string
  lf_hostname :: string
  lf_log :: string
  lf_advertiseCpu :: int
  lf_advertiseMem :: i64

definition lord_flag_defaults :: "(string \<Rightarrow> string) \<Rightarrow> lord_flags" where
  "lord_flag_defaults env = \<lparr>lf_scheduler = getEnv env ''SCHEDULER_ADDR'' ''localhost:50061'',
     lf_hostname = '''', lf_log = ''info'', lf_advertiseCpu = 0, lf_advertiseMem = 0\<rparr>"

definition lord_main_config :: "(string \<Rightarrow> string) \<Rightarrow> string \<Rightarrow> lord_flags \<Rightarrow> lord_config" where
  "lord_main_config env osHostname flags =
     (let h1 = lf_hostname flags;
          h2 = (if h1 = '''' then getEnv env ''LORD_HOSTNAME'' '''' else h1);
          h3 = (if h2 = '''' then osHostname else h2) in
      \<lparr>lc_SchedulerAddr = lf_scheduler flags, lc_Hostname = h3, lc_HeartbeatSec = 10,
       lc_LogLevel = lf_log flags,
       lc_AdvertisedCpuShares = word_of_int (lf_advertiseCpu flags),
       lc_AdvertisedMemBytes = lf_advertiseMem flags\<rparr>)"

subsection \<open>Properties\<close>

text \<open>C6: the scheduler comes up with settings and a state exactly when they are those that the
  environment and the flag describe, both tickers have a positive period, the address can be listened on, and the
  state is what the replay of the log gives, with no session and no lord, the placement that was set, and the
  log attached. When an earlier scheduler left the log, that state has its processes with their durable data.\<close>

theorem sched_main_runs_iff:
  "(sched_main env addr listen clk disk = Runs cfg ac sys \<longleftrightarrow>
    (\<exists>cfg0 pt f. sched_LoadConfig env = Inr cfg0 \<and>
      cfg = (if addr = '':50061'' then cfg0 else cfg0\<lparr>cf_ListenAddr := addr\<rparr>) \<and>
      ac = DefaultAutoscaleConfig env \<and> 3 \<le> cf_HeartbeatTTL cfg \<and>
      (getEnv env ''ETRONIUM_AUTOSCALE'' ''true'' = ''false'' \<or>
       0 < parseDur env ''ETRONIUM_AUTOSCALE_INTERVAL'' (30 * Second)) \<and>
      listen (cf_ListenAddr cfg) = None \<and>
      scheduler_startup_wal clk (disk (getEnv env ''SCHEDULER_WAL_PATH'' ''/tmp/etronium/scheduler.wal'')) =
        Some (pt, f) \<and>
      sys = \<lparr>sys_server = NewServer pt (NewLordRegistry (cf_PlacementAlgo cfg0)), sys_scores = NewAutoscaleState\<rparr>)) \<and>
   (sched_main env addr listen clk disk = Runs cfg ac sys \<and> reachable ac0 algo0 sys0 \<and>
      pt_wal (sv_processes (sys_server sys0)) = Some ls \<and>
      disk (getEnv env ''SCHEDULER_WAL_PATH'' ''/tmp/etronium/scheduler.wal'') = F_lines ls \<longrightarrow>
    pt_wal (sv_processes (sys_server sys)) = Some ls \<and>
    (\<forall>p. map_option durable (sv_dir (sys_server sys) p) = map_option durable (sv_dir (sys_server sys0) p)))"
proof
  let ?path = "getEnv env ''SCHEDULER_WAL_PATH'' ''/tmp/etronium/scheduler.wal''"
  show iff: "sched_main env addr listen clk disk = Runs cfg ac sys \<longleftrightarrow>
    (\<exists>cfg0 pt f. sched_LoadConfig env = Inr cfg0 \<and>
      cfg = (if addr = '':50061'' then cfg0 else cfg0\<lparr>cf_ListenAddr := addr\<rparr>) \<and>
      ac = DefaultAutoscaleConfig env \<and> 3 \<le> cf_HeartbeatTTL cfg \<and>
      (getEnv env ''ETRONIUM_AUTOSCALE'' ''true'' = ''false'' \<or>
       0 < parseDur env ''ETRONIUM_AUTOSCALE_INTERVAL'' (30 * Second)) \<and>
      listen (cf_ListenAddr cfg) = None \<and> scheduler_startup_wal clk (disk ?path) = Some (pt, f) \<and>
      sys = \<lparr>sys_server = NewServer pt (NewLordRegistry (cf_PlacementAlgo cfg0)), sys_scores = NewAutoscaleState\<rparr>)"
  proof (cases "sched_LoadConfig env")
    case (Inr cfg0)
    let ?cfg = "main_config addr cfg0"
    have "heartbeatSweeper ?cfg \<noteq> None \<longleftrightarrow> 3 \<le> cf_HeartbeatTTL ?cfg"
      by (auto simp: heartbeatSweeper_def NewTicker_def main_config_def signed_divide_int_def sgn_if)
    moreover have "autoscale_ticker (DefaultAutoscaleConfig env) \<noteq> Some None \<longleftrightarrow>
        getEnv env ''ETRONIUM_AUTOSCALE'' ''true'' = ''false'' \<or>
        0 < parseDur env ''ETRONIUM_AUTOSCALE_INTERVAL'' (30 * Second)"
      by (auto simp: autoscale_ticker_def NewTicker_def DefaultAutoscaleConfig_def)
    moreover have "cf_PlacementAlgo ?cfg = cf_PlacementAlgo cfg0"
      "?cfg = (if addr = '':50061'' then cfg0 else cfg0\<lparr>cf_ListenAddr := addr\<rparr>)"
      by (simp_all add: main_config_def)
    ultimately show ?thesis
      using Inr by (auto simp: sched_main_def Let_def system_start_def split: option.splits)
  qed (simp add: sched_main_def)
  show "sched_main env addr listen clk disk = Runs cfg ac sys \<and> reachable ac0 algo0 sys0 \<and>
      pt_wal (sv_processes (sys_server sys0)) = Some ls \<and> disk ?path = F_lines ls \<longrightarrow>
    pt_wal (sv_processes (sys_server sys)) = Some ls \<and>
    (\<forall>p. map_option durable (sv_dir (sys_server sys) p) = map_option durable (sv_dir (sys_server sys0) p))"
  proof (intro impI, elim conjE)
    assume r: "sched_main env addr listen clk disk = Runs cfg ac sys" "reachable ac0 algo0 sys0"
      "pt_wal (sv_processes (sys_server sys0)) = Some ls" "disk ?path = F_lines ls"
    have "wal_inv (sv_processes (sys_server sys0))"
      using reachable_props [OF r(2)] by (meson sv_invD(1) tbl_invD(3))
    from startup_recovers [OF this r(3), where clk = clk] obtain t' where
      t: "scheduler_startup_wal clk (F_lines ls) = Some (t', F_lines ls)"
      "same_durable (dir t') (dir (sv_processes (sys_server sys0)))"
      by blast
    then have "sys_server sys = NewServer t' (NewLordRegistry (cf_PlacementAlgo cfg))"
      using iff r(1,4) by (auto split: if_splits)
    then show "pt_wal (sv_processes (sys_server sys)) = Some ls \<and>
      (\<forall>p. map_option durable (sv_dir (sys_server sys) p) = map_option durable (sv_dir (sys_server sys0) p))"
      using t(2) startup_lines_dir(2) [OF t(1)] by (simp add: same_durable_def NewServer_def)
  qed
qed

text \<open>The settings of the autoscaler with the default texts that the manual (AUTOSCALE.md) lists.\<close>

definition documented_settings :: "string \<Rightarrow> string" where
  "documented_settings k =
     (case map_of
       [(''ETRONIUM_AUTOSCALE'', ''true''), (''ETRONIUM_AUTOSCALE_INTERVAL'', ''30s''),
        (''ETRONIUM_AUTOSCALE_COOLDOWN'', ''60s''), (''ETRONIUM_AUTOSCALE_MAX_PER_MIN'', ''5''),
        (''ETRONIUM_SCORE_CPU'', ''0.6''), (''ETRONIUM_SCORE_MEM'', ''0.2''),
        (''ETRONIUM_SCORE_TASK'', ''0.1''), (''ETRONIUM_SCORE_REJECT'', ''0.1''),
        (''ETRONIUM_SCORE_HYST'', ''0.05''), (''ETRONIUM_THRESH_OVERLOAD_CPU'', ''0.80''),
        (''ETRONIUM_THRESH_REBALANCE'', ''0.30''), (''ETRONIUM_THRESH_BLACKLIST'', ''0.05''),
        (''ETRONIUM_BLACKLIST_DURATION'', ''60s''), (''ETRONIUM_DEAD_GRACE'', ''60s'')] k of
      Some v \<Rightarrow> v | None \<Rightarrow> '''')"

lemma digits_shown: "''30s'' = show_nat 30 @ ''s''" "''60s'' = show_nat 60 @ ''s''" "''5'' = show_nat 5"
  by code_simp+

lemma documented_durations:
  "ParseDuration ''30s'' = Some (30 * Second)" "ParseDuration ''60s'' = Some (60 * Second)"
  "Atoi ''5'' = Some 5"
  using ParseDuration_seconds [of 30] ParseDuration_seconds [of 60] ParseInt_show [of 5 64]
  by (simp_all add: digits_shown Atoi_def Second_def del: append.simps)

lemma documented_floats:
  "ParseFloat ''0.6'' = Some (f64_round (6 / 10))" "ParseFloat ''0.2'' = Some (f64_round (2 / 10))"
  "ParseFloat ''0.1'' = Some (f64_round (1 / 10))" "ParseFloat ''0.05'' = Some (f64_round (5 / 100))"
  "ParseFloat ''0.80'' = Some (f64_round (80 / 100))" "ParseFloat ''0.30'' = Some (f64_round (30 / 100))"
  by code_simp+

text \<open>The autoscaler that is started without settings is the one that the manual documents: setting
  every variable to the default that is listed for it changes nothing.\<close>

theorem autoscale_defaults_documented:
  "DefaultAutoscaleConfig documented_settings = DefaultAutoscaleConfig (\<lambda>_. '''') \<and>
   ac_Interval (DefaultAutoscaleConfig documented_settings) = 30 * Second \<and>
   ac_MaxPerMin (DefaultAutoscaleConfig documented_settings) = 5 \<and>
   th_OverloadCPU (ac_Thresh (DefaultAutoscaleConfig documented_settings)) = f64_round (4 / 5)"
proof -
  have e: "getEnv documented_settings ''ETRONIUM_AUTOSCALE'' ''true'' = ''true''"
    "parseDur documented_settings ''ETRONIUM_AUTOSCALE_INTERVAL'' d = 30 * Second"
    "parseDur documented_settings ''ETRONIUM_AUTOSCALE_COOLDOWN'' d = 60 * Second"
    "parseDur documented_settings ''ETRONIUM_BLACKLIST_DURATION'' d = 60 * Second"
    "parseDur documented_settings ''ETRONIUM_DEAD_GRACE'' d = 60 * Second"
    "parseInt documented_settings ''ETRONIUM_AUTOSCALE_MAX_PER_MIN'' i = 5"
    "parseFloat documented_settings ''ETRONIUM_SCORE_CPU'' f = f64_round (6 / 10)"
    "parseFloat documented_settings ''ETRONIUM_SCORE_MEM'' f = f64_round (2 / 10)"
    "parseFloat documented_settings ''ETRONIUM_SCORE_TASK'' f = f64_round (1 / 10)"
    "parseFloat documented_settings ''ETRONIUM_SCORE_REJECT'' f = f64_round (1 / 10)"
    "parseFloat documented_settings ''ETRONIUM_SCORE_HYST'' f = f64_round (5 / 100)"
    "parseFloat documented_settings ''ETRONIUM_THRESH_OVERLOAD_CPU'' f = f64_round (80 / 100)"
    "parseFloat documented_settings ''ETRONIUM_THRESH_REBALANCE'' f = f64_round (30 / 100)"
    "parseFloat documented_settings ''ETRONIUM_THRESH_BLACKLIST'' f = f64_round (5 / 100)"
    for d i f
    by (simp_all add: documented_settings_def getEnv_def parseDur_def parseInt_def parseFloat_def
        documented_durations documented_floats)
  have none: "getEnv (\<lambda>_. '''') k s = s" "parseDur (\<lambda>_. '''') k d = d" "parseInt (\<lambda>_. '''') k i = i"
    "parseFloat (\<lambda>_. '''') k f = f" for k s d i f
    by (simp_all add: getEnv_def parseDur_def parseInt_def parseFloat_def)
  show ?thesis unfolding DefaultAutoscaleConfig_def e none by simp
qed

text \<open>A heartbeat limit of n seconds in the environment is what the scheduler uses, whatever the
  other settings that parse: with it the sweep marks lords after n seconds and runs three times as
  often.\<close>

theorem heartbeat_ttl_setting:
  assumes "sched_LoadConfig env = Inr cfg" "0 < n" "int n * Second < 2 ^ 63"
  shows "sched_LoadConfig (env(''SCHEDULER_HEARTBEAT_TTL'' := show_nat n @ ''s'')) =
      Inr (cfg\<lparr>cf_HeartbeatTTL := int n * Second\<rparr>) \<and>
    heartbeatSweeper (cfg\<lparr>cf_HeartbeatTTL := int n * Second\<rparr>) = Some (int n * Second div 3)"
proof -
  let ?env = "env(''SCHEDULER_HEARTBEAT_TTL'' := show_nat n @ ''s'')"
  have g: "getEnv ?env k d = getEnv env k d" if "k \<noteq> ''SCHEDULER_HEARTBEAT_TTL''" for k d
    using that by (simp add: getEnv_def)
  have p: "ParseDuration (show_nat n @ ''s'') = Some (int n * Second)" "show_nat n @ ''s'' \<noteq> ''''"
    using ParseDuration_seconds [OF assms(3)] by simp_all
  have "sched_LoadConfig ?env = Inr (cfg\<lparr>cf_HeartbeatTTL := int n * Second\<rparr>)"
    using assms(1) p
    by (auto simp: sched_LoadConfig_def Let_def g split: if_splits option.splits)
  moreover have "0 < int n * Second div 3" using assms(2) by (simp add: Second_def)
  then have "heartbeatSweeper (cfg\<lparr>cf_HeartbeatTTL := int n * Second\<rparr>) = Some (int n * Second div 3)"
    by (simp add: heartbeatSweeper_def NewTicker_def signed_divide_int_def sgn_if Second_def)
  ultimately show ?thesis by simp
qed

text \<open>The variable for the address of the scheduler never has an effect, unless the flag is set to
  the port that is no longer the default.\<close>

lemma listen_setting_ignored:
  "addr \<noteq> '':50061'' \<Longrightarrow> sched_LoadConfig env = Inr cfg \<Longrightarrow> cf_ListenAddr (main_config addr cfg) = addr"
  by (simp add: main_config_def)

text \<open>A limit of less than three nanoseconds brings the scheduler down.\<close>

lemma zero_ttl_panics:
  "sched_LoadConfig env = Inr cfg \<Longrightarrow> cf_HeartbeatTTL cfg \<le> 0 \<Longrightarrow> sched_main env addr listen clk disk = Panics"
  by (auto simp: sched_main_def Let_def heartbeatSweeper_def NewTicker_def main_config_def
      signed_divide_int_def sgn_if split: option.split)

text \<open>The check of the address lets a port through that is no number.\<close>

lemma bad_port_accepted:
  "\<exists>cfg. sched_LoadConfig (\<lambda>k. if k = ''SCHEDULER_LISTEN'' then '':http'' else '''') = Inr cfg \<and>
     cf_ListenAddr cfg = '':http''"
  by (simp add: sched_LoadConfig_def getEnv_def Let_def)

theorem sched_main_runs_iff_witness:
  "\<exists>ls cfg ac sys. pt_wal (sv_processes (sys_server run2)) = Some ls \<and>
     sched_main (\<lambda>_. '''') '':51061'' (\<lambda>_. None) (\<lambda>_. 7) (\<lambda>_. F_lines ls) = Runs cfg ac sys \<and>
     cf_ListenAddr cfg = '':51061'' \<and> map_option pi_tenant_id (sv_dir (sys_server sys) ''p9'') = Some ''t1''"
proof -
  let ?env = "\<lambda>_. '''' :: string" and ?i = "spawn_info (run_env ''p9'' [''L'']) ''L'' demo_spawn"
  obtain ls where ls: "pt_wal (sv_processes (sys_server run2)) = Some ls"
    by (simp add: run2_table PT_Create_simps)
  have "wal_inv (sv_processes (sys_server run2))"
    using reachable_props [OF run_reachable(2)] by (meson sv_invD(1) tbl_invD(3))
  from startup_recovers [OF this ls, where clk = "\<lambda>_. 7"] obtain pt f where
    pt: "scheduler_startup_wal (\<lambda>_. 7) (F_lines ls) = Some (pt, f)"
    by blast
  obtain cfg0 where cfg0: "sched_LoadConfig ?env = Inr cfg0" "cf_HeartbeatTTL cfg0 = 30 * Second"
    "cf_ListenAddr cfg0 = '':51061''"
    by (simp add: sched_LoadConfig_def getEnv_def Let_def)
  let ?sys = "\<lparr>sys_server = NewServer pt (NewLordRegistry (cf_PlacementAlgo cfg0)), sys_scores = NewAutoscaleState\<rparr>"
  have main: "sched_main ?env '':51061'' (\<lambda>_. None) (\<lambda>_. 7) (\<lambda>_. F_lines ls) =
      Runs (cfg0\<lparr>cf_ListenAddr := '':51061''\<rparr>) (DefaultAutoscaleConfig ?env) ?sys"
    by (subst sched_main_runs_iff [THEN conjunct1])
      (simp add: cfg0 pt getEnv_def parseDur_def Second_def)
  have "map_option durable (sv_dir (sys_server ?sys) ''p9'') = Some (durable ?i)"
    using sched_main_runs_iff [THEN conjunct2, rule_format, of ?env "'':51061''" "\<lambda>_. None" "\<lambda>_. 7"
        "\<lambda>_. F_lines ls" _ _ ?sys demo_cfg "''trivial''" run2 ls] main ls run_reachable(2) [of demo_cfg]
    by (simp add: run2_dir)
  then obtain j where j: "sv_dir (sys_server ?sys) ''p9'' = Some j" "durable j = durable ?i" by auto
  have "pi_tenant_id (durable x) = pi_tenant_id x" for x by (simp add: durable_def)
  then have "pi_tenant_id j = pi_tenant_id ?i" using j(2) by metis
  then have "map_option pi_tenant_id (sv_dir (sys_server ?sys) ''p9'') = Some ''t1''"
    using j(1) by (simp add: demo_spawn_def)
  then show ?thesis
    using ls main by (intro exI [of _ ls] exI conjI) (assumption | simp)+
qed

theorem heartbeat_ttl_setting_witness:
  "\<exists>cfg. sched_LoadConfig ((\<lambda>_. '''')(''SCHEDULER_HEARTBEAT_TTL'' := show_nat 45 @ ''s'')) = Inr cfg \<and>
     cf_HeartbeatTTL cfg = 45 * Second \<and> heartbeatSweeper cfg = Some (15 * Second)"
proof -
  obtain cfg where c: "sched_LoadConfig (\<lambda>_. '''') = Inr cfg"
    by (simp add: sched_LoadConfig_def getEnv_def Let_def)
  have "0 < (45 :: nat)" "int 45 * Second < 2 ^ 63" by (simp_all add: Second_def)
  from heartbeat_ttl_setting [OF c this] show ?thesis
    by (intro exI [of _ "cfg\<lparr>cf_HeartbeatTTL := int 45 * Second\<rparr>"]) (simp add: Second_def)
qed

end
