(* ===== verification/Stats.thy ===== *)
theory Stats
  imports Go_Parse Proto
begin

section \<open>The statistics command of the scheduler (cmd/scheduler/main.go)\<close>

text \<open>
  The command reads the scheduler class of the kernel from sysfs, counts the entries of the four
  pinned maps and prints the counters of each lord. The files and the pinned maps are inputs: a map
  answers what the key after a given key is and what a key holds. What the kernel documents of the
  first answer is \<open>keys_in_order\<close>: the next key of a key that is in the map, and the first key
  for one that is not. The walks over a map are loops that could run for ever on a map that
  changes under them, so they are partial functions.
\<close>

subsection \<open>The files of sysfs\<close>

record scxSysfsStats =
  sx_State :: string
  sx_NrRejected :: u64
  sx_EnableSeq :: u64
  sx_HotplugSeq :: u64
  sx_SwitchAll :: int

type_synonym read_file = "string \<Rightarrow> string + string"

definition readSysfsFile :: "read_file \<Rightarrow> string \<Rightarrow> string \<times> string option" where
  "readSysfsFile rd path = (case rd path of Inl err \<Rightarrow> ('''', Some err) | Inr b \<Rightarrow> (TrimSpace b, None))"

definition readSysfsUint :: "read_file \<Rightarrow> string \<Rightarrow> u64 \<times> string option" where
  "readSysfsUint rd path =
     (case readSysfsFile rd path of
        (s, Some err) \<Rightarrow> (0, Some err)
      | (s, None) \<Rightarrow>
          (case ParseUint s of (n, bad) \<Rightarrow>
             (of_nat n, if bad then Some (''strconv.ParseUint: parsing '' @ s) else None)))"

text \<open>The number that \<open>Atoi\<close> returns beside an error: 0, or the bound that was exceeded.\<close>

definition atoi_value :: "string \<Rightarrow> int" where
  "atoi_value s =
     (case Atoi s of
        Some i \<Rightarrow> i
      | None \<Rightarrow>
          (case strip_sign s of (neg, t) \<Rightarrow>
             case ParseUint t of (un, bad) \<Rightarrow>
               if bad \<and> un \<noteq> maxUint64 then 0 else if neg then - (2 ^ 63) else 2 ^ 63 - 1))"

definition readSysfsInt :: "read_file \<Rightarrow> string \<Rightarrow> int \<times> string option" where
  "readSysfsInt rd path =
     (case readSysfsFile rd path of
        (s, Some err) \<Rightarrow> (0, Some err)
      | (s, None) \<Rightarrow>
          (atoi_value s, if Atoi s = None then Some (''strconv.Atoi: parsing '' @ s) else None))"

definition readSCXSysfs :: "read_file \<Rightarrow> scxSysfsStats \<times> string option" where
  "readSCXSysfs rd =
     (let (st, e1) = readSysfsFile rd ''/sys/kernel/sched_ext/state'';
          s1 = \<lparr>sx_State = st, sx_NrRejected = 0, sx_EnableSeq = 0, sx_HotplugSeq = 0, sx_SwitchAll = 0\<rparr> in
      if e1 \<noteq> None then (s1, e1)
      else
        let (rejected, e2) = readSysfsUint rd ''/sys/kernel/sched_ext/nr_rejected'';
            s2 = s1\<lparr>sx_NrRejected := rejected\<rparr> in
        if e2 \<noteq> None then (s2, e2)
        else
          (s2\<lparr>sx_EnableSeq := fst (readSysfsUint rd ''/sys/kernel/sched_ext/enable_seq''),
              sx_HotplugSeq := fst (readSysfsUint rd ''/sys/kernel/sched_ext/hotplug_seq''),
              sx_SwitchAll := fst (readSysfsInt rd ''/sys/kernel/sched_ext/switch_all'')\<rparr>, None))"

subsection \<open>The pinned maps\<close>

text \<open>The information of a map: entries at most and size of a key, or nothing.\<close>

record pinned_map =
  pn_info :: "string + (u32 \<times> u32) option"
  pn_next :: "byte list \<Rightarrow> byte list option"
  pn_lookup :: "byte list \<Rightarrow> byte list option"

type_synonym pins = "string \<Rightarrow> string + pinned_map"

definition maps_dir :: string where
  "maps_dir = ''/sys/fs/bpf/etronium/maps/''"

definition StatsMap :: string where
  "StatsMap = maps_dir @ ''etr_lord_stats''"

definition stat_maps :: "string list" where
  "stat_maps = [maps_dir @ ''etr_task_lord'', maps_dir @ ''etr_lord_cpus'', maps_dir @ ''etr_lord_dsq'', StatsMap]"

record mapInfoResult =
  mi_Max :: u32
  mi_Live :: u32

definition no_map_info :: mapInfoResult where
  "no_map_info = \<lparr>mi_Max = 0, mi_Live = 0\<rparr>"

text \<open>The loop of \<open>mapInfo\<close>: the key that was read last and the number of keys so far.\<close>

partial_function (option) count_keys ::
  "(byte list \<Rightarrow> byte list option) \<Rightarrow> byte list \<Rightarrow> u32 \<Rightarrow> u32 option" where
  "count_keys nxt key count =
     (case nxt key of None \<Rightarrow> Some count | Some key' \<Rightarrow> count_keys nxt key' (count + 1))"

definition mapInfo :: "pins \<Rightarrow> string \<Rightarrow> (mapInfoResult \<times> string option) option" where
  "mapInfo pn pinPath =
     (case pn pinPath of
        Inl err \<Rightarrow> Some (no_map_info, Some (''load '' @ pinPath @ '': '' @ err))
      | Inr m \<Rightarrow>
          (case pn_info m of
             Inl err \<Rightarrow> Some (no_map_info, Some err)
           | Inr None \<Rightarrow> Some (no_map_info, None)
           | Inr (Some (maxEntries, keySize)) \<Rightarrow>
               if keySize = 0 then Some (no_map_info\<lparr>mi_Max := maxEntries\<rparr>, None)
               else map_option (\<lambda>count. (\<lparr>mi_Max = maxEntries, mi_Live = count\<rparr>, None))
                      (count_keys (pn_next m) (replicate (unat keySize) 0) 0)))"

text \<open>The name of a file: what follows the last slash, trailing slashes aside.\<close>

definition path_Base :: "string \<Rightarrow> string" where
  "path_Base p =
     (if p = '''' then ''.''
      else let q = dropWhile (\<lambda>c. c = CHR ''/'') (rev p) in
           if q = '''' then ''/'' else rev (takeWhile (\<lambda>c. c \<noteq> CHR ''/'') q))"

fun read_map_stats ::
  "pins \<Rightarrow> string list \<Rightarrow> (string \<Rightarrow> int option) \<Rightarrow> ((string \<Rightarrow> int option) \<times> string option) option"
where
  "read_map_stats pn [] result = Some (result, None)"
| "read_map_stats pn (p # ps) result =
     (case mapInfo pn p of
        None \<Rightarrow> None
      | Some (info, Some err) \<Rightarrow> Some (result, Some err)
      | Some (info, None) \<Rightarrow> read_map_stats pn ps (result(path_Base p \<mapsto> uint (mi_Live info))))"

definition readBPFMapStats :: "pins \<Rightarrow> ((string \<Rightarrow> int option) \<times> string option) option" where
  "readBPFMapStats pn = read_map_stats pn stat_maps Map.empty"

subsection \<open>The counters of the lords\<close>

record lordStats =
  lk_NrSelectCPU :: u64
  lk_NrEnqueue :: u64
  lk_NrDispatch :: u64
  lk_NrReject :: u64

fun LittleEndian :: "byte list \<Rightarrow> 'a::len word" where
  "LittleEndian [] = 0"
| "LittleEndian (b # bs) = ucast b + 256 * LittleEndian bs"

definition decode_stats :: "byte list \<Rightarrow> lordStats" where
  "decode_stats v =
     \<lparr>lk_NrSelectCPU = LittleEndian (take 8 v), lk_NrEnqueue = LittleEndian (take 8 (drop 8 v)),
      lk_NrDispatch = LittleEndian (take 8 (drop 16 v)), lk_NrReject = LittleEndian (take 8 (drop 24 v))\<rparr>"

text \<open>The loop: a key whose value cannot be read is skipped.\<close>

partial_function (option) read_keys ::
  "(byte list \<Rightarrow> byte list option) \<Rightarrow> (byte list \<Rightarrow> byte list option) \<Rightarrow> byte list \<Rightarrow>
   (u32 \<Rightarrow> lordStats option) \<Rightarrow> (u32 \<Rightarrow> lordStats option) option" where
  "read_keys nxt lookup key out =
     (case nxt key of
        None \<Rightarrow> Some out
      | Some key' \<Rightarrow> read_keys nxt lookup key'
          (case lookup key' of
             None \<Rightarrow> out
           | Some v \<Rightarrow> out(LittleEndian key' \<mapsto> decode_stats v)))"

definition readLordStats :: "pins \<Rightarrow> ((u32 \<Rightarrow> lordStats option) \<times> string option) option" where
  "readLordStats pn =
     (case pn StatsMap of
        Inl err \<Rightarrow> Some (Map.empty, Some (''load stats map: '' @ err))
      | Inr m \<Rightarrow> map_option (\<lambda>out. (out, None))
          (read_keys (pn_next m) (pn_lookup m) (replicate 4 0) Map.empty))"

subsection \<open>The command\<close>

definition newln :: string where
  "newln = [CHR 0x0A]"

text \<open>The verb \<open>%-nd\<close>: padded with spaces on the right.\<close>

definition pad :: "nat \<Rightarrow> string \<Rightarrow> string" where
  "pad n s = s @ replicate (n - length s) CHR '' ''"

definition stats_row :: "string list \<Rightarrow> string" where
  "stats_row cells = concat (map (\<lambda>c. '' '' @ c) ('''' # map (pad 12) cells)) @ newln"

definition lord_row :: "(u32 \<Rightarrow> lordStats option) \<Rightarrow> u32 \<Rightarrow> string" where
  "lord_row perLord lid =
     (case perLord lid of
        None \<Rightarrow> ''''
      | Some sv \<Rightarrow> stats_row (map show_int [uint lid, uint (lk_NrSelectCPU sv), uint (lk_NrEnqueue sv),
                               uint (lk_NrDispatch sv), uint (lk_NrReject sv)]))"

text \<open>The part on the lords; the order is the iteration over the map.\<close>

definition lord_rows :: "(u32 \<Rightarrow> lordStats option) \<Rightarrow> u32 list \<Rightarrow> string" where
  "lord_rows perLord order =
     (if go_range perLord order = []
      then ''Per-lord counters: (none '' @ [CHR 0xE2, CHR 0x80, CHR 0x94] @ '' no SCHED_EXT policy tasks yet)'' @ newln
      else ''Per-lord counters:'' @ newln @
        stats_row [''lord_id'', ''select_cpu'', ''enqueue'', ''dispatch'', ''reject''] @
        concat (map (lord_row perLord) (sort (map fst (go_range perLord order)))))"

definition stats_text ::
  "scxSysfsStats \<Rightarrow> (string \<Rightarrow> int option) \<Rightarrow> string list \<Rightarrow> (u32 \<Rightarrow> lordStats option) \<Rightarrow> u32 list \<Rightarrow> string"
where
  "stats_text scx bpf names perLord order =
     ''sched_ext state: '' @ sx_State scx @ newln @
     ''nr_rejected:     '' @ show_int (uint (sx_NrRejected scx)) @ newln @
     ''enable_seq:      '' @ show_int (uint (sx_EnableSeq scx)) @ newln @
     ''hotplug_seq:     '' @ show_int (uint (sx_HotplugSeq scx)) @ newln @
     ''switch_all:      '' @ show_int (sx_SwitchAll scx) @ newln @ newln @
     ''BPF map entries:'' @ newln @
     concat (map (\<lambda>(name, cnt). ''  '' @ pad 20 name @ '' '' @ show_int cnt @ newln) (go_range bpf names)) @
     newln @ lord_rows perLord order"

datatype stats_output =
    Stats_json scxSysfsStats "string \<Rightarrow> int option" "u32 \<Rightarrow> lordStats option"
  | Stats_text string

text \<open>The command, with its flag for JSON: errors are logged, what was read so far is shown.\<close>

definition statsCmd :: "read_file \<Rightarrow> pins \<Rightarrow> bool \<Rightarrow> string list \<Rightarrow> u32 list \<Rightarrow> stats_output option" where
  "statsCmd rd pn jsonOut names order =
     (case readBPFMapStats pn of
        None \<Rightarrow> None
      | Some (bpf, _) \<Rightarrow>
          (case readLordStats pn of
             None \<Rightarrow> None
           | Some (perLord, _) \<Rightarrow>
               let scx = fst (readSCXSysfs rd) in
               Some (if jsonOut then Stats_json scx bpf perLord
                     else Stats_text (stats_text scx bpf names perLord order))))"

subsection \<open>Walking a map\<close>

text \<open>The keys that come after a key, all of them when it is not in the map.\<close>

definition after :: "'a \<Rightarrow> 'a list \<Rightarrow> 'a list" where
  "after k ks = (if k \<in> set ks then tl (dropWhile (\<lambda>x. x \<noteq> k) ks) else ks)"

text \<open>What the kernel documents of the next key.\<close>

definition keys_in_order :: "('a \<Rightarrow> 'a option) \<Rightarrow> 'a list \<Rightarrow> bool" where
  "keys_in_order nxt ks \<longleftrightarrow> (\<forall>k. nxt k = (case after k ks of [] \<Rightarrow> None | k' # _ \<Rightarrow> Some k'))"

lemma after_suffix: "\<exists>pre. ks = pre @ after k ks"
proof (cases "k \<in> set ks")
  case True
  then have "dropWhile (\<lambda>x. x \<noteq> k) ks \<noteq> []" by (auto simp: dropWhile_eq_Nil_conv)
  then obtain x xs where d: "dropWhile (\<lambda>x. x \<noteq> k) ks = x # xs"
    by (cases "dropWhile (\<lambda>x. x \<noteq> k) ks") simp_all
  have "takeWhile (\<lambda>x. x \<noteq> k) ks @ x # xs = ks"
    using takeWhile_dropWhile_id [of "\<lambda>x. x \<noteq> k" ks] unfolding d .
  then have "ks = (takeWhile (\<lambda>x. x \<noteq> k) ks @ [x]) @ xs" by simp
  moreover have "after k ks = xs" using True by (simp add: after_def d)
  ultimately show ?thesis by metis
qed (simp add: after_def)

lemma after_next:
  assumes "distinct ks" "after k ks = k' # rest"
  shows "after k' ks = rest"
proof -
  obtain pre where "ks = pre @ after k ks" using after_suffix [of ks k] by blast
  then have pre: "ks = pre @ k' # rest" unfolding assms(2) .
  then have "k' \<notin> set pre" using assms(1) by auto
  then show ?thesis unfolding pre by (simp add: after_def dropWhile_append)
qed

lemma count_keys_after:
  assumes "keys_in_order nxt ks" "distinct ks"
  shows "count_keys nxt k c = Some (c + of_nat (length (after k ks)))"
proof (induction "after k ks" arbitrary: k c)
  case Nil
  then have "nxt k = None" using assms(1) by (simp add: keys_in_order_def flip: Nil)
  then show ?case using Nil by (subst count_keys.simps) (simp flip: Nil)
next
  case (Cons k' rest)
  then have "nxt k = Some k'" using assms(1) by (simp add: keys_in_order_def flip: Cons(2))
  moreover have "after k' ks = rest" using after_next [OF assms(2)] Cons(2) by metis
  ultimately show ?case
    using Cons(1) [of k'] by (subst count_keys.simps) (simp flip: Cons(2))
qed

definition read_key ::
  "(byte list \<Rightarrow> byte list option) \<Rightarrow> byte list \<Rightarrow> (u32 \<Rightarrow> lordStats option) \<Rightarrow> u32 \<Rightarrow> lordStats option"
where
  "read_key lookup k out =
     (case lookup k of None \<Rightarrow> out | Some v \<Rightarrow> out(LittleEndian k \<mapsto> decode_stats v))"

lemma read_keys_after:
  assumes "keys_in_order nxt ks" "distinct ks"
  shows "read_keys nxt lookup k out = Some (fold (read_key lookup) (after k ks) out)"
proof (induction "after k ks" arbitrary: k out)
  case Nil
  then have "nxt k = None" using assms(1) by (simp add: keys_in_order_def flip: Nil)
  then show ?case using Nil by (subst read_keys.simps) (simp flip: Nil)
next
  case (Cons k' rest)
  then have "nxt k = Some k'" using assms(1) by (simp add: keys_in_order_def flip: Cons(2))
  moreover have "after k' ks = rest" using after_next [OF assms(2)] Cons(2) by metis
  ultimately show ?case
    using Cons(1) [of k'] by (subst read_keys.simps) (simp add: read_key_def flip: Cons(2))
qed

subsection \<open>Little endian\<close>

fun le_nat :: "nat \<Rightarrow> nat \<Rightarrow> byte list" where
  "le_nat 0 x = []"
| "le_nat (Suc n) x = of_nat (x mod 256) # le_nat n (x div 256)"

definition le_bytes :: "nat \<Rightarrow> 'a::len word \<Rightarrow> byte list" where
  "le_bytes n w = le_nat n (unat w)"

lemma le_nat_length [simp]: "length (le_nat n x) = n"
  by (induction n x rule: le_nat.induct) simp_all

lemma le_nat_zero: "le_nat n 0 = replicate n 0"
  by (induction n) simp_all

lemma LittleEndian_le_nat: "(LittleEndian (le_nat n x) :: 'a::len word) = of_nat (x mod 256 ^ n)"
proof (induction n x rule: le_nat.induct)
  case (2 n x)
  have b: "(ucast (of_nat (x mod 256) :: byte) :: 'a word) = of_nat (x mod 256)"
    by (simp add: unsigned_of_nat take_bit_eq_mod)
  have "x mod 256 ^ Suc n = 256 * (x div 256 mod 256 ^ n) + x mod 256"
    by (simp add: mod_mult2_eq)
  then show ?case by (simp add: 2 b)
qed simp

lemma LittleEndian_le_bytes:
  assumes "LENGTH('a::len) = 8 * n"
  shows "LittleEndian (le_bytes n (w :: 'a word)) = w"
proof -
  have "(256 :: nat) ^ n = 2 ^ LENGTH('a)" by (simp add: assms power_mult)
  then have "unat w mod 256 ^ n = unat w" using unsigned_less [of w] by simp
  then show ?thesis by (simp add: le_bytes_def LittleEndian_le_nat)
qed

definition encode_stats :: "lordStats \<Rightarrow> byte list" where
  "encode_stats s = le_bytes 8 (lk_NrSelectCPU s) @ le_bytes 8 (lk_NrEnqueue s) @
     le_bytes 8 (lk_NrDispatch s) @ le_bytes 8 (lk_NrReject s)"

lemma decode_encode_stats [simp]: "decode_stats (encode_stats s) = s"
proof -
  have l: "length (le_bytes 8 w) = 8" for w :: u64 by (simp add: le_bytes_def)
  show ?thesis by (cases s) (simp add: decode_stats_def encode_stats_def l LittleEndian_le_bytes)
qed

lemma le_bytes_key_eq: "le_bytes 4 (k :: u32) = le_bytes 4 k' \<longleftrightarrow> k = k'"
proof -
  have "(LittleEndian (le_bytes 4 x) :: u32) = x" for x :: u32 by (rule LittleEndian_le_bytes) simp
  then show ?thesis by metis
qed

subsection \<open>Properties\<close>

text \<open>The size that is shown of a pinned map is the number of the keys behind the all-zero key: right
  when there is no such key, too small when there is one.\<close>

theorem mapInfo_live:
  assumes "pn p = Inr m" "pn_info m = Inr (Some (mx, sz))" "sz \<noteq> 0"
    and "keys_in_order (pn_next m) ks" "distinct ks"
  shows "let z = replicate (unat sz) 0 in
    mapInfo pn p = Some (\<lparr>mi_Max = mx, mi_Live = of_nat (length (after z ks))\<rparr>, None) \<and>
    (z \<notin> set ks \<longrightarrow> length (after z ks) = length ks) \<and>
    (z \<in> set ks \<longrightarrow> length (after z ks) < length ks)"
proof -
  let ?z = "replicate (unat sz) (0 :: byte)"
  have "length (after ?z ks) < length ks" if "?z \<in> set ks"
  proof -
    have "dropWhile (\<lambda>x. x \<noteq> ?z) ks \<noteq> []" using that by (auto simp: dropWhile_eq_Nil_conv)
    then have "length (tl (dropWhile (\<lambda>x. x \<noteq> ?z) ks)) < length (dropWhile (\<lambda>x. x \<noteq> ?z) ks)" by simp
    also have "\<dots> \<le> length ks" by (rule length_dropWhile_le)
    finally show ?thesis using that unfolding after_def by (simp only: if_True)
  qed
  moreover have "mapInfo pn p = Some (\<lparr>mi_Max = mx, mi_Live = of_nat (length (after ?z ks))\<rparr>, None)"
    by (simp add: mapInfo_def assms(1-3) count_keys_after [OF assms(4,5)])
  ultimately show ?thesis by (simp add: Let_def after_def)
qed

lemma fold_read_key:
  assumes "\<forall>k\<in>set ids. lookup (le_bytes 4 k) = map_option encode_stats (tbl k)" "distinct ids"
  shows "fold (read_key lookup) (map (le_bytes 4) ids) out k =
    (if k \<in> set ids \<and> tbl k \<noteq> None then tbl k else out k)"
  using assms
proof (induction ids arbitrary: out)
  case (Cons i ids)
  have "LittleEndian (le_bytes 4 i) = i" by (rule LittleEndian_le_bytes) simp
  then show ?case using Cons by (cases "tbl i") (auto simp: read_key_def)
qed simp

text \<open>C40: the command shows the counters that the kernel has stored for each lord, no more and no
  fewer, as long as no lord has the number 0.\<close>

theorem readLordStats_readback:
  assumes "pn StatsMap = Inr m" "keys_in_order (pn_next m) (map (le_bytes 4) ids)" "distinct ids"
    and "set ids = dom tbl" "0 \<notin> set ids"
    and "\<forall>k\<in>set ids. pn_lookup m (le_bytes 4 k) = map_option encode_stats (tbl k)"
  shows "readLordStats pn = Some (tbl, None)"
proof -
  let ?ks = "map (le_bytes 4) ids"
  have d: "distinct ?ks" using assms(3) by (auto simp: distinct_map le_bytes_key_eq intro: inj_onI)
  have "replicate 4 0 = le_bytes 4 (0 :: u32)" by (simp add: le_bytes_def le_nat_zero)
  then have "replicate 4 0 \<notin> set ?ks" using assms(5) by (auto simp: le_bytes_key_eq)
  then have "after (replicate 4 0) ?ks = ?ks" by (simp add: after_def)
  then have "read_keys (pn_next m) (pn_lookup m) (replicate 4 0) Map.empty =
      Some (fold (read_key (pn_lookup m)) ?ks Map.empty)"
    using read_keys_after [OF assms(2) d] by simp
  moreover have "fold (read_key (pn_lookup m)) ?ks Map.empty = tbl"
  proof
    fix k show "fold (read_key (pn_lookup m)) ?ks Map.empty k = tbl k"
      using fold_read_key [OF assms(6,3), of Map.empty k] assms(4) by (cases "tbl k") auto
  qed
  ultimately show ?thesis by (simp add: readLordStats_def assms(1))
qed

text \<open>The rows of the lords do not depend on the iteration over the map.\<close>

theorem lord_rows_stable:
  assumes "iter_order m ks" "iter_order m ks'"
  shows "lord_rows m ks = lord_rows m ks'"
proof -
  have keys: "distinct (map fst (go_range m xs)) \<and> set (map fst (go_range m xs)) = dom m"
    if "iter_order m xs" for xs
  proof -
    have "map fst (go_range m xs) = filter (\<lambda>k. m k \<noteq> None) xs"
      by (induction xs) (auto split: option.split)
    then show ?thesis using that by (auto simp: iter_order_def)
  qed
  have "sort (map fst (go_range m ks)) = sort (map fst (go_range m ks'))"
    using keys [OF assms(1)] keys [OF assms(2)] by (metis sorted_list_of_set_sort_remdups distinct_remdups_id)
  moreover have "go_range m ks = [] \<longleftrightarrow> go_range m ks' = []"
    using keys [OF assms(1)] keys [OF assms(2)] by (metis list.set_map set_empty image_is_empty)
  ultimately show ?thesis by (simp add: lord_rows_def)
qed

subsection \<open>The properties on concrete inputs\<close>

text \<open>Two lords, 7 and 9; the lord 7 has counters.\<close>

definition demo_stats :: lordStats where
  "demo_stats = \<lparr>lk_NrSelectCPU = 300, lk_NrEnqueue = 2, lk_NrDispatch = 70000, lk_NrReject = 1\<rparr>"

definition demo_tbl :: "u32 \<Rightarrow> lordStats option" where
  "demo_tbl = [7 \<mapsto> demo_stats, 9 \<mapsto> demo_stats]"

definition demo_ids :: "u32 list" where
  "demo_ids = [9, 7]"

definition demo_map :: pinned_map where
  "demo_map = \<lparr>pn_info = Inr (Some (64, 4)),
     pn_next = (\<lambda>k. case after k (map (le_bytes 4) demo_ids) of [] \<Rightarrow> None | k' # _ \<Rightarrow> Some k'),
     pn_lookup = (\<lambda>k. map_option encode_stats (demo_tbl (LittleEndian k)))\<rparr>"

lemma demo_map_keys: "keys_in_order (pn_next demo_map) (map (le_bytes 4) demo_ids)"
  by (simp add: keys_in_order_def demo_map_def)

theorem readLordStats_readback_witness: "readLordStats (\<lambda>_. Inr demo_map) = Some (demo_tbl, None)"
proof -
  have "(LittleEndian (le_bytes 4 k) :: u32) = k" for k :: u32 by (rule LittleEndian_le_bytes) simp
  then show ?thesis
    by (intro readLordStats_readback [of "\<lambda>_. Inr demo_map" demo_map demo_ids] demo_map_keys)
      (auto simp: demo_ids_def demo_tbl_def demo_map_def)
qed

text \<open>A map that holds the key 0 and another one is shown as a map with a single entry.\<close>

theorem mapInfo_live_witness:
  "let m = demo_map\<lparr>pn_next := (\<lambda>k. case after k [le_bytes 4 (0 :: u32), le_bytes 4 (5 :: u32)] of
     [] \<Rightarrow> None | k' # _ \<Rightarrow> Some k')\<rparr> in
   mapInfo (\<lambda>_. Inr m) p = Some (\<lparr>mi_Max = 64, mi_Live = 1\<rparr>, None)"
proof -
  let ?ks = "[le_bytes 4 (0 :: u32), le_bytes 4 (5 :: u32)]"
  let ?m = "demo_map\<lparr>pn_next := (\<lambda>k. case after k ?ks of [] \<Rightarrow> None | k' # _ \<Rightarrow> Some k')\<rparr>"
  have z: "replicate (unat (4 :: u32)) 0 = le_bytes 4 (0 :: u32)" by (simp add: le_bytes_def le_nat_zero)
  have "after (le_bytes 4 (0 :: u32)) ?ks = [le_bytes 4 (5 :: u32)]" by (simp add: after_def)
  moreover have "keys_in_order (pn_next ?m) ?ks" by (simp add: keys_in_order_def)
  ultimately show ?thesis
    using mapInfo_live [of "\<lambda>_. Inr ?m" p ?m 64 4 ?ks] unfolding z
    by (simp add: demo_map_def le_bytes_key_eq Let_def)
qed

theorem lord_rows_stable_witness: "lord_rows demo_tbl [7, 9] = lord_rows demo_tbl [9, 7]"
  by (rule lord_rows_stable) (auto simp: iter_order_def demo_tbl_def)

end
