(* ===== verification/Demos.thy ===== *)
theory Demos
  imports Network
begin

section \<open>The demonstration programs (cmd/example-stateful, cmd/oom-loop, cmd/zombie-fork)\<close>

text \<open>
  The stateful program counts, and keeps its count in a file that it replaces as a whole: it writes
  a second file and renames it. It is restarted by the recovery of the scheduler and must go on where
  it was. The disk outlives the program: a crash takes the memory and leaves the disk, at any
  point of a round. A file is known by what decoding it gives: a state, or an error and what
  had been decoded before it. What the operating system answers is an argument.
  The other two programs load a lord: one allocates memory until a limit, one leaves zombies.
\<close>

subsection \<open>The state and its file\<close>

record app_state =
  as_Counter :: i64
  as_LastUpdated :: time
  as_Restarts :: i64

definition zero_app_state :: app_state where
  "zero_app_state = \<lparr>as_Counter = 0, as_LastUpdated = 0, as_Restarts = 0\<rparr>"

datatype content = C_json app_state | C_corrupt app_state string

type_synonym disk = "string \<Rightarrow> content option"

definition Unmarshal :: "content \<Rightarrow> app_state \<times> string option" where
  "Unmarshal c = (case c of C_json s \<Rightarrow> (s, None) | C_corrupt s err \<Rightarrow> (s, Some err))"

datatype app_line =
    L_recovered app_state
  | L_corrupt string
  | L_fresh
  | L_read_error string
  | L_mkdir string
  | L_started int string i64          \<comment> \<open>pid, path, restarts\<close>
  | L_write_tmp string
  | L_rename string
  | L_progress int i64 time           \<comment> \<open>pid, counter, time\<close>

text \<open>The environment of the program: of two entries for a key \<open>os/exec\<close> keeps the last.\<close>

definition env_key :: "string \<Rightarrow> string" where
  "env_key e = takeWhile (\<lambda>c. c \<noteq> CHR ''='') e"

definition go_getenv :: "string list \<Rightarrow> string \<Rightarrow> string" where
  "go_getenv es k =
     (case find (\<lambda>e. env_key e = k \<and> CHR ''='' \<in> set e) (rev es) of
        None \<Rightarrow> ''''
      | Some e \<Rightarrow> drop (length k + 1) e)"

definition defaultStatePath :: string where
  "defaultStatePath = ''/tmp/etronium-state.json''"

definition statePath :: "string list \<Rightarrow> string" where
  "statePath es =
     (let p = go_getenv es ''ETRONIUM_STATE_DUMP'' in if p = '''' then defaultStatePath else p)"

text \<open>The loop looks for the last slash from the end.\<close>

fun parent_loop :: "string \<Rightarrow> nat \<Rightarrow> string" where
  "parent_loop path 0 = ''.''"
| "parent_loop path (Suc i) = (if path ! i = CHR ''/'' then take i path else parent_loop path i)"

definition parentDir :: "string \<Rightarrow> string" where
  "parentDir path = parent_loop path (length path)"

subsection \<open>The start\<close>

definition load_state :: "string option \<Rightarrow> content option \<Rightarrow> app_state \<times> app_line" where
  "load_state readErr file =
     (case (readErr, file) of
        (Some err, _) \<Rightarrow> (zero_app_state, L_read_error err)
      | (None, None) \<Rightarrow> (zero_app_state, L_fresh)
      | (None, Some c) \<Rightarrow>
          (case Unmarshal c of
             (s, Some err) \<Rightarrow> (s, L_corrupt err)
           | (s, None) \<Rightarrow> (s\<lparr>as_Restarts := as_Restarts s + 1\<rparr>, L_recovered s)))"

record app =
  ap_path :: string
  ap_pid :: int
  ap_state :: app_state

record start_env =
  st_environ :: "string list"
  st_readErr :: "string option"
  st_mkdirErr :: "string option"
  st_pid :: int

text \<open>The system knows no directory with an empty name.\<close>

definition MkdirAll :: "string option \<Rightarrow> string \<Rightarrow> string option" where
  "MkdirAll err path = (if path = '''' then Some ''mkdir : no such file or directory'' else err)"

text \<open>The program that runs, or \<open>None\<close> after its exit with status 1.\<close>

definition stateful_start :: "start_env \<Rightarrow> disk \<Rightarrow> app_line list \<times> app option" where
  "stateful_start env d =
     (let path = statePath (st_environ env);
          (s, line) = load_state (st_readErr env) (d path) in
      case MkdirAll (st_mkdirErr env) (parentDir path) of
        Some err \<Rightarrow> ([line, L_mkdir err], None)
      | None \<Rightarrow> ([line, L_started (st_pid env) path (as_Restarts s)],
                  Some \<lparr>ap_path = path, ap_pid = st_pid env, ap_state = s\<rparr>))"

subsection \<open>A round of the loop\<close>

datatype write_outcome = Write_ok | Write_fails string "content option"   \<comment> \<open>what is left of the file\<close>

record tick_env =
  tk_now :: time
  tk_write :: write_outcome
  tk_rename :: "string option"

definition advance :: "time \<Rightarrow> app_state \<Rightarrow> app_state" where
  "advance now s = s\<lparr>as_Counter := as_Counter s + 1, as_LastUpdated := now\<rparr>"

definition tmp_path :: "string \<Rightarrow> string" where
  "tmp_path path = path @ ''.tmp''"

definition stateful_tick :: "tick_env \<Rightarrow> app \<Rightarrow> disk \<Rightarrow> app_line list \<times> app \<times> disk" where
  "stateful_tick env ap d =
     (let s = advance (tk_now env) (ap_state ap);
          ap1 = ap\<lparr>ap_state := s\<rparr>;
          path = ap_path ap;
          tmp = tmp_path path in
      case tk_write env of
        Write_fails err left \<Rightarrow> ([L_write_tmp err], ap1, d(tmp := left))
      | Write_ok \<Rightarrow>
          (let d1 = d(tmp \<mapsto> C_json s);
               (line, d2) = (case tk_rename env of
                  Some err \<Rightarrow> ([L_rename err], d1)
                | None \<Rightarrow> ([], d1(path \<mapsto> C_json s, tmp := None))) in
           (line @ (if sint (as_Counter s) mod 5 = 0
                    then [L_progress (ap_pid ap) (as_Counter s) (as_LastUpdated s)] else []),
            ap1, d2)))"

text \<open>
  The life of the program on its disk. A crash comes between two rounds, while the second file is
  being written, which leaves anything there, or between the write and the rename.
\<close>

datatype app_event =
    A_start start_env
  | A_tick tick_env
  | A_crash
  | A_crash_writing "content option"
  | A_crash_written time

definition app_step :: "app_event \<Rightarrow> app option \<times> disk \<Rightarrow> app option \<times> disk" where
  "app_step ev c =
     (case (ev, c) of
        (A_start env, (None, d)) \<Rightarrow> (snd (stateful_start env d), d)
      | (A_tick env, (Some ap, d)) \<Rightarrow> (case stateful_tick env ap d of (_, ap1, d1) \<Rightarrow> (Some ap1, d1))
      | (A_crash, (_, d)) \<Rightarrow> (None, d)
      | (A_crash_writing left, (Some ap, d)) \<Rightarrow> (None, d(tmp_path (ap_path ap) := left))
      | (A_crash_written now, (Some ap, d)) \<Rightarrow>
          (None, d(tmp_path (ap_path ap) \<mapsto> C_json (advance now (ap_state ap))))
      | _ \<Rightarrow> c)"

definition app_run :: "app_event list \<Rightarrow> app option \<times> disk \<Rightarrow> app option \<times> disk" where
  "app_run evs c = fold app_step evs c"

subsection \<open>The other programs\<close>

text \<open>
  \<open>make\<close> panics on a length that is negative or beyond the address space of the runtime. The
  kernel kills the program when the pages it has touched, all bytes of all blocks, exceed what its
  group may use. The sizes are 64-bit integers and the product wraps.
\<close>

definition maxAlloc :: int where "maxAlloc = 2 ^ 48"

definition block_bytes :: "i64 \<Rightarrow> i64" where
  "block_bytes blockMB = blockMB * 1024 * 1024"

datatype oom_end = Oom_done | Oom_panic | Oom_killed

text \<open>The end of the program and the totals it printed; \<open>None\<close> when it runs for ever.\<close>

partial_function (option) oom_loop ::
  "i64 \<Rightarrow> i64 \<Rightarrow> int \<Rightarrow> i64 \<Rightarrow> int \<Rightarrow> i64 list \<Rightarrow> (oom_end \<times> i64 list) option"
where
  "oom_loop blockMB limitMB budget totalMB touched out =
     (if \<not> sint totalMB < sint limitMB then Some (Oom_done, out)
      else if sint (block_bytes blockMB) < 0 \<or> maxAlloc < sint (block_bytes blockMB) then Some (Oom_panic, out)
      else if budget < touched + sint (block_bytes blockMB) then Some (Oom_killed, out)
      else oom_loop blockMB limitMB budget (totalMB + blockMB) (touched + sint (block_bytes blockMB))
             (out @ [totalMB + blockMB]))"


definition oom_main :: "i64 \<Rightarrow> i64 \<Rightarrow> int \<Rightarrow> (oom_end \<times> i64 list) option" where
  "oom_main blockMB limitMB budget = oom_loop blockMB limitMB budget 0 0 []"

text \<open>The zombies: what the starts of the children answer, an error or a pid; nobody waits for them.\<close>

datatype fork_line = F_failed nat string | F_forked int | F_sleeping | F_exiting

definition zombie_main :: "int \<Rightarrow> (nat \<Rightarrow> string + int) \<Rightarrow> fork_line list \<times> int list" where
  "zombie_main n start =
     (let rs = map (\<lambda>i. (i, start i)) [0..<nat n] in
      (map (\<lambda>(i, r). case r of Inl err \<Rightarrow> F_failed i err | Inr pid \<Rightarrow> F_forked pid) rs @
         [F_sleeping, F_exiting],
       concat (map (\<lambda>(i, r). case r of Inl err \<Rightarrow> [] | Inr pid \<Rightarrow> [pid]) rs)))"


subsection \<open>The state file\<close>

lemma tmp_path_neq [simp]: "tmp_path p \<noteq> p" "p \<noteq> tmp_path p"
  by (simp_all add: tmp_path_def)

lemma advance_simps [simp]:
  "as_Counter (advance now s) = as_Counter s + 1" "as_Restarts (advance now s) = as_Restarts s"
  by (simp_all add: advance_def)

text \<open>What a start makes of the file of the program.\<close>

lemma start_some:
  assumes "stateful_start env d = (ls, Some ap)"
  shows "ap_path ap = statePath (st_environ env)"
    "st_readErr env = None \<Longrightarrow> d (ap_path ap) = Some (C_json s) \<Longrightarrow>
       ap_state ap = s\<lparr>as_Restarts := as_Restarts s + 1\<rparr>"
  using assms by (auto simp: stateful_start_def load_state_def Unmarshal_def Let_def
      split: prod.splits option.splits)

lemma tick_cases:
  assumes "stateful_tick env ap d = (ls, ap1, d1)"
  shows "ap1 = ap\<lparr>ap_state := advance (tk_now env) (ap_state ap)\<rparr>"
    "d1 (ap_path ap) = d (ap_path ap) \<or> d1 (ap_path ap) = Some (C_json (ap_state ap1))"
    "tk_write env = Write_ok \<Longrightarrow> tk_rename env = None \<Longrightarrow> d1 (ap_path ap) = Some (C_json (ap_state ap1))"
  using assms by (auto simp: stateful_tick_def Let_def split: write_outcome.splits option.splits prod.splits)

lemma sint_i64_Suc: "sint (c :: i64) < 2 ^ 63 - 1 \<Longrightarrow> sint (c + 1) = sint c + 1"
  using sint_greater_eq [of c] by (simp add: sint_word_ariths(1) signed_take_bit_int_eq_self)

text \<open>The invariant: the file holds a whole state, not older than the first, and the memory is not behind it.\<close>

definition app_inv :: "string \<Rightarrow> int \<Rightarrow> nat \<Rightarrow> app option \<times> disk \<Rightarrow> bool" where
  "app_inv p c0 n c \<longleftrightarrow>
     (\<exists>s. snd c p = Some (C_json s) \<and> c0 \<le> sint (as_Counter s) \<and> sint (as_Counter s) \<le> c0 + int n \<and>
       (\<forall>ap. fst c = Some ap \<longrightarrow> ap_path ap = p \<and> sint (as_Counter s) \<le> sint (as_Counter (ap_state ap)) \<and>
          sint (as_Counter (ap_state ap)) \<le> c0 + int n))"

text \<open>The events the claim is about: every start is with the path of the file, and can read it.\<close>

fun reads_file :: "string \<Rightarrow> app_event \<Rightarrow> bool" where
  "reads_file p (A_start env) \<longleftrightarrow> statePath (st_environ env) = p \<and> st_readErr env = None"
| "reads_file p _ \<longleftrightarrow> True"

lemma app_inv_mono: "app_inv p c0 n c \<Longrightarrow> app_inv p c0 (Suc n) c"
  unfolding app_inv_def by fastforce

lemma app_inv_crash:
  assumes "app_inv p c0 n (a, d)" "d' p = d p"
  shows "app_inv p c0 n (None, d')"
  using assms unfolding app_inv_def by auto

lemma app_inv_tick:
  assumes "app_inv p c0 n (Some ap, d)" "c0 + int n < 2 ^ 63 - 1" "stateful_tick env ap d = (ls, ap1, d1)"
  shows "app_inv p c0 (Suc n) (Some ap1, d1)"
proof -
  obtain s where s: "d p = Some (C_json s)" "c0 \<le> sint (as_Counter s)" "ap_path ap = p"
    "sint (as_Counter s) \<le> sint (as_Counter (ap_state ap))" "sint (as_Counter (ap_state ap)) \<le> c0 + int n"
    using assms(1) by (auto simp: app_inv_def)
  have c: "sint (as_Counter (ap_state ap1)) = sint (as_Counter (ap_state ap)) + 1" "ap_path ap1 = p"
    using tick_cases(1) [OF assms(3)] sint_i64_Suc [of "as_Counter (ap_state ap)"] s(3,5) assms(2)
    by (simp_all del: One_nat_def)
  have "d1 p = Some (C_json s) \<or> d1 p = Some (C_json (ap_state ap1))"
    using tick_cases(2) [OF assms(3)] s(1,3) by auto
  then show ?thesis using s c by (auto simp: app_inv_def)
qed

lemma app_inv_start:
  assumes "app_inv p c0 n (None, d)" "statePath (st_environ env) = p" "st_readErr env = None"
  shows "app_inv p c0 n (snd (stateful_start env d), d)"
proof (cases "stateful_start env d")
  case (Pair ls a)
  then show ?thesis
    using assms start_some by (cases a) (auto simp: app_inv_def)
qed

lemma app_inv_step:
  assumes "app_inv p c0 n c" "c0 + int n < 2 ^ 63 - 1" "reads_file p ev"
  shows "app_inv p c0 (Suc n) (app_step ev c)"
proof -
  obtain a d where c: "c = (a, d)" by fastforce
  note m = app_inv_mono [OF assms(1) [unfolded c]]
  have path: "ap_path ap = p" if "a = Some ap" for ap using assms(1) that by (auto simp: app_inv_def c)
  show ?thesis
  proof (cases ev)
    case (A_start env)
    then show ?thesis
      using m app_inv_start [of p c0 "Suc n" d env] assms(3) by (cases a) (simp_all add: c app_step_def)
  next
    case (A_tick env)
    show ?thesis
    proof (cases a)
      case (Some ap)
      then show ?thesis
        using app_inv_tick [OF assms(1) [unfolded c Some] assms(2)] A_tick
        by (simp add: c app_step_def split: prod.split)
    qed (use A_tick m in \<open>simp add: c app_step_def\<close>)
  qed (use m path app_inv_crash [OF m] in \<open>auto simp: c app_step_def split: option.split\<close>)
qed

lemma app_inv_run:
  assumes "app_inv p c0 n c" "c0 + int n + int (length evs) < 2 ^ 63" "\<forall>ev\<in>set evs. reads_file p ev"
  shows "app_inv p c0 (n + length evs) (app_run evs c)"
  using assms
proof (induction evs arbitrary: n c)
  case (Cons ev evs)
  have "app_inv p c0 (Suc n) (app_step ev c)"
    by (rule app_inv_step [OF Cons.prems(1)]) (use Cons.prems(2,3) in auto)
  then have "app_inv p c0 (Suc n + length evs) (app_run evs (app_step ev c))"
    by (rule Cons.IH) (use Cons.prems(2,3) in auto)
  then show ?case by (simp add: app_run_def)
qed (simp add: app_run_def)

lemma good_tick_survives:
  assumes "app_step (A_tick tk) (Some ap, d) = (a, d1)" "tk_write tk = Write_ok" "tk_rename tk = None"
    and "stateful_start env d1 = (ls, Some ap1)" "statePath (st_environ env) = ap_path ap" "st_readErr env = None"
  shows "as_Counter (ap_state ap1) = as_Counter (ap_state ap) + 1"
proof -
  obtain ls ap' where t: "stateful_tick tk ap d = (ls, ap', d1)"
    using assms(1) by (auto simp: app_step_def split: prod.splits)
  show ?thesis
    using start_some(2) [OF assms(4,6)] start_some(1) [OF assms(4)] assms(5)
      tick_cases(3) [OF t assms(2,3)] tick_cases(1) [OF t] by simp
qed

text \<open>A start that cannot read the file begins at zero, and the next round writes that over the file.\<close>

lemma read_error_resets:
  assumes "st_readErr env = Some err" "stateful_start env d = (ls, Some ap)"
    and "stateful_tick tk ap d = (ls', ap1, d1)" "tk_write tk = Write_ok" "tk_rename tk = None"
  shows "\<exists>s. d1 (ap_path ap) = Some (C_json s) \<and> as_Counter s = 1"
proof -
  have "as_Counter (ap_state ap) = 0"
    using assms(1,2) by (auto simp: stateful_start_def load_state_def zero_app_state_def Let_def
        split: option.splits)
  then show ?thesis using tick_cases(1,3) [OF assms(3)] assms(4,5) by simp
qed

text \<open>A state file directly under the root has a parent with an empty name: the program cannot start.\<close>

lemma root_path_exits:
  assumes "statePath (st_environ env) = CHR ''/'' # name" "CHR ''/'' \<notin> set name"
  shows "snd (stateful_start env d) = None"
proof -
  have "i \<le> length name \<Longrightarrow> parent_loop (CHR ''/'' # name) (Suc i) = ''''" for i
  proof (induction i)
    case (Suc i)
    have "name ! i \<noteq> CHR ''/''" using assms(2) Suc.prems by (metis Suc_le_eq nth_mem)
    then show ?case using Suc by simp
  qed simp
  then have "parentDir (statePath (st_environ env)) = ''''"
    unfolding parentDir_def assms(1) by simp
  then show ?thesis by (simp add: stateful_start_def MkdirAll_def Let_def split: prod.split)
qed

subsection \<open>The environment that reaches a program\<close>

lemma env_key_entry: "CHR ''='' \<notin> set k \<Longrightarrow> env_key (k @ ''='' @ v) = k"
  unfolding env_key_def by (subst takeWhile_append2) auto

lemma find_rev_last:
  assumes "es = xs @ e # ys" "P e" "\<And>y. y \<in> set ys \<Longrightarrow> \<not> P y"
  shows "find P (rev es) = Some e"
proof -
  have "find P (rev ys) = None" using assms(3) by (simp add: find_None_iff)
  moreover have "find P (zs @ e # us) = Some e" if "find P zs = None" for zs us
    using that assms(2) by (induction zs) (auto split: if_splits)
  ultimately show ?thesis using assms(1) by simp
qed

lemma go_getenv_buildEnv:
  assumes "iter_order m ks" "m k = Some v" "\<forall>x\<in>dom m. CHR ''='' \<notin> set x"
  shows "go_getenv (buildEnv environ ks (Some m)) k = v"
proof -
  let ?f = "\<lambda>(x, y). x @ ''='' @ y :: string"
  have k: "CHR ''='' \<notin> set k" using assms(2,3) by blast
  have "(k, v) \<in> set (go_range m ks)" using assms(1,2) by (simp add: mem_go_range_iter)
  then obtain as bs where s: "go_range m ks = as @ (k, v) # bs" by (meson split_list)
  have d: "distinct (map fst (go_range m ks))"
    using assms(1) by (simp add: map_fst_go_range_iter) (simp add: iter_order_def)
  have b: "\<not> (env_key e = k \<and> CHR ''='' \<in> set e)" if e: "e \<in> set (map ?f bs)" for e
  proof -
    obtain x y where x: "(x, y) \<in> set bs" "e = x @ ''='' @ y" using e by auto
    then have "(x, y) \<in> set (go_range m ks)" by (simp add: s)
    then have "m x = Some y" using assms(1) by (simp add: mem_go_range_iter)
    then have "CHR ''='' \<notin> set x" using assms(3) by blast
    then have "env_key e = x" unfolding x(2) by (rule env_key_entry)
    moreover have "k \<notin> fst ` set bs" using d by (simp add: s)
    ultimately show ?thesis using x(1) by (metis fst_conv image_eqI)
  qed
  have "find (\<lambda>e. env_key e = k \<and> CHR ''='' \<in> set e) (rev (buildEnv environ ks (Some m))) = Some (?f (k, v))"
  proof (rule find_rev_last [OF _ _ b])
    show "buildEnv environ ks (Some m) = (environ @ map ?f as) @ ?f (k, v) # map ?f bs"
      by (simp add: buildEnv_def s)
    show "env_key (?f (k, v)) = k \<and> CHR ''='' \<in> set (?f (k, v))" using env_key_entry [OF k] by simp
  qed
  then show ?thesis by (simp add: go_getenv_def)
qed

subsection \<open>The loads\<close>

lemma block_bytes_small:
  assumes "\<bar>sint b\<bar> \<le> 2 ^ 28"
  shows "sint (block_bytes b) = sint b * 2 ^ 20"
proof -
  have "block_bytes b = b * 1048576" by (simp add: block_bytes_def)
  then show ?thesis
    using assms by (simp add: sint_word_ariths(3) signed_take_bit_int_eq_self)
qed

text \<open>The loop ends for every positive size of a block: it is done or killed.\<close>

lemma oom_loop_ends:
  assumes "0 < sint b" "sint b \<le> 2 ^ 28" "budget < 2 ^ 62" "touched = sint tot * 2 ^ 20" "0 \<le> sint tot"
    and "touched \<le> budget \<or> touched = 0"
  shows "\<exists>ts. oom_loop b cap budget tot touched out = Some (Oom_done, ts) \<or>
    oom_loop b cap budget tot touched out = Some (Oom_killed, ts)"
  using assms(4-)
proof (induction "nat (sint cap - sint tot)" arbitrary: tot touched out rule: less_induct)
  case less
  have bb: "sint (block_bytes b) = sint b * 2 ^ 20" using block_bytes_small assms(1,2) by simp
  show ?case
  proof (cases "sint tot < sint cap \<and> \<not> budget < touched + sint b * 2 ^ 20")
    case True
    have t: "sint (tot + b) = sint tot + sint b"
      using True less.prems assms(1-3) by (simp add: sint_word_ariths(1) signed_take_bit_int_eq_self)
    have "\<exists>ts. oom_loop b cap budget (tot + b) (touched + sint b * 2 ^ 20) (out @ [tot + b]) = Some (Oom_done, ts) \<or>
      oom_loop b cap budget (tot + b) (touched + sint b * 2 ^ 20) (out @ [tot + b]) = Some (Oom_killed, ts)"
      by (rule less.hyps) (use True t less.prems assms(1) in \<open>auto simp: algebra_simps\<close>)
    then show ?thesis
      using True assms(1,2) bb by (subst (1 2) oom_loop.simps) (simp add: maxAlloc_def)
  next
    case False
    then show ?thesis
      using assms(1,2) bb by (subst (1 2) oom_loop.simps) (auto simp: maxAlloc_def)
  qed
qed

lemma oom_main_negative:
  "sint b < 0 \<Longrightarrow> - (2 ^ 28) \<le> sint b \<Longrightarrow> 0 < sint cap \<Longrightarrow> oom_main b cap budget = Some (Oom_panic, [])"
  using block_bytes_small [of b] by (simp add: oom_main_def oom_loop.simps)

text \<open>Blocks of no size are allocated for ever.\<close>

lemma oom_main_zero:
  assumes "0 < sint cap" "0 \<le> budget"
  shows "oom_main 0 cap budget = None"
proof -
  have "\<not> (b = 0 \<and> sint tot < sint l \<and> touched \<le> bud)"
    if "oom_loop b l bud tot touched out = Some r" for b l bud tot touched out r
    by (rule oom_loop.raw_induct [where P = "\<lambda>b l bud tot touched out r.
          \<not> (b = 0 \<and> sint tot < sint l \<and> touched \<le> bud)", OF _ that])
      (auto simp: block_bytes_def maxAlloc_def not_less split: if_splits, blast)
  then show ?thesis using assms unfolding oom_main_def by (metis not_Some_eq sint_0)
qed

text \<open>Every start of a child is told; every child that runs is left without a wait.\<close>

lemma zombie_main_children:
  "set (snd (zombie_main n start)) = {pid. \<exists>i. int i < n \<and> start i = Inr pid}"
  "length (fst (zombie_main n start)) = nat n + 2"
proof -
  have "pid \<in> set (case start i of Inl err \<Rightarrow> [] | Inr pid \<Rightarrow> [pid]) \<longleftrightarrow> start i = Inr pid" for pid i
    by (cases "start i") auto
  moreover have "i < nat n \<longleftrightarrow> int i < n" for i by arith
  ultimately show "set (snd (zombie_main n start)) = {pid. \<exists>i. int i < n \<and> start i = Inr pid}"
    by (auto simp: zombie_main_def Let_def)
qed (simp add: zombie_main_def Let_def)

subsection \<open>Properties\<close>

text \<open>C19: the count never goes back: whatever crashes at whatever point of a round, failed writes, failed
  renames and restarts follow, the file of the stateful program holds a complete state that is not
  older than the first, and a program that runs is not behind its file; unless a start cannot read the file.\<close>

theorem counter_never_goes_back:
  assumes "app_run evs (None, d) = (a, d')" "d p = Some (C_json s)"
    and "\<forall>ev\<in>set evs. reads_file p ev" "sint (as_Counter s) + int (length evs) < 2 ^ 63"
  shows "\<exists>s'. d' p = Some (C_json s') \<and> sint (as_Counter s) \<le> sint (as_Counter s') \<and>
    (\<forall>ap. a = Some ap \<longrightarrow> sint (as_Counter s') \<le> sint (as_Counter (ap_state ap)))"
proof -
  have "app_inv p (sint (as_Counter s)) 0 (None, d)" using assms(2) by (auto simp: app_inv_def)
  then have "app_inv p (sint (as_Counter s)) (length evs) (a, d')"
    using app_inv_run [of p _ 0 _ evs] assms(1,3,4) by fastforce
  then show ?thesis by (auto simp: app_inv_def)
qed

definition demo_state :: app_state where
  "demo_state = \<lparr>as_Counter = 41, as_LastUpdated = 5, as_Restarts = 0\<rparr>"

definition demo_app_start :: app_event where
  "demo_app_start = A_start \<lparr>st_environ = [''ETRONIUM_STATE_DUMP=/s/a.json''], st_readErr = None,
     st_mkdirErr = None, st_pid = 9\<rparr>"

definition demo_app_run :: "app_event list" where
  "demo_app_run = [demo_app_start, A_tick \<lparr>tk_now = 6, tk_write = Write_ok, tk_rename = None\<rparr>,
     A_crash_writing None, demo_app_start, A_crash_written 7, demo_app_start]"

lemma demo_app_path: "statePath [''ETRONIUM_STATE_DUMP=/s/a.json''] = ''/s/a.json''"
  by code_simp

lemma demo_app_parent: "parentDir ''/s/a.json'' = ''/s''"
  by code_simp

lemma demo_app_run_end:
  "\<exists>ap. fst (app_run demo_app_run (None, [''/s/a.json'' \<mapsto> C_json demo_state])) = Some ap \<and>
     as_Counter (ap_state ap) = 42"
  by (simp add: demo_app_run_def demo_app_start_def app_run_def app_step_def stateful_start_def
      demo_app_path demo_app_parent load_state_def Unmarshal_def MkdirAll_def stateful_tick_def Let_def
      advance_def demo_state_def tmp_path_def)

theorem counter_never_goes_back_witness:
  "\<exists>ap d'. app_run demo_app_run (None, [''/s/a.json'' \<mapsto> C_json demo_state]) = (Some ap, d') \<and>
     as_Counter (ap_state ap) = 42 \<and> (\<exists>s. d' ''/s/a.json'' = Some (C_json s) \<and> 41 \<le> sint (as_Counter s))"
proof -
  obtain ap d' where r: "app_run demo_app_run (None, [''/s/a.json'' \<mapsto> C_json demo_state]) = (Some ap, d')"
    "as_Counter (ap_state ap) = 42"
    using demo_app_run_end by (metis prod.collapse)
  have f: "[''/s/a.json'' \<mapsto> C_json demo_state] ''/s/a.json'' = Some (C_json demo_state)"
    "\<forall>ev\<in>set demo_app_run. reads_file ''/s/a.json'' ev"
    "sint (as_Counter demo_state) + int (length demo_app_run) < 2 ^ 63"
    by (simp_all add: demo_app_run_def demo_app_start_def demo_app_path demo_state_def)
  from counter_never_goes_back [OF r(1) f] r show ?thesis by (auto simp: demo_state_def)
qed

text \<open>C18: the path that a tenant names for the state of a process is the file that the stateful program
  uses on the machine it is sent to, in its first start and in every restart, unless a name in the
  environment that the tenant asked for has an equals sign.\<close>

theorem stateful_finds_state:
  assumes "net_reachable cfg algo nw" "req \<in> under_way nw l"
    and "sv_dir (sys_server (nw_sched nw)) (sr_process_id req) = Some i"
    and "pi_state_dump_path i \<noteq> ''''" "launch_env i = Some m" "iter_order m (ax_envOrder env)"
    and "\<forall>x\<in>dom m. CHR ''='' \<notin> set x"
  shows "statePath (loc_env (new_local_process env req pid)) = pi_state_dump_path i"
proof -
  have m: "m ''ETRONIUM_STATE_DUMP'' = Some (pi_state_dump_path i)"
    using assms(4,5) by (auto simp: launch_env_def)
  have "omit_empty (sr_env req) = omit_empty (launch_env i)"
    using under_way_ordered [OF assms(1,2)] assms(3) by (auto simp: ordered_def launch_def)
  then have "sr_env req = Some m"
    using m assms(5) by (auto simp: omit_empty_def split: option.splits if_splits)
  then show ?thesis
    using go_getenv_buildEnv [OF assms(6) m assms(7)] assms(4)
    by (simp add: statePath_def new_local_process_def Let_def)
qed

theorem stateful_finds_state_witness:
  "\<exists>nw req. net_reachable demo_cfg ''trivial'' nw \<and> req \<in> under_way nw ''L'' \<and>
     statePath (loc_env (new_local_process (demo_ax\<lparr>ax_envOrder := [''ETRONIUM_STATE_DUMP'']\<rparr>) req 5)) = ''/s/a.json''"
proof -
  obtain nw where nw: "net_reachable demo_cfg ''trivial'' nw" "nw_sched nw = run2"
    using run2_net by blast
  obtain s req where s: "sv_sessions (sys_server run2) ''L'' = Some s"
    "ls_outbox s = [Ev_RegisterAck ''L'' 10, Ev_Spawn req]" "sr_process_id req = ''p9''"
    using run2_session_events by blast
  let ?i = "spawn_info (run_env ''p9'' [''L'']) ''L'' demo_spawn"
  let ?m = "[''ETRONIUM_STATE_DUMP'' \<mapsto> ''/s/a.json'']"
  have r: "req \<in> under_way nw ''L''" using s by (simp add: under_way_def nw(2))
  have i: "sv_dir (sys_server (nw_sched nw)) (sr_process_id req) = Some ?i"
    by (simp add: nw(2) s(3) run2_dir)
  have p: "pi_state_dump_path ?i = ''/s/a.json''" "pi_env ?i = None"
    by (simp_all add: spawn_info_def demo_spawn_def zero_spawn_request_def copyMap_def)
  then have e: "pi_state_dump_path ?i \<noteq> ''''" "launch_env ?i = Some ?m"
    "iter_order ?m (ax_envOrder (demo_ax\<lparr>ax_envOrder := [''ETRONIUM_STATE_DUMP'']\<rparr>))"
    "\<forall>x\<in>dom ?m. CHR ''='' \<notin> set x"
    by (simp_all add: launch_env_def iter_order_def)
  have "statePath (loc_env (new_local_process (demo_ax\<lparr>ax_envOrder := [''ETRONIUM_STATE_DUMP'']\<rparr>) req 5)) = ''/s/a.json''"
    using stateful_finds_state [OF nw(1) r i e] p(1) by simp
  then show ?thesis using nw(1) r by blast
qed

end
