(* ===== verification/Lifecycle.thy ===== *)
theory Lifecycle
  imports Lord_Run Config Cli
begin

section \<open>The end of the programs, and what is left of their edges\<close>

text \<open>
  The scheduler serves until a signal comes: then it asks every lord to drain, waits, and stops its
  server (cmd/scheduler/main.go). The times at which things happen, and what a select takes, are arguments. Besides this there are
  the exit codes of the programs, the kernel policy of a child on the lord, and the calls that
  are only kept for old callers.
\<close>

subsection \<open>The scheduler serves and stops\<close>

definition drainTimeout :: duration where "drainTimeout = 15 * Second"

definition stopTimeout :: duration where "stopTimeout = 5 * Second"

definition deadline_exceeded :: go_error where
  "deadline_exceeded = Errorf ''context deadline exceeded''"

text \<open>
  The deadline of \<open>drainCtx\<close> counts from its creation, the timer of \<open>Shutdown\<close> from the end of the
  sends. Both have the same length, nothing else ends the wait, and Go does not promise in which order the two
  are seen: the select takes either.
\<close>

record stop_env =
  se_created :: time
  se_sent :: "string \<Rightarrow> time"            \<comment> \<open>when the loop reaches a session\<close>
  se_ready :: "string \<Rightarrow> bool"           \<comment> \<open>which branch a select with two takes\<close>
  se_ctxSeen :: bool                     \<comment> \<open>the wait sees the deadline of the context, not the timer\<close>
  se_sessions :: "string list"
  se_graceful :: duration                \<comment> \<open>how long \<open>GracefulStop\<close> would take\<close>
  se_stopTie :: bool

definition ctx_done :: "stop_env \<Rightarrow> time \<Rightarrow> bool" where
  "ctx_done env t \<longleftrightarrow> se_created env + drainTimeout \<le> t"

definition drain_wait :: "stop_env \<Rightarrow> go_error option" where
  "drain_wait env = (if se_ctxSeen env then Some deadline_exceeded else None)"

datatype server_stop = Stopped_gracefully | Stopped_hard

datatype stop_line = S_signal | S_incomplete go_error

definition on_signal :: "stop_env \<Rightarrow> server \<Rightarrow> (stop_line list \<times> server_stop) \<times> server" where
  "on_signal env sv =
     (case Shutdown (\<lambda>k. if ctx_done env (se_sent env k) \<and> se_ready env k then Some deadline_exceeded else None)
             (drain_wait env) (se_sessions env) drainTimeout sv of
        (err, sv1) \<Rightarrow>
          ((S_signal # (case err of None \<Rightarrow> [] | Some e \<Rightarrow> [S_incomplete e]),
            if se_graceful env < stopTimeout \<or> se_graceful env = stopTimeout \<and> se_stopTie env
            then Stopped_gracefully else Stopped_hard), sv1))"

text \<open>The exit code: what \<open>Listen\<close> and \<open>Serve\<close> return; a stop is no error.\<close>

datatype serve_result = Serve_returned | Serve_stopped | Serve_failed string

definition sched_serve :: "string option \<Rightarrow> serve_result \<Rightarrow> int" where
  "sched_serve listenErr served =
     (if listenErr \<noteq> None then 1
      else case served of Serve_failed err \<Rightarrow> 1 | _ \<Rightarrow> 0)"

subsection \<open>The lord ends\<close>

datatype run_result = Run_returned | Run_canceled | Run_failed string

definition lord_exit_code :: "run_result \<Rightarrow> int" where
  "lord_exit_code res = (case res of Run_failed err \<Rightarrow> 1 | _ \<Rightarrow> 0)"

text \<open>The identifier for the log: the first eight characters; Go panics on a shorter one.\<close>

definition fmtLordID :: "agent \<Rightarrow> string option" where
  "fmtLordID ag =
     (if ag_lordID ag = '''' then Some ''?''
      else if length (ag_lordID ag) < 8 then None else Some (take 8 (ag_lordID ag)))"

subsection \<open>The policy of a child\<close>

text \<open>The kernel runs every process under a policy, which a system call changes or refuses with a reason.\<close>

definition SCHED_EXT :: int where "SCHED_EXT = 7"

definition applySchedExt ::
  "(int \<Rightarrow> string option) \<Rightarrow> int \<Rightarrow> (int \<Rightarrow> int) \<Rightarrow> go_error option \<times> (int \<Rightarrow> int)"
where
  "applySchedExt refuses pid policy =
     (case refuses pid of
        Some err \<Rightarrow> (Some (Errorf (''sched_setscheduler(pid='' @ show_int pid @ '', SCHED_EXT): '' @ err)), policy)
      | None \<Rightarrow> (None, policy(pid := SCHED_EXT)))"

text \<open>A spawn with the policies: they change when a child has started, and a refusal is only logged.\<close>

definition spawn_policies ::
  "(int \<Rightarrow> string option) \<Rightarrow> ag_env \<Rightarrow> spawn_request \<Rightarrow> agent \<Rightarrow> (int \<Rightarrow> int) \<Rightarrow> int \<Rightarrow> int"
where
  "spawn_policies refuses env req ag policy =
     (if sr_process_id req = '''' \<or> ag_draining ag then policy
      else case ax_start env of
        Started_as pid \<Rightarrow> snd (applySchedExt refuses pid policy)
      | _ \<Rightarrow> policy)"

subsection \<open>Calls without effect\<close>

text \<open>The tokens of the tenants: each command says that it does nothing yet, and succeeds.\<close>

datatype token_cmd = Token_new | Token_list | Token_revoke

definition cli_token :: "token_cmd \<Rightarrow> cli_result" where
  "cli_token c = (None, [ErrLine (case c of
       Token_new \<Rightarrow> ''tenant token new: not implemented in Phase 1 (MVP runs without auth).''
     | Token_list \<Rightarrow> ''tenant token list: not implemented in Phase 1.''
     | Token_revoke \<Rightarrow> ''tenant token revoke: not implemented in Phase 1.'')])"

definition cli_version :: "string \<Rightarrow> cli_result" where
  "cli_version version = (None, [ErrLine (''etronium '' @ version)])"

definition SetLordClient :: "string \<Rightarrow> server \<Rightarrow> server" where
  "SetLordClient lordID sv = sv"

definition GetLordClient :: "string \<Rightarrow> server \<Rightarrow> go_error" where
  "GetLordClient lordID sv = Errorf ''GetLordClient: deprecated in Phase 0 (use lordSessions)''"

subsection \<open>A stop asks every lord that can be asked\<close>

lemma grace_15: "f64_to_i32 (duration_Seconds drainTimeout) = 15"
  by code_simp

definition asked :: "i32 \<Rightarrow> lord_session \<Rightarrow> lord_session" where
  "asked g s = (if length (ls_outbox s) < outbox_cap then s\<lparr>ls_outbox := ls_outbox s @ [Ev_SetDrain g '''']\<rparr> else s)"

lemma shutdown_loop_asks:
  assumes "distinct ks" "\<forall>k\<in>set ks. cancelled k = None"
  shows "shutdown_loop g cancelled ks sv = (None, sv\<lparr>sv_sessions :=
    \<lambda>k. if k \<in> set ks then map_option (asked g) (sv_sessions sv k) else sv_sessions sv k\<rparr>)"
  using assms
proof (induction ks arbitrary: sv)
  case (Cons k ks)
  let ?sv = "case sv_sessions sv k of None \<Rightarrow> sv | Some s \<Rightarrow> (if length (ls_outbox s) < outbox_cap
    then put_session k (asked g s) sv else sv)"
  have step: "shutdown_loop g cancelled (k # ks) sv = shutdown_loop g cancelled ks ?sv"
    using Cons.prems(2) by (auto simp: outbox_push_def asked_def split: option.split)
  have sv: "?sv = sv\<lparr>sv_sessions := (sv_sessions sv)(k := map_option (asked g) (sv_sessions sv k))\<rparr>"
    by (cases "sv_sessions sv k") (auto simp: asked_def put_session_def fun_upd_idem)
  have up: "sv_sessions (sv\<lparr>sv_sessions := f\<rparr>) = f" "sv\<lparr>sv_sessions := f\<rparr>\<lparr>sv_sessions := h\<rparr> = sv\<lparr>sv_sessions := h\<rparr>" for f h
    by simp_all
  have eq: "(\<lambda>x. if x \<in> set ks then map_option (asked g) (((sv_sessions sv)(k := map_option (asked g) (sv_sessions sv k))) x)
      else ((sv_sessions sv)(k := map_option (asked g) (sv_sessions sv k))) x) =
    (\<lambda>x. if x \<in> set (k # ks) then map_option (asked g) (sv_sessions sv x) else sv_sessions sv x)"
    using Cons.prems(1) by (auto simp: fun_eq_iff)
  have "distinct ks" "\<forall>k\<in>set ks. cancelled k = None" using Cons.prems by simp_all
  from Cons.IH [OF this] show ?case unfolding step sv by (simp only: up eq)
qed simp

text \<open>A child that the agent has started runs under the policy of the extension, unless the kernel refuses it.\<close>

lemma spawn_policies_child:
  assumes "ag_children (snd (handleSpawn env req ag)) = ag_children ag @ [c]"
  shows "spawn_policies refuses env req ag policy =
    (if refuses (ch_pid c) = None then policy(ch_pid c := SCHED_EXT) else policy)"
  using assms
  by (auto simp: handleSpawn_def spawn_policies_def applySchedExt_def Let_def sendProcessExit_def ag_send_def
      split: start_outcome.splits option.splits if_splits)

subsection \<open>Properties\<close>

text \<open>C25: a signal to the scheduler asks every connected lord whose outbox has room to drain within 15 seconds, as
  the last event of its outbox, and changes nothing else of the server; an agent that reads it drains. The
  scheduler does not look at what the lords do: whether it logs the drain as incomplete is decided by
  which of two timers of the same length it sees first.\<close>

theorem stop_asks_every_lord:
  assumes "on_signal env sv = ((lines, stop), sv')" "iter_order (sv_sessions sv) (se_sessions env)"
    and "\<forall>k\<in>set (se_sessions env). se_sent env k < se_created env + drainTimeout"
  shows "sv' = sv\<lparr>sv_sessions := \<lambda>l. map_option (\<lambda>s.
        if length (ls_outbox s) < outbox_cap then s\<lparr>ls_outbox := ls_outbox s @ [Ev_SetDrain 15 '''']\<rparr> else s)
        (sv_sessions sv l)\<rparr> \<and>
    ag_draining (snd (handleEvent ax (Ev_SetDrain 15 '''') ag)) \<and>
    lines = (if se_sessions env \<noteq> [] \<and> se_ctxSeen env then [S_signal, S_incomplete deadline_exceeded] else [S_signal])"
proof -
  let ?c = "\<lambda>k. if ctx_done env (se_sent env k) \<and> se_ready env k then Some deadline_exceeded else None"
  have ks: "distinct (se_sessions env)" "set (se_sessions env) = dom (sv_sessions sv)"
    using assms(2) by (auto simp: iter_order_def)
  have "\<forall>k\<in>set (se_sessions env). ?c k = None" using assms(3) by (simp add: ctx_done_def not_le)
  note loop = shutdown_loop_asks [OF ks(1) this, of 15 sv]
  have ask: "(\<lambda>l. if l \<in> set (se_sessions env) then map_option (asked 15) (sv_sessions sv l) else sv_sessions sv l) =
      (\<lambda>l. map_option (asked 15) (sv_sessions sv l))"
    using ks(2) by (auto simp: fun_eq_iff domIff)
  have none: "sv\<lparr>sv_sessions := \<lambda>l. map_option f (sv_sessions sv l)\<rparr> = sv" if "se_sessions env = []" for f
  proof -
    have "(\<lambda>l. map_option f (sv_sessions sv l)) = sv_sessions sv"
      using ks(2) that by (auto simp: fun_eq_iff dom_def)
    then show ?thesis by simp
  qed
  have a: "asked 15 = (\<lambda>s. if length (ls_outbox s) < outbox_cap
      then s\<lparr>ls_outbox := ls_outbox s @ [Ev_SetDrain 15 '''']\<rparr> else s)"
    by (simp add: fun_eq_iff asked_def)
  have "ag_draining (snd (handleEvent ax (Ev_SetDrain 15 '''') ag))"
    by (simp add: handleEvent_def drain_start_def kill_all_frame)
  then show ?thesis
    using assms(1) loop none unfolding ask a [symmetric]
    by (auto simp: on_signal_def Shutdown_def grace_15 drain_wait_def split: if_splits)
qed

definition demo_stop :: stop_env where
  "demo_stop = \<lparr>se_created = 0, se_sent = (\<lambda>_. 1), se_ready = (\<lambda>_. True), se_ctxSeen = True,
     se_sessions = [''L1'', ''a'', ''b''], se_graceful = 0, se_stopTie = True\<rparr>"

theorem stop_asks_every_lord_witness:
  "\<exists>lines stop sv'. on_signal demo_stop demo_server = ((lines, stop), sv') \<and>
     map_option ls_outbox (sv_sessions sv' ''b'') = Some [Ev_SetDrain 15 ''''] \<and>
     lines = [S_signal, S_incomplete deadline_exceeded]"
proof -
  obtain lines stop sv' where r: "on_signal demo_stop demo_server = ((lines, stop), sv')" by (metis surj_pair)
  have h: "iter_order (sv_sessions demo_server) (se_sessions demo_stop)"
    "\<forall>k\<in>set (se_sessions demo_stop). se_sent demo_stop k < se_created demo_stop + drainTimeout"
    "sv_sessions demo_server ''b'' = Some (newLordSession ''b'')"
    "se_sessions demo_stop \<noteq> []" "se_ctxSeen demo_stop"
    by (auto simp: iter_order_def demo_server_def demo_stop_def NewServer_def drainTimeout_def Second_def)
  have s: "sv_sessions (demo_server\<lparr>sv_sessions := f\<rparr>) ''b'' = f ''b''" for f by simp
  from stop_asks_every_lord [OF r h(1,2)] r h(3-5) show ?thesis
    by (auto simp: newLordSession_def outbox_cap_def)
qed

end
