(* ===== verification/Spec2Isabelle.thy ===== *)
theory Spec2Isabelle
  imports End_To_End Network Lord_Run Cli Config Stats Demos Lifecycle
begin

text \<open>
  A model of Etronium, a scheduler that runs the processes of tenants on donor machines (lords).

  \<^bold>\<open>The program.\<close> One scheduler process (\<open>internal/scheduler\<close>, started by \<open>cmd/scheduler\<close>) serves
  two gRPC services: the tenant API and the streams of the lords. It keeps a registry of the lords,
  a table of processes with their output buffers, a write-ahead log of the table, sessions with an
  outbox per lord, and the maps of a kernel scheduler. A recovery goroutine re-launches the processes
  of a lord that is gone, a background loop samples the load and migrates. On each lord an agent
  (\<open>internal/lord\<close>) starts processes in slices of the cgroup file system, pumps their output, takes
  input and signals for them and reports their ends. A spawn goes from the API through the placement
  and the session of the chosen lord to the agent; output, starts and ends come back over the stream
  and change the table, which logs every change.

  \<^bold>\<open>Theories.\<close> In the order of the imports, each with the code it models:
  \<^item> \<open>Prelude\<close>: time, maps with an iteration order chosen by the runtime, decimal rendering, the lemma
    collections, the locales for stores and queues that several components share.
  \<^item> \<open>Float64\<close>: IEEE double arithmetic (rounding to nearest even, infinities, NaN) for the scores.
  \<^item> \<open>Proto\<close>: the messages of \<open>etronium.pb.go\<close> as records and datatypes, status errors.
  \<^item> \<open>Ring_Buffer\<close> (\<open>process_table.go\<close>): the output buffer, byte for byte.
  \<^item> \<open>Registry\<close> (\<open>placement.go\<close>): lords, heartbeats, the two placement algorithms.
  \<^item> \<open>Process_Table\<close> (\<open>process_table.go\<close>): entries by address, the two directories, watchers, re-binding.
  \<^item> \<open>Wal\<close> (\<open>wal.go\<close>, start-up in \<open>cmd/scheduler/main.go\<close>): the log as a list of lines, its replay.
  \<^item> \<open>Stores\<close>: the keyed stores of the server; \<open>Bpf\<close> (\<open>bpf.go\<close>): kernel maps and SHA-256 keys.
  \<^item> \<open>Server_State\<close>, \<open>Tenant_Api\<close> (\<open>server.go\<close>, parts of \<open>connect.go\<close>): the state of the server, its
    invariant \<open>sv_inv\<close>, and every handler of the tenant API.
  \<^item> \<open>Connect\<close> (\<open>connect.go\<close>): the loops of a lord's stream and its messages.
  \<^item> \<open>Recovery\<close> (\<open>recovery.go\<close>, \<open>migrate.go\<close>): re-launching, its limits and time-outs, migration.
  \<^item> \<open>Go_Text\<close>: the parsing of numbers and lines; \<open>Autoscale\<close> (\<open>autoscale.go\<close>): sampling, decisions.
  \<^item> \<open>Evolution\<close>: what every operation keeps of a process (\<open>evolves\<close>), operation by operation.
  \<^item> \<open>System\<close>: the scheduler as a transition system over all its operations, with restarts on any
    beginning of the log.
  \<^item> \<open>Cgroup\<close> (\<open>lord/cgroup.go\<close>, \<open>lord/stats.go\<close>): slices, limits and counters.
  \<^item> \<open>Lord_Agent\<close> (\<open>lord/agent.go\<close>, \<open>exec.go\<close>, \<open>drain.go\<close>, \<open>stats.go\<close>): the agent and its steps.
  \<^item> \<open>Lord_Run\<close> (\<open>lord/agent.go\<close>): the connections of the agent, one after the other, with the
    goroutines of each stream and the pause between them.
  \<^item> \<open>End_To_End\<close>: paths through both machines. \<open>Network\<close>: the scheduler and any number of machines
    as one transition system, with streams that break and crashes on both sides.
  \<^item> \<open>Cli\<close> (\<open>cmd/etronium/main.go\<close>): the commands of the tenants as clients of the API.
  \<^item> \<open>Go_Parse\<close>: numbers, floats and durations from text; \<open>Config\<close> (\<open>config.go\<close>, both \<open>main.go\<close>, the
    settings in \<open>autoscale.go\<close>): settings and the start of both programs.
  \<^item> \<open>Stats\<close> (\<open>cmd/scheduler/main.go\<close>): the statistics command and its walks over kernel maps.
  \<^item> \<open>Demos\<close> (\<open>cmd/example-stateful\<close>, \<open>cmd/oom-loop\<close>, \<open>cmd/zombie-fork\<close>): the program that survives its
    restarts with a state file, over every crash on its disk, and the two that load a lord.
  \<^item> \<open>Lifecycle\<close> (\<open>cmd/scheduler/main.go\<close>, \<open>cmd/lord/main.go\<close>, \<open>lord/exec.go\<close>): the stop of the
    scheduler and the drain it asks for, exit codes, the kernel policy of a child.

  \<^bold>\<open>Names.\<close> Definitions have the names of the functions they model; a method that clashes with
  another has the type as a prefix (\<open>PT_Create\<close>, \<open>Lords_Pick\<close>, \<open>rb_Write\<close>). A struct is a record
  whose fields carry a short prefix. A handler returns its result (\<open>Inl\<close> of an error or \<open>Inr\<close> of the
  response) and the state after it; a piece of code that panics returns None.

  \<^bold>\<open>What is shown.\<close> Per component: that placement is sound, complete and optimal for the score and
  that the score is a number between 0 and 1; that the buffer holds the tail of what it accepted, and
  where it loses bytes; that the log determines the table; what each handler does on success and on
  every error; that recovery ends and what it leaves behind; what
  a round of the load balancing decides. For the scheduler as a whole: the invariant of all reachable
  states, that programs and tenants never change, that a process which is over stays over for its waiters,
  that a lord which announced its end gets nothing more, that a crash at any point can be survived from the log,
  and which settings and which log it starts with. For the agent: every process in its table will be
  reported when it ends, a drain is final; how it notices a lost stream, and that the heartbeats of
  lost streams go on. Across both machines: output, input and signals arrive unchanged; exactly the limits
  of a request are offered to the kernel, and by the documented rule of cgroups it takes none of them;
  every spawn event on its way is well formed, no process is sent to the lords more often than its restart limit
  allows between two starts of the scheduler, and whatever runs on a machine was ordered by the scheduler, with
  the environment of its tenant. A stop of the scheduler asks every lord to drain. The stateful program finds the file its
  tenant named, and its count never goes back. Some theorems state behaviour that is likely not intended; they are marked in the
  text before them and listed as findings beside this development.

  \<^bold>\<open>Choices of the environment.\<close> The record \<open>go_env\<close> holds what the runtime may choose: the time, the
  next identifier, the order of map iterations, whether a full outbox gets room within five seconds,
  the answers of the kernel. \<open>env_ok\<close> asks only that an order lists the keys of its map once and that
  identifiers are fresh. On the lord \<open>ag_env\<close> and \<open>fs_env\<close> do the same for the operating system: the
  kernel's file system is an arbitrary function of the changes it has accepted. What a pinned map
  answers is a parameter; \<open>keys_in_order\<close> states what the kernel documents of walking one. \<open>sort.Slice\<close> is
  stable insertion sort: the scores of two lords that are equal may come in either order in the code.

  \<^bold>\<open>Granularity.\<close> A step is a critical section or a handler up to the point where it blocks: calls
  that wait (\<open>Wait\<close>, \<open>WriteStdin\<close>, \<open>StreamProcessIO\<close>) are split there. A handler that takes several
  locks one after the other, and a pass of the recovery over its candidates, are one step: what another
  goroutine could see between closing the channel of a process and recording its result is not a state of the model.
  An event whose send timed out stays with the goroutine that sends it (\<open>ls_late\<close>) and may arrive at any later
  time. A drain blocks the receiver of its stream in \<open>Lord_Run\<close>; in \<open>Lord_Agent\<close> and \<open>Network\<close>
  an agent may hear an event at any time, so these theorems hold for more runs than there are.
  A crash cuts the log behind a whole line: a line that is torn, the text that is appended to it, and lines that are
  too long for the scanner are not represented.

  \<^bold>\<open>Bounds.\<close> Integers are words of their width where the code computes with them; times and durations
  are integers without overflow. The statements on restarts are about limits that are not negative, because a negative one
  means none. A recovery has at most ten attempts, so \<open>maxAttempts + 2\<close> steps are
  always enough. The memory loop of \<open>cmd/oom-loop\<close> is a partial function: it ends for blocks of up to
  \<open>2 ^ 28\<close> MB, and never for blocks of size 0. The walks of the statistics command are partial functions: they end on a map that
  does not change, and on no other do the theorems say that they do. Text is ASCII, as the files and identifiers of the system are. The outbox of the
  agent is the queue of all senders: one that finds the channel full waits and keeps its place.

  \<^bold>\<open>Not modelled.\<close> The gRPC transport and its generated code, logging, the parsing of flags,
  JSON below the level of objects, the raw mode of the terminal in the shell, and scripts. The
  gateway in \<open>internal/gen\<close> is generated and no program of the repository serves it.
\<close>

end
